(* ===== verification/Prelude.thy ===== *)
theory Prelude
  imports Main "HOL-Library.Word" "HOL-Library.AList"
begin

text \<open>
  Shared vocabulary of the development: machine integers, the outcome of a C++ call, little-endian
  byte strings, in-place buffer updates and decimal/hexadecimal numerals, with the lemmas about them
  that the component theories use.
\<close>

section \<open>Machine integers\<close>

type_synonym u8 = "8 word"
type_synonym u16 = "16 word"
type_synonym u32 = "32 word"
type_synonym u64 = "64 word"

section \<open>Outcomes of a call\<close>

text \<open>
  A C++ function may return, may run for ever, or may leave the defined part of the language.
  \<open>Ret\<close> is a normal return, \<open>Hang\<close> a loop or a wait that never ends, and \<open>Fault\<close> one of the
  events after which no statement about the program is possible: a null pointer that is
  dereferenced, a byte buffer handed to the FlatBuffers accessors that is not a FlatBuffer, an
  uncaught \<^verbatim>\<open>std::length_error\<close> or \<^verbatim>\<open>std::system_error\<close>, an access outside an object, a call of
  \<^verbatim>\<open>std::terminate\<close>, an object used after it was freed, freed twice, or used as one of another type.
\<close>

datatype fault = NullDeref | BadFlatBuffer | LengthError | OutOfBounds | Terminate
  | UseAfterFree | DoubleFree | SystemError | BadCast

datatype 'a outcome = Ret 'a | Hang | Fault fault

primrec bind_outcome :: "'a outcome \<Rightarrow> ('a \<Rightarrow> 'b outcome) \<Rightarrow> 'b outcome" where
  "bind_outcome (Ret x) f = f x"
| "bind_outcome Hang f = Hang"
| "bind_outcome (Fault e) f = Fault e"

lemma bind_outcome_eq_Ret:
  "bind_outcome m f = Ret y \<longleftrightarrow> (\<exists>x. m = Ret x \<and> f x = Ret y)"
  by (cases m) auto

lemma bind_outcome_assoc:
  "bind_outcome (bind_outcome m f) g = bind_outcome m (\<lambda>x. bind_outcome (f x) g)"
  by (cases m) auto

text \<open>
  \<open>post P m\<close>: if the call returns, its result satisfies \<open>P\<close>. The rules push \<open>post\<close> through the code
  of a function, so that a property of all its results is proved along its control flow.
\<close>

definition post :: "('a \<Rightarrow> bool) \<Rightarrow> 'a outcome \<Rightarrow> bool" where
  "post P m \<longleftrightarrow> (\<forall>x. m = Ret x \<longrightarrow> P x)"

lemma post_simps [simp]:
  "post P (Ret x) \<longleftrightarrow> P x" "post P Hang" "post P (Fault e)"
  "post P (bind_outcome m f) \<longleftrightarrow> post (\<lambda>x. post P (f x)) m"
  by (auto simp: post_def bind_outcome_eq_Ret)

lemma postD: "post P m \<Longrightarrow> m = Ret x \<Longrightarrow> P x"
  by (simp add: post_def)

lemma post_weaken: "post Q m \<Longrightarrow> (\<And>x. Q x \<Longrightarrow> P x) \<Longrightarrow> post P m"
  by (simp add: post_def)

text \<open>
  \<open>outcome_intros\<close> collects the rules that prove a \<open>post\<close> along the code, with what is known at each point;
  the component theories add a rule for each operation that every call starts with.
\<close>

named_theorems outcome_intros

lemma post_bind [outcome_intros]: "(\<And>x. m = Ret x \<Longrightarrow> post P (f x)) \<Longrightarrow> post P (bind_outcome m f)"
  by (cases m) simp_all

lemma post_all: "(\<And>x. P x) \<Longrightarrow> post P m"
  by (simp add: post_def)

section \<open>Little-endian integers\<close>

primrec le_bytes :: "nat \<Rightarrow> nat \<Rightarrow> u8 list" where
  "le_bytes 0 x = []"
| "le_bytes (Suc n) x = of_nat (x mod 256) # le_bytes n (x div 256)"

primrec le_value :: "u8 list \<Rightarrow> nat" where
  "le_value [] = 0"
| "le_value (b # bs) = unat b + 256 * le_value bs"

lemma length_le_bytes [simp]: "length (le_bytes n x) = n"
  by (induction n arbitrary: x) auto

lemma unat_byte_of_nat: "unat (of_nat (x mod 256) :: u8) = x mod 256"
  by (simp add: unat_of_nat)

lemma le_value_le_bytes: "le_value (le_bytes n x) = x mod 256 ^ n"
proof (induction n arbitrary: x)
  case 0
  show ?case by simp
next
  case (Suc n)
  have "le_value (le_bytes (Suc n) x) = x mod 256 + 256 * (x div 256 mod 256 ^ n)"
    using Suc.IH [of "x div 256"] by (simp add: unat_of_nat)
  also have "\<dots> = x mod (256 * 256 ^ n)"
    by (simp add: mod_mult2_eq)
  finally show ?case by simp
qed

lemma le_value_bound: "le_value bs < 256 ^ length bs"
proof (induction bs)
  case Nil
  show ?case by simp
next
  case (Cons b bs)
  have "unat b < 256"
    using unsigned_less [of b] by simp
  with Cons.IH show ?case by simp
qed

definition le64 :: "u64 \<Rightarrow> u8 list" where
  "le64 w = le_bytes 8 (unat w)"

definition un_le64 :: "u8 list \<Rightarrow> u64" where
  "un_le64 bs = of_nat (le_value bs)"

lemma length_le64 [simp]: "length (le64 w) = 8"
  by (simp add: le64_def)

lemma le64_not_Nil [simp]: "le64 w \<noteq> []"
  by (simp flip: length_greater_0_conv)

lemma un_le64_le64 [simp]: "un_le64 (le64 w) = w"
proof -
  have "unat w < 256 ^ 8"
    using unsigned_less [of w] by simp
  then have "le_value (le_bytes 8 (unat w)) = unat w"
    by (simp add: le_value_le_bytes)
  then show ?thesis
    by (simp add: le64_def un_le64_def)
qed

lemma unat_of_nat_u64: "n < 2 ^ 64 \<Longrightarrow> unat (of_nat n :: u64) = n"
  by (simp add: unat_of_nat)

section \<open>Splitting a prefix\<close>

lemma take_split:
  assumes "take (n + m) xs = ys @ zs" "length ys = n" "length zs = m"
  shows "take n xs = ys" "take m (drop n xs) = zs" "n + m \<le> length xs"
proof -
  have "length (take (n + m) xs) = n + m"
    using assms by simp
  then show len: "n + m \<le> length xs"
    by simp
  have "take n xs @ take m (drop n xs) = ys @ zs" "length (take n xs) = length ys"
    using assms len by (simp_all add: take_add)
  then show "take n xs = ys" "take m (drop n xs) = zs"
    by simp_all
qed

section \<open>In-place buffer updates\<close>

text \<open>\<open>overwrite off bs buf\<close> is the buffer after \<open>bs\<close> has been stored from offset \<open>off\<close> on.\<close>

definition overwrite :: "nat \<Rightarrow> 'a list \<Rightarrow> 'a list \<Rightarrow> 'a list" where
  "overwrite off bs buf = take off buf @ bs @ drop (off + length bs) buf"

text \<open>\<^verbatim>\<open>std::vector::resize\<close>: cut, or pad with value-initialised elements.\<close>

definition vec_resize :: "nat \<Rightarrow> 'a::zero list \<Rightarrow> 'a list" where
  "vec_resize n xs = take n xs @ replicate (n - length xs) 0"

lemma length_overwrite [simp]:
  "off + length bs \<le> length buf \<Longrightarrow> length (overwrite off bs buf) = length buf"
  by (simp add: overwrite_def)

lemma overwrite_Nil [simp]: "overwrite off [] buf = buf"
  by (simp add: overwrite_def)

lemma overwrite_all: "length bs = length buf \<Longrightarrow> overwrite 0 bs buf = bs"
  by (simp add: overwrite_def)

lemma overwrite_overwrite:
  assumes "off + length xs \<le> length buf"
  shows "overwrite (off + length xs) ys (overwrite off xs buf) = overwrite off (xs @ ys) buf"
proof -
  have "length (take off buf) = off"
    using assms by simp
  moreover have "drop (length xs + length ys + off) buf
      = drop (length ys) (drop (length xs + off) buf)"
    by (simp add: ac_simps)
  ultimately show ?thesis
    using assms by (simp add: overwrite_def ac_simps min_def)
qed

lemma length_vec_resize [simp]: "length (vec_resize n xs) = n"
  by (simp add: vec_resize_def)

lemma vec_resize_Nil [simp]: "vec_resize n [] = replicate n 0"
  by (simp add: vec_resize_def)

section \<open>Sums over the values of a map\<close>

text \<open>
  A \<^verbatim>\<open>std::map\<close> is an association list with distinct keys. \<open>val_sum f\<close> adds up a number for each
  value; storing and erasing an entry change it by that entry.
\<close>

definition val_sum :: "('v \<Rightarrow> nat) \<Rightarrow> ('k \<times> 'v) list \<Rightarrow> nat" where
  "val_sum f al = sum_list (map (\<lambda>(k, v). f v) al)"

lemma val_sum_simps [simp]:
  "val_sum f [] = 0" "val_sum f ((k, v) # al) = f v + val_sum f al"
  by (simp_all add: val_sum_def)

lemma val_sum_update:
  "val_sum f (AList.update k v al) + (case map_of al k of None \<Rightarrow> 0 | Some v' \<Rightarrow> f v') =
   val_sum f al + f v"
  by (induction al) auto

lemma val_sum_delete:
  "distinct (map fst al) \<Longrightarrow>
   val_sum f (AList.delete k al) + (case map_of al k of None \<Rightarrow> 0 | Some v' \<Rightarrow> f v') = val_sum f al"
proof (induction al)
  case (Cons p al)
  obtain k' v where p: "p = (k', v)"
    by (cases p)
  show ?case
  proof (cases "k' = k")
    case True
    then have "k \<notin> fst ` set al"
      using Cons.prems by (auto simp: p)
    then have "AList.delete k al = al"
      by (rule AList.delete_id)
    then show ?thesis
      by (simp add: p True)
  next
    case False
    then show ?thesis
      using Cons by (simp add: p)
  qed
qed simp

lemma val_sum_le: "map_of al k = Some v \<Longrightarrow> f v \<le> val_sum f al"
  by (induction al) (auto split: if_splits)

end
