(* ===== verification/Data.thy ===== *)
theory Data
  imports Prelude
begin

text \<open>
  The data types shared by the client library and the simulator bindings
  (\<^verbatim>\<open>src/common/Data.hh\<close>) and their printers (\<^verbatim>\<open>src/common/Data.cc\<close>). Structs are records with
  the fields in the order of the source, enums are datatypes. A scoped C++ enum may hold a value that
  no enumerator names (the simulator bindings cast an arbitrary \<^verbatim>\<open>int\<close>), so each enum has one more
  constructor, \<open>Other...\<close>, for those values; the \<^verbatim>\<open>default\<close> branches of the switches handle it.
\<close>

section \<open>Enumerations\<close>

datatype IpType =
    SLAVE | SLAVE_LITE | SLAVE_STREAM | MASTER | MASTER_LITE | MASTER_STREAM
  | OtherIpType u32

datatype IpImplementation = SOFTWARE | HARDWARE | OtherIpImplementation u32

datatype TransactionType =
    READ_REQ | WRITE_REQ | READ_RESP | WRITE_RESP
  | OtherTransactionType u32

text \<open>The conversions \<^verbatim>\<open>IpType(type)\<close> and \<^verbatim>\<open>int(type)\<close>: the enumerators count from 0.\<close>

definition IpType_of_int :: "u32 \<Rightarrow> IpType" where
  "IpType_of_int i =
     (if i = 0 then SLAVE else if i = 1 then SLAVE_LITE else if i = 2 then SLAVE_STREAM
      else if i = 3 then MASTER else if i = 4 then MASTER_LITE else if i = 5 then MASTER_STREAM
      else OtherIpType i)"

fun int_of_IpType :: "IpType \<Rightarrow> u32" where
  "int_of_IpType SLAVE = 0"
| "int_of_IpType SLAVE_LITE = 1"
| "int_of_IpType SLAVE_STREAM = 2"
| "int_of_IpType MASTER = 3"
| "int_of_IpType MASTER_LITE = 4"
| "int_of_IpType MASTER_STREAM = 5"
| "int_of_IpType (OtherIpType i) = i"

definition IpImplementation_of_int :: "u32 \<Rightarrow> IpImplementation" where
  "IpImplementation_of_int i =
     (if i = 0 then SOFTWARE else if i = 1 then HARDWARE else OtherIpImplementation i)"

fun int_of_IpImplementation :: "IpImplementation \<Rightarrow> u32" where
  "int_of_IpImplementation SOFTWARE = 0"
| "int_of_IpImplementation HARDWARE = 1"
| "int_of_IpImplementation (OtherIpImplementation i) = i"

fun int_of_TransactionType :: "TransactionType \<Rightarrow> u32" where
  "int_of_TransactionType READ_REQ = 0"
| "int_of_TransactionType WRITE_REQ = 1"
| "int_of_TransactionType READ_RESP = 2"
| "int_of_TransactionType WRITE_RESP = 3"
| "int_of_TransactionType (OtherTransactionType i) = i"

text \<open>The values that have a name.\<close>

fun named_IpType :: "IpType \<Rightarrow> bool" where
  "named_IpType (OtherIpType i) = False"
| "named_IpType _ = True"

fun named_IpImplementation :: "IpImplementation \<Rightarrow> bool" where
  "named_IpImplementation (OtherIpImplementation i) = False"
| "named_IpImplementation _ = True"

fun named_TransactionType :: "TransactionType \<Rightarrow> bool" where
  "named_TransactionType (OtherTransactionType i) = False"
| "named_TransactionType _ = True"

lemma int_of_IpType_of_int [simp]: "int_of_IpType (IpType_of_int i) = i"
  by (simp add: IpType_of_int_def)

lemma IpType_of_int_of_IpType [simp]: "named_IpType t \<Longrightarrow> IpType_of_int (int_of_IpType t) = t"
  by (cases t) (simp_all add: IpType_of_int_def)

lemma int_of_IpImplementation_of_int [simp]:
  "int_of_IpImplementation (IpImplementation_of_int i) = i"
  by (simp add: IpImplementation_of_int_def)

lemma IpImplementation_of_int_of_IpImplementation [simp]:
  "named_IpImplementation t \<Longrightarrow> IpImplementation_of_int (int_of_IpImplementation t) = t"
  by (cases t) (simp_all add: IpImplementation_of_int_def)

section \<open>Structs\<close>

record SystemInfo =
  si_name :: string
  si_systemName :: string
  si_pid :: u64
  si_hostname :: string

record IpConfig =
  ip_name :: string
  ip_address :: u64
  ip_size :: u64
  ip_firstInterrupt :: u16
  ip_numInterrupts :: u16
  ip_type :: IpType
  ip_implementation :: IpImplementation

text \<open>A value-initialised \<^verbatim>\<open>IpConfig\<close>: the defaults of the member initialisers.\<close>

definition new_IpConfig :: IpConfig where
  "new_IpConfig = \<lparr>ip_name = '''', ip_address = 0, ip_size = 0, ip_firstInterrupt = 0,
     ip_numInterrupts = 0, ip_type = SLAVE, ip_implementation = SOFTWARE\<rparr>"

record Status =
  st_code :: u32
  st_msg :: string

definition status_ok :: Status where
  "status_ok = \<lparr>st_code = 0, st_msg = ''''\<rparr>"

definition mk_status :: "u32 \<Rightarrow> string \<Rightarrow> Status" where
  "mk_status code msg = \<lparr>st_code = code, st_msg = msg\<rparr>"

definition isOk :: "Status \<Rightarrow> bool" where
  "isOk st \<longleftrightarrow> st_code st = 0"

definition isError :: "Status \<Rightarrow> bool" where
  "isError st \<longleftrightarrow> st_code st \<noteq> 0"

definition getMessage :: "Status \<Rightarrow> string" where
  "getMessage st = st_msg st"

definition getCode :: "Status \<Rightarrow> u32" where
  "getCode st = st_code st"

lemma isError_iff_not_isOk: "isError st \<longleftrightarrow> \<not> isOk st"
  by (simp add: isOk_def isError_def)

lemma isOk_status_ok [simp]: "isOk status_ok" "\<not> isError status_ok"
  by (simp_all add: isOk_def isError_def status_ok_def)

lemma mk_status_simps [simp]:
  "isOk (mk_status c m) \<longleftrightarrow> c = 0" "isError (mk_status c m) \<longleftrightarrow> c \<noteq> 0"
  "getMessage (mk_status c m) = m" "getCode (mk_status c m) = c" "st_code (mk_status c m) = c"
  by (simp_all add: isOk_def isError_def getMessage_def getCode_def mk_status_def)

record Transaction =
  txn_type :: TransactionType
  txn_initiator :: u64
  txn_target :: u64
  txn_id :: u64
  txn_address :: u64
  txn_size :: u64
  txn_data :: "u8 list"
  txn_ok :: bool
  txn_message :: string

text \<open>
  \<^verbatim>\<open>new Transaction\<close>. The member \<^verbatim>\<open>ok\<close> has no initialiser, so its first value is whatever the memory
  held: it is an argument.
\<close>

definition new_Transaction :: "bool \<Rightarrow> Transaction" where
  "new_Transaction junk = \<lparr>txn_type = READ_REQ, txn_initiator = 0, txn_target = 0, txn_id = 0,
     txn_address = 0, txn_size = 0, txn_data = [], txn_ok = junk, txn_message = ''''\<rparr>"

end
