(* ===== verification/Numerals.thy ===== *)
theory Numerals
  imports Prelude
begin

text \<open>
  Numerals as the C++ stream library and \<^verbatim>\<open>std::to_string\<close> write them: digits without leading
  zeros, lower case for hexadecimal. A reader for them states that printing loses nothing.
\<close>

section \<open>Digits\<close>

definition digit_char :: "nat \<Rightarrow> char" where
  "digit_char d = (if d < 10 then char_of (48 + d) else char_of (87 + d))"

definition digit_value :: "char \<Rightarrow> nat" where
  "digit_value c = (if of_char c < (58 :: nat) then of_char c - 48 else of_char c - 87)"

lemma digit_value_digit_char: "d < 16 \<Longrightarrow> digit_value (digit_char d) = d"
  by (auto simp: digit_char_def digit_value_def)

section \<open>Numerals\<close>

fun numeral_string :: "nat \<Rightarrow> nat \<Rightarrow> string" where
  "numeral_string base n =
     (if base < 2 \<or> n < base then [digit_char n]
      else numeral_string base (n div base) @ [digit_char (n mod base)])"

declare numeral_string.simps [simp del]

definition numeral_value :: "nat \<Rightarrow> string \<Rightarrow> nat" where
  "numeral_value base s = foldl (\<lambda>acc c. acc * base + digit_value c) 0 s"

lemma numeral_value_snoc:
  "numeral_value base (s @ [c]) = numeral_value base s * base + digit_value c"
  by (simp add: numeral_value_def)

lemma numeral_value_zeros:
  "numeral_value base (replicate n CHR ''0'' @ s) = numeral_value base s"
proof -
  have "foldl (\<lambda>acc c. acc * base + digit_value c) 0 (replicate n CHR ''0'') = 0"
    by (induction n) (simp_all add: digit_value_def)
  then show ?thesis by (simp add: numeral_value_def)
qed

lemma numeral_value_numeral_string:
  "2 \<le> base \<Longrightarrow> base \<le> 16 \<Longrightarrow> numeral_value base (numeral_string base n) = n"
proof (induction base n rule: numeral_string.induct)
  case (1 base n)
  show ?case
  proof (cases "n < base")
    case True
    with 1 show ?thesis
      by (simp add: numeral_string.simps [of base n] numeral_value_def digit_value_digit_char)
  next
    case False
    with 1 have "numeral_value base (numeral_string base (n div base)) = n div base" by simp
    moreover have "n mod base < 16"
      using 1 by (meson less_le_trans mod_less_divisor not_less zero_less_numeral order_less_le_trans)
    ultimately show ?thesis
      using False 1
      by (simp add: numeral_string.simps [of base n] numeral_value_snoc digit_value_digit_char)
  qed
qed

lemma length_numeral_string_pos: "0 < length (numeral_string base n)"
  by (simp add: numeral_string.simps [of base n])

lemma length_numeral_string:
  "2 \<le> base \<Longrightarrow> n < base ^ Suc k \<Longrightarrow> length (numeral_string base n) \<le> Suc k"
proof (induction k arbitrary: n)
  case 0
  then show ?case by (simp add: numeral_string.simps [of base n])
next
  case (Suc k)
  have "n div base < base ^ Suc k"
    using Suc.prems by (simp add: less_mult_imp_div_less mult.commute)
  then have "length (numeral_string base (n div base)) \<le> Suc k"
    using Suc by simp
  then show ?case
    using Suc.prems(1) by (simp add: numeral_string.simps [of base n])
qed

text \<open>\<^verbatim>\<open>std::to_string\<close> on unsigned and on signed 32-bit values.\<close>

definition to_string_nat :: "nat \<Rightarrow> string" where
  "to_string_nat n = numeral_string 10 n"

definition to_string_int :: "int \<Rightarrow> string" where
  "to_string_int i = (if i < 0 then ''-'' @ to_string_nat (nat (- i)) else to_string_nat (nat i))"

section \<open>Zero padding\<close>

definition zero_pad :: "nat \<Rightarrow> string \<Rightarrow> string" where
  "zero_pad w s = replicate (w - length s) CHR ''0'' @ s"

lemma length_zero_pad: "length s \<le> w \<Longrightarrow> length (zero_pad w s) = w"
  by (simp add: zero_pad_def)

lemma numeral_value_zero_pad [simp]:
  "numeral_value base (zero_pad w s) = numeral_value base s"
  by (simp add: zero_pad_def numeral_value_zeros)

lemma hex16_field:
  fixes a :: u64
  shows "length (zero_pad 16 (numeral_string 16 (unat a))) = 16"
    and "numeral_value 16 (zero_pad 16 (numeral_string 16 (unat a))) = unat a"
proof -
  have "unat a < 16 ^ Suc 15"
    using unsigned_less [of a] by simp
  then have "length (numeral_string 16 (unat a)) \<le> 16"
    using length_numeral_string [of 16 "unat a" 15] by simp
  then show "length (zero_pad 16 (numeral_string 16 (unat a))) = 16"
    by (rule length_zero_pad)
  show "numeral_value 16 (zero_pad 16 (numeral_string 16 (unat a))) = unat a"
    by (simp add: numeral_value_numeral_string)
qed

lemma dec5_field:
  fixes n :: u16
  shows "length (zero_pad 5 (numeral_string 10 (unat n))) = 5"
    and "numeral_value 10 (zero_pad 5 (numeral_string 10 (unat n))) = unat n"
proof -
  have "unat n < 2 ^ LENGTH(16)"
    by (rule unsigned_less)
  then have "unat n < 10 ^ Suc 4"
    by simp
  then have "length (numeral_string 10 (unat n)) \<le> 5"
    using length_numeral_string [of 10 "unat n" 4] by simp
  then show "length (zero_pad 5 (numeral_string 10 (unat n))) = 5"
    by (rule length_zero_pad)
  show "numeral_value 10 (zero_pad 5 (numeral_string 10 (unat n))) = unat n"
    by (simp add: numeral_value_numeral_string)
qed

end
