(* ===== verification/Printing.thy ===== *)
theory Printing
  imports Data Numerals
begin

text \<open>
  \<^verbatim>\<open>SystemInfo::print\<close> and \<^verbatim>\<open>IpConfig::print\<close> of \<^verbatim>\<open>src/common/Data.cc\<close> over a model of the
  formatting state of \<^verbatim>\<open>std::ostream\<close>: the characters written so far, the pending field width (reset
  by every formatted insertion), and the sticky fill character, adjustment and base.
\<close>

section \<open>Formatted output\<close>

record ostream =
  os_out :: string
  os_width :: nat
  os_fill :: char
  os_left :: bool
  os_hex :: bool

definition put_str :: "string \<Rightarrow> ostream \<Rightarrow> ostream" where
  "put_str s os =
     (let pad = replicate (os_width os - length s) (os_fill os)
      in os\<lparr>os_out := os_out os @ (if os_left os then s @ pad else pad @ s), os_width := 0\<rparr>)"

definition put_nat :: "nat \<Rightarrow> ostream \<Rightarrow> ostream" where
  "put_nat n os = put_str (numeral_string (if os_hex os then 16 else 10) n) os"

definition put_left :: "ostream \<Rightarrow> ostream" where
  "put_left os = os\<lparr>os_left := True\<rparr>"

definition put_right :: "ostream \<Rightarrow> ostream" where
  "put_right os = os\<lparr>os_left := False\<rparr>"

definition put_hex :: "ostream \<Rightarrow> ostream" where
  "put_hex os = os\<lparr>os_hex := True\<rparr>"

definition put_dec :: "ostream \<Rightarrow> ostream" where
  "put_dec os = os\<lparr>os_hex := False\<rparr>"

definition setfill :: "char \<Rightarrow> ostream \<Rightarrow> ostream" where
  "setfill c os = os\<lparr>os_fill := c\<rparr>"

definition setw :: "nat \<Rightarrow> ostream \<Rightarrow> ostream" where
  "setw n os = os\<lparr>os_width := n\<rparr>"

text \<open>\<^verbatim>\<open>std::endl\<close>: an unformatted newline, then a flush, which has no effect on the state.\<close>

definition put_endl :: "ostream \<Rightarrow> ostream" where
  "put_endl os = os\<lparr>os_out := os_out os @ [CHR 0x0A]\<rparr>"

lemmas ostream_defs = put_str_def put_nat_def put_left_def put_right_def put_hex_def put_dec_def
  setfill_def setw_def put_endl_def

text \<open>A chain of insertions, leftmost first.\<close>

definition insert_all :: "(ostream \<Rightarrow> ostream) list \<Rightarrow> ostream \<Rightarrow> ostream" where
  "insert_all fs os = fold (\<lambda>f s. f s) fs os"

lemma insert_all_simps [simp]:
  "insert_all [] os = os" "insert_all (f # fs) os = insert_all fs (f os)"
  by (simp_all add: insert_all_def)

section \<open>The two printers\<close>

definition SystemInfo_print :: "SystemInfo \<Rightarrow> ostream \<Rightarrow> ostream" where
  "SystemInfo_print si = insert_all
     [put_left, setfill CHR '' '', setw 20, put_str (si_name si), put_str '' '',
      put_left, setfill CHR '' '', setw 25, put_str (si_systemName si), put_str '' '',
      put_str (si_hostname si), put_str '':'', put_nat (unat (si_pid si)), put_endl]"

fun IpType_label :: "IpType \<Rightarrow> (ostream \<Rightarrow> ostream) list" where
  "IpType_label SLAVE = [put_str ''[SLAVE        ] '']"
| "IpType_label SLAVE_LITE = [put_str ''[SLAVE LITE   ] '']"
| "IpType_label SLAVE_STREAM = [put_str ''[SLAVE STREAM ] '']"
| "IpType_label MASTER = [put_str ''[MASTER       ] '']"
| "IpType_label MASTER_LITE = [put_str ''[MASTER LITE  ] '']"
| "IpType_label MASTER_STREAM = [put_str ''[MASTER STREAM] '']"
| "IpType_label (OtherIpType i) = []"

definition IpConfig_print :: "IpConfig \<Rightarrow> ostream \<Rightarrow> ostream" where
  "IpConfig_print ip = insert_all
     ([put_str (if ip_implementation ip = SOFTWARE then ''[SW]'' else ''[HW]''), put_str '' '']
      @ IpType_label (ip_type ip)
      @ [put_right, put_str ''address: '',
         put_str ''[0x'', put_hex, setfill CHR ''0'', setw 16, put_nat (unat (ip_address ip)),
         put_str ''+'',
         put_str ''0x'', put_hex, setfill CHR ''0'', setw 16, put_nat (unat (ip_size ip)),
         put_str ''] '', put_str ''interrupts: ['', put_dec,
         setfill CHR ''0'', setw 5, put_nat (unat (ip_firstInterrupt ip)), put_str ''+'',
         setfill CHR ''0'', setw 5, put_nat (unat (ip_numInterrupts ip)), put_str ''] '',
         put_str (ip_name ip), put_str '' '', put_endl])"

section \<open>What they write\<close>

definition pad_right :: "nat \<Rightarrow> string \<Rightarrow> string" where
  "pad_right w s = s @ replicate (w - length s) CHR '' ''"

definition IpType_text :: "IpType \<Rightarrow> string" where
  "IpType_text t = (case t of
     SLAVE \<Rightarrow> ''[SLAVE        ] '' | SLAVE_LITE \<Rightarrow> ''[SLAVE LITE   ] ''
   | SLAVE_STREAM \<Rightarrow> ''[SLAVE STREAM ] '' | MASTER \<Rightarrow> ''[MASTER       ] ''
   | MASTER_LITE \<Rightarrow> ''[MASTER LITE  ] '' | MASTER_STREAM \<Rightarrow> ''[MASTER STREAM] ''
   | OtherIpType _ \<Rightarrow> '''')"

lemma insert_all_append: "insert_all (fs @ gs) os = insert_all gs (insert_all fs os)"
  by (simp add: insert_all_def)

lemma insert_IpType_label:
  "os_width os = 0 \<Longrightarrow>
   insert_all (IpType_label t) os = os\<lparr>os_out := os_out os @ IpType_text t\<rparr>"
  by (cases t) (simp_all add: ostream_defs IpType_text_def)

lemma SystemInfo_print_out:
  "os_width os = 0 \<Longrightarrow> os_out (SystemInfo_print si os) =
     os_out os @ pad_right 20 (si_name si) @ '' '' @ pad_right 25 (si_systemName si) @ '' ''
     @ si_hostname si @ '':'' @ numeral_string (if os_hex os then 16 else 10) (unat (si_pid si))
     @ [CHR 0x0A]"
  by (simp add: SystemInfo_print_def ostream_defs pad_right_def Let_def)

lemma IpConfig_print_out:
  assumes "os_width os = 0"
  shows "os_out (IpConfig_print ip os) =
     os_out os @ (if ip_implementation ip = SOFTWARE then ''[SW] '' else ''[HW] '')
     @ IpType_text (ip_type ip)
     @ ''address: [0x'' @ zero_pad 16 (numeral_string 16 (unat (ip_address ip)))
     @ ''+0x'' @ zero_pad 16 (numeral_string 16 (unat (ip_size ip)))
     @ ''] interrupts: ['' @ zero_pad 5 (numeral_string 10 (unat (ip_firstInterrupt ip)))
     @ ''+'' @ zero_pad 5 (numeral_string 10 (unat (ip_numInterrupts ip)))
     @ ''] '' @ ip_name ip @ '' '' @ [CHR 0x0A]"
proof -
  let ?os = "put_str '' '' (put_str (if ip_implementation ip = SOFTWARE then ''[SW]'' else ''[HW]'') os)"
  have w: "os_width ?os = 0"
    by (simp add: ostream_defs Let_def)
  have out: "os_out ?os = os_out os @ (if ip_implementation ip = SOFTWARE then ''[SW] '' else ''[HW] '')"
    using assms by (simp add: ostream_defs Let_def)
  show ?thesis
    unfolding IpConfig_print_def insert_all_append insert_all_simps insert_IpType_label [OF w]
    using w out by (simp add: ostream_defs zero_pad_def Let_def)
qed
section \<open>Lines\<close>

definition IpConfig_line :: "IpConfig \<Rightarrow> string" where
  "IpConfig_line ip =
     (if ip_implementation ip = SOFTWARE then ''[SW] '' else ''[HW] '')
     @ IpType_text (ip_type ip)
     @ ''address: [0x'' @ zero_pad 16 (numeral_string 16 (unat (ip_address ip)))
     @ ''+0x'' @ zero_pad 16 (numeral_string 16 (unat (ip_size ip)))
     @ ''] interrupts: ['' @ zero_pad 5 (numeral_string 10 (unat (ip_firstInterrupt ip)))
     @ ''+'' @ zero_pad 5 (numeral_string 10 (unat (ip_numInterrupts ip)))
     @ ''] '' @ ip_name ip @ '' '' @ [CHR 0x0A]"

definition SystemInfo_line :: "SystemInfo \<Rightarrow> string" where
  "SystemInfo_line si =
     pad_right 20 (si_name si) @ '' '' @ pad_right 25 (si_systemName si) @ '' ''
     @ si_hostname si @ '':'' @ to_string_nat (unat (si_pid si)) @ [CHR 0x0A]"

text \<open>A stream between two lines: no width pending, numbers in decimal.\<close>

definition between_lines :: "ostream \<Rightarrow> bool" where
  "between_lines os \<longleftrightarrow> os_width os = 0 \<and> \<not> os_hex os"

lemma IpConfig_print_line:
  assumes "between_lines os"
  shows "os_out (IpConfig_print ip os) = os_out os @ IpConfig_line ip"
    and "between_lines (IpConfig_print ip os)"
proof -
  show "os_out (IpConfig_print ip os) = os_out os @ IpConfig_line ip"
    using assms by (simp add: between_lines_def IpConfig_print_out IpConfig_line_def)
  show "between_lines (IpConfig_print ip os)"
    unfolding IpConfig_print_def insert_all_append insert_all_simps
    by (simp add: between_lines_def ostream_defs Let_def)
qed

lemma SystemInfo_print_line:
  assumes "between_lines os"
  shows "os_out (SystemInfo_print si os) = os_out os @ SystemInfo_line si"
    and "between_lines (SystemInfo_print si os)"
proof -
  show "os_out (SystemInfo_print si os) = os_out os @ SystemInfo_line si"
    using assms
    by (simp add: between_lines_def SystemInfo_print_out SystemInfo_line_def to_string_nat_def)
  show "between_lines (SystemInfo_print si os)"
    using assms by (simp add: SystemInfo_print_def between_lines_def ostream_defs Let_def)
qed

lemma insert_lines:
  assumes "\<forall>(f, l) \<in> set fls. \<forall>os. between_lines os \<longrightarrow>
      os_out (f os) = os_out os @ l \<and> between_lines (f os)"
    and "between_lines os"
  shows "os_out (insert_all (map fst fls) os) = os_out os @ concat (map snd fls)"
  using assms by (induction fls arbitrary: os) auto

section \<open>Properties\<close>

text \<open>
  The lines of a listing do not depend on each other: although base, fill and adjustment stay set
  on the stream, printing any sequence of IP configurations and system infos, in any order, to a
  stream in its decimal state writes each one's line, in order.
\<close>

theorem print_lines:
  assumes "between_lines os"
  shows "os_out (insert_all (map (case_sum IpConfig_print SystemInfo_print) items) os) =
    os_out os @ concat (map (case_sum IpConfig_line SystemInfo_line) items)"
proof -
  let ?fls = "map (\<lambda>i. (case_sum IpConfig_print SystemInfo_print i,
      case_sum IpConfig_line SystemInfo_line i)) items"
  have "\<forall>(f, l) \<in> set ?fls. \<forall>os. between_lines os \<longrightarrow>
      os_out (f os) = os_out os @ l \<and> between_lines (f os)"
    by (auto simp: IpConfig_print_line SystemInfo_print_line split: sum.split)
  from insert_lines [OF this assms] show ?thesis
    by (simp add: comp_def)
qed

definition example_ostream :: ostream where
  "example_ostream = \<lparr>os_out = '''', os_width = 0, os_fill = CHR '' '', os_left = False, os_hex = False\<rparr>"

theorem print_lines_witness:
  "os_out (insert_all (map (case_sum IpConfig_print SystemInfo_print)
      [Inl (new_IpConfig\<lparr>ip_name := ''ram'', ip_address := 0x10\<rparr>), Inr \<lparr>si_name = ''app'',
        si_systemName = ''Linux'', si_pid = 42, si_hostname = ''host''\<rparr>]) example_ostream) =
    os_out example_ostream @ concat (map (case_sum IpConfig_line SystemInfo_line)
      [Inl (new_IpConfig\<lparr>ip_name := ''ram'', ip_address := 0x10\<rparr>), Inr \<lparr>si_name = ''app'',
        si_systemName = ''Linux'', si_pid = 42, si_hostname = ''host''\<rparr>])"
  by (rule print_lines) (simp add: between_lines_def example_ostream_def)

text \<open>
  C39: the printed line of an IP has its address and size in exactly 16 hexadecimal digits and its
  interrupt numbers in exactly 5 decimal digits, and these read back as the values, for every value of
  the fields: no number is cut and no column moves.
\<close>

theorem IpConfig_print_fields:
  assumes "os_width os = 0"
  shows "\<exists>a s f n. os_out (IpConfig_print ip os) = os_out os
      @ (if ip_implementation ip = SOFTWARE then ''[SW] '' else ''[HW] '')
      @ IpType_text (ip_type ip) @ ''address: [0x'' @ a @ ''+0x'' @ s @ ''] interrupts: [''
      @ f @ ''+'' @ n @ ''] '' @ ip_name ip @ '' '' @ [CHR 0x0A]
    \<and> length a = 16 \<and> numeral_value 16 a = unat (ip_address ip)
    \<and> length s = 16 \<and> numeral_value 16 s = unat (ip_size ip)
    \<and> length f = 5 \<and> numeral_value 10 f = unat (ip_firstInterrupt ip)
    \<and> length n = 5 \<and> numeral_value 10 n = unat (ip_numInterrupts ip)"
  using IpConfig_print_out [OF assms, of ip] hex16_field [of "ip_address ip"]
    hex16_field [of "ip_size ip"] dec5_field [of "ip_firstInterrupt ip"]
    dec5_field [of "ip_numInterrupts ip"] by blast

theorem IpConfig_print_fields_witness:
  "\<exists>a s f n. os_out (IpConfig_print (new_IpConfig\<lparr>ip_name := ''ram'', ip_address := -1\<rparr>)
      example_ostream) = os_out example_ostream
      @ (if ip_implementation (new_IpConfig\<lparr>ip_name := ''ram'', ip_address := -1\<rparr>) = SOFTWARE
         then ''[SW] '' else ''[HW] '')
      @ IpType_text (ip_type (new_IpConfig\<lparr>ip_name := ''ram'', ip_address := -1\<rparr>))
      @ ''address: [0x'' @ a @ ''+0x'' @ s @ ''] interrupts: [''
      @ f @ ''+'' @ n @ ''] '' @ ip_name (new_IpConfig\<lparr>ip_name := ''ram'', ip_address := -1\<rparr>)
      @ '' '' @ [CHR 0x0A]
    \<and> length a = 16 \<and> numeral_value 16 a = unat (ip_address (new_IpConfig\<lparr>ip_name := ''ram'', ip_address := -1\<rparr>))
    \<and> length s = 16 \<and> numeral_value 16 s = unat (ip_size (new_IpConfig\<lparr>ip_name := ''ram'', ip_address := -1\<rparr>))
    \<and> length f = 5 \<and> numeral_value 10 f = unat (ip_firstInterrupt (new_IpConfig\<lparr>ip_name := ''ram'', ip_address := -1\<rparr>))
    \<and> length n = 5 \<and> numeral_value 10 n = unat (ip_numInterrupts (new_IpConfig\<lparr>ip_name := ''ram'', ip_address := -1\<rparr>))"
  by (rule IpConfig_print_fields) (simp add: example_ostream_def)

end
