(* ===== verification/Wire.thy ===== *)
theory Wire
  imports Data
begin

text \<open>
  The messages on the wire, from the schema \<^verbatim>\<open>src/common/IpcStructs.fbs\<close>. A FlatBuffers table is a
  record; scalar fields always have a value, fields that refer to a string, a vector or another table
  may be absent. An enum is a byte and may hold a value the schema does not name. The encoder and the
  decoder themselves are generated code over a third-party library and are parameters (\<open>lib\<close> below).
\<close>

section \<open>Enumerations of the schema\<close>

definition Type_SYSTEM_INFO :: u8 where "Type_SYSTEM_INFO = 0"
definition Type_IP_INFO :: u8 where "Type_IP_INFO = 1"
definition Type_IP_ACK :: u8 where "Type_IP_ACK = 2"
definition Type_ACK :: u8 where "Type_ACK = 3"
definition Type_ERROR :: u8 where "Type_ERROR = 4"
definition Type_COMMIT :: u8 where "Type_COMMIT = 5"
definition Type_TERMINATE :: u8 where "Type_TERMINATE = 6"
definition Type_DONE :: u8 where "Type_DONE = 7"
definition Type_TRANSACTION :: u8 where "Type_TRANSACTION = 8"

lemmas Type_defs = Type_SYSTEM_INFO_def Type_IP_INFO_def Type_IP_ACK_def Type_ACK_def
  Type_ERROR_def Type_COMMIT_def Type_TERMINATE_def Type_DONE_def Type_TRANSACTION_def

lemma Type_neq [simp]:
  "Type_SYSTEM_INFO \<noteq> Type_IP_INFO" "Type_SYSTEM_INFO \<noteq> Type_ACK" "Type_SYSTEM_INFO \<noteq> Type_ERROR"
  "Type_IP_INFO \<noteq> Type_ACK" "Type_IP_INFO \<noteq> Type_ERROR" "Type_IP_ACK \<noteq> Type_ERROR"
  "Type_ACK \<noteq> Type_SYSTEM_INFO" "Type_ACK \<noteq> Type_ERROR" "Type_ACK \<noteq> Type_IP_INFO"
  "Type_TRANSACTION \<noteq> Type_DONE" "Type_DONE \<noteq> Type_TRANSACTION" "Type_ERROR \<noteq> Type_ACK"
  "Type_ERROR \<noteq> Type_SYSTEM_INFO" "Type_ERROR \<noteq> Type_IP_INFO" "Type_ERROR \<noteq> Type_IP_ACK"
  by (simp_all add: Type_defs)

text \<open>\<^verbatim>\<open>IpType\<close>, \<^verbatim>\<open>ImplementationType\<close> and \<^verbatim>\<open>TransactionType\<close>, as the two switches map them.\<close>

fun wire_of_IpType :: "IpType \<Rightarrow> u8 option" where
  "wire_of_IpType SLAVE = Some 0"
| "wire_of_IpType SLAVE_LITE = Some 1"
| "wire_of_IpType SLAVE_STREAM = Some 2"
| "wire_of_IpType MASTER = Some 3"
| "wire_of_IpType MASTER_LITE = Some 4"
| "wire_of_IpType MASTER_STREAM = Some 5"
| "wire_of_IpType (OtherIpType i) = None"

definition IpType_of_wire :: "u8 \<Rightarrow> IpType option" where
  "IpType_of_wire t =
     (if t = 0 then Some SLAVE else if t = 1 then Some SLAVE_LITE else if t = 2 then Some SLAVE_STREAM
      else if t = 3 then Some MASTER else if t = 4 then Some MASTER_LITE
      else if t = 5 then Some MASTER_STREAM else None)"

definition wire_of_IpImplementation :: "IpImplementation \<Rightarrow> u8" where
  "wire_of_IpImplementation i = (if i = SOFTWARE then 0 else 1)"

definition IpImplementation_of_wire :: "u8 \<Rightarrow> IpImplementation" where
  "IpImplementation_of_wire i = (if i = 0 then SOFTWARE else HARDWARE)"

fun wire_of_TransactionType :: "TransactionType \<Rightarrow> u8 option" where
  "wire_of_TransactionType READ_REQ = Some 0"
| "wire_of_TransactionType WRITE_REQ = Some 1"
| "wire_of_TransactionType READ_RESP = Some 2"
| "wire_of_TransactionType WRITE_RESP = Some 3"
| "wire_of_TransactionType (OtherTransactionType i) = None"

definition TransactionType_of_wire :: "u8 \<Rightarrow> TransactionType option" where
  "TransactionType_of_wire t =
     (if t = 0 then Some READ_REQ else if t = 1 then Some WRITE_REQ
      else if t = 2 then Some READ_RESP else if t = 3 then Some WRITE_RESP else None)"

lemma IpType_of_wire_inverse: "wire_of_IpType t = Some w \<Longrightarrow> IpType_of_wire w = Some t"
  by (cases t) (auto simp: IpType_of_wire_def)

lemma wire_of_IpType_Some: "named_IpType t \<longleftrightarrow> (\<exists>w. wire_of_IpType t = Some w)"
  by (cases t) simp_all

lemma IpType_of_wire_Some: "IpType_of_wire w = Some t \<Longrightarrow> wire_of_IpType t = Some w"
  by (auto simp: IpType_of_wire_def split: if_splits)

lemma IpImplementation_of_wire_inverse:
  "named_IpImplementation i \<Longrightarrow> IpImplementation_of_wire (wire_of_IpImplementation i) = i"
  by (cases i) (simp_all add: IpImplementation_of_wire_def wire_of_IpImplementation_def)

lemma TransactionType_of_wire_inverse:
  "wire_of_TransactionType t = Some w \<Longrightarrow> TransactionType_of_wire w = Some t"
  by (cases t) (auto simp: TransactionType_of_wire_def)

lemma wire_of_TransactionType_Some:
  "named_TransactionType t \<longleftrightarrow> (\<exists>w. wire_of_TransactionType t = Some w)"
  by (cases t) simp_all

section \<open>Tables\<close>

record wire_SystemInfo =
  ws_name :: "string option"
  ws_systemName :: "string option"
  ws_pid :: u64
  ws_hostname :: "string option"

record wire_IpInfo =
  wi_name :: "string option"
  wi_address :: u64
  wi_size :: u64
  wi_firstInterrupt :: u16
  wi_numInterrupts :: u16
  wi_type :: u8
  wi_implementation :: u8

record wire_Transaction =
  wt_type :: u8
  wt_initiator :: u64
  wt_target :: u64
  wt_id :: u64
  wt_address :: u64
  wt_size :: u64
  wt_data :: "u8 list option"
  wt_ok :: bool
  wt_message :: "string option"

record wire_Message =
  wm_type :: u8
  wm_systemInfo :: "wire_SystemInfo option"
  wm_ipInfo :: "wire_IpInfo option"
  wm_ipId :: u64
  wm_errorMessage :: "string option"
  wm_txn :: "wire_Transaction option"

text \<open>A message of a given type with nothing else added to the builder.\<close>

definition new_Message :: "u8 \<Rightarrow> wire_Message" where
  "new_Message t = \<lparr>wm_type = t, wm_systemInfo = None, wm_ipInfo = None, wm_ipId = 0,
     wm_errorMessage = None, wm_txn = None\<rparr>"

lemma new_Message_simps [simp]:
  "wm_type (new_Message t) = t" "wm_systemInfo (new_Message t) = None"
  "wm_ipInfo (new_Message t) = None" "wm_ipId (new_Message t) = 0"
  "wm_errorMessage (new_Message t) = None" "wm_txn (new_Message t) = None"
  by (simp_all add: new_Message_def)

section \<open>Code outside the repository\<close>

text \<open>
  \<open>lib_encode\<close> and \<open>lib_decode\<close> are \<^verbatim>\<open>FlatBufferBuilder::Finish\<close> and \<^verbatim>\<open>GetMessage\<close>; decoding is
  \<open>None\<close> for bytes that are not a FlatBuffer of the schema, whose accessors are undefined behaviour.
  \<open>lib_show_type\<close> is what inserting the generated enum into a stream writes, \<open>lib_strerror\<close> what
  \<^verbatim>\<open>strerror(errno)\<close> gives.
\<close>

record lib =
  lib_encode :: "wire_Message \<Rightarrow> u8 list"
  lib_decode :: "u8 list \<Rightarrow> wire_Message option"
  lib_show_type :: "u8 \<Rightarrow> string"
  lib_strerror :: string

text \<open>What FlatBuffers documents: a finished buffer reads back as the message that was built.\<close>

definition codec :: "lib \<Rightarrow> bool" where
  "codec L \<longleftrightarrow> (\<forall>m. lib_decode L (lib_encode L m) = Some m)"

lemma codecD [simp]: "codec L \<Longrightarrow> lib_decode L (lib_encode L m) = Some m"
  by (simp add: codec_def)

text \<open>Following a reference that may be null.\<close>

primrec deref :: "'a option \<Rightarrow> ('a \<Rightarrow> 'b outcome) \<Rightarrow> 'b outcome" where
  "deref None f = Fault NullDeref"
| "deref (Some x) f = f x"

lemma post_deref [simp]: "post P (deref p f) \<longleftrightarrow> (\<forall>x. p = Some x \<longrightarrow> post P (f x))"
  by (cases p) auto

lemma deref_eq_Ret: "deref p f = Ret y \<longleftrightarrow> (\<exists>x. p = Some x \<and> f x = Ret y)"
  by (cases p) auto

end
