(* ===== verification/Socket_IO.thy ===== *)
theory Socket_IO
  imports Prelude
begin

text \<open>
  The framing layer, \<^verbatim>\<open>readFromSocket\<close> and \<^verbatim>\<open>writeToSocket\<close> of \<^verbatim>\<open>src/common/Utils.cc\<close>.

  The kernel's side of a stream socket is a script. Towards the program, a list of events: a chunk of
  bytes that has arrived, or an error. A \<^verbatim>\<open>read\<close> takes at most the bytes of one chunk, so a message
  may be split at any place; after the last event the peer has closed the connection and every
  \<^verbatim>\<open>read\<close> returns 0. From the program, a list saying how many bytes each \<^verbatim>\<open>write\<close> accepts (or that
  it fails); after the last event a \<^verbatim>\<open>write\<close> accepts everything.
\<close>

section \<open>The kernel\<close>

datatype rd_event = Chunk u8 "u8 list" | RdError

datatype rd_result = RdFail | RdBytes "u8 list"

fun sys_read :: "rd_event list \<Rightarrow> u64 \<Rightarrow> rd_result \<times> rd_event list" where
  "sys_read [] n = (RdBytes [], [])"
| "sys_read (RdError # es) n = (RdFail, es)"
| "sys_read (Chunk b bs # es) n =
     (if n = 0 then (RdBytes [], Chunk b bs # es)
      else (RdBytes (take (unat n) (b # bs)),
            (case drop (unat n) (b # bs) of [] \<Rightarrow> es | c # cs \<Rightarrow> Chunk c cs # es)))"

datatype wr_event = Accept nat | WrError

record wr_chan =
  wr_script :: "wr_event list"
  wr_sent :: "u8 list"

text \<open>\<^verbatim>\<open>write\<close>: \<open>None\<close> for -1, else the number of bytes accepted.\<close>

definition sys_write :: "wr_chan \<Rightarrow> u8 list \<Rightarrow> nat option \<times> wr_chan" where
  "sys_write w bs = (case wr_script w of
     [] \<Rightarrow> (Some (length bs), w\<lparr>wr_sent := wr_sent w @ bs\<rparr>)
   | WrError # es \<Rightarrow> (None, w\<lparr>wr_script := es\<rparr>)
   | Accept k # es \<Rightarrow>
       (Some (min k (length bs)), w\<lparr>wr_script := es, wr_sent := wr_sent w @ take k bs\<rparr>))"

section \<open>readFromSocket\<close>

text \<open>The loop \<^verbatim>\<open>while (size)\<close>; the flag is False when it was left by \<^verbatim>\<open>return -1\<close>.\<close>

partial_function (option) read_loop ::
  "rd_event list \<Rightarrow> u64 \<Rightarrow> nat \<Rightarrow> u8 list \<Rightarrow> (bool \<times> u8 list \<times> rd_event list) option" where
  "read_loop k sz off buf =
     (if sz = 0 then Some (True, buf, k)
      else (case sys_read k sz of
        (RdFail, k') \<Rightarrow> Some (False, buf, k')
      | (RdBytes bs, k') \<Rightarrow>
          read_loop k' (sz - of_nat (length bs)) (off + length bs) (overwrite off bs buf)))"

text \<open>
  The largest size \<^verbatim>\<open>std::vector<uint8_t>\<close> supports; \<^verbatim>\<open>resize\<close> throws \<^verbatim>\<open>std::length_error\<close> beyond it,
  which nothing catches.
\<close>

definition vector_max_size :: nat where
  "vector_max_size = 2 ^ 63 - 1"

definition readFromSocket ::
  "int \<Rightarrow> rd_event list \<Rightarrow> u8 list \<Rightarrow> (int \<times> u8 list \<times> rd_event list) outcome" where
  "readFromSocket sock k buffer =
     (if sock = -1 then Ret (-1, buffer, k)
      else (case sys_read k 8 of
        (RdFail, k1) \<Rightarrow> Ret (-1, buffer, k1)
      | (RdBytes hdr, k1) \<Rightarrow>
          if length hdr \<noteq> 8 then Ret (-1, buffer, k1)
          else (let sz = un_le64 hdr in
            if vector_max_size < unat sz then Fault LengthError
            else (case read_loop k1 sz 0 (vec_resize (unat sz) buffer) of
                None \<Rightarrow> Hang
              | Some (ok, buffer', k2) \<Rightarrow> Ret (if ok then 0 else -1, buffer', k2)))))"

section \<open>writeToSocket\<close>

function write_loop :: "wr_chan \<Rightarrow> u8 list \<Rightarrow> bool \<times> wr_chan" where
  "write_loop w bs =
     (if bs = [] then (True, w)
      else (case sys_write w bs of
        (None, w') \<Rightarrow> (False, w')
      | (Some written, w') \<Rightarrow> write_loop w' (drop written bs)))"
  by pat_completeness auto
termination
  by (relation "measures [\<lambda>(w, bs). length (wr_script w), \<lambda>(w, bs). length bs]")
    (auto simp: sys_write_def split: list.splits wr_event.splits)

declare write_loop.simps [simp del]

definition writeToSocket :: "int \<Rightarrow> wr_chan \<Rightarrow> u8 list \<Rightarrow> int \<times> wr_chan" where
  "writeToSocket sock w buffer =
     (if sock = -1 then (-1, w)
      else (case sys_write w (le64 (of_nat (length buffer))) of
        (None, w1) \<Rightarrow> (-1, w1)
      | (Some n, w1) \<Rightarrow>
          if n \<noteq> 8 then (-1, w1)
          else (case write_loop w1 buffer of (ok, w2) \<Rightarrow> (if ok then 0 else -1, w2))))"

section \<open>What the kernel still holds\<close>

text \<open>The bytes that arrive before the first error or the end of the stream.\<close>

fun kbytes :: "rd_event list \<Rightarrow> u8 list" where
  "kbytes [] = []"
| "kbytes (RdError # es) = []"
| "kbytes (Chunk b bs # es) = b # bs @ kbytes es"

text \<open>Whether those bytes are followed by an error, and what is left after it.\<close>

fun kfails :: "rd_event list \<Rightarrow> bool" where
  "kfails [] = False"
| "kfails (RdError # es) = True"
| "kfails (Chunk b bs # es) = kfails es"

fun kafter :: "rd_event list \<Rightarrow> rd_event list" where
  "kafter [] = []"
| "kafter (RdError # es) = es"
| "kafter (Chunk b bs # es) = kafter es"

fun kdrop :: "nat \<Rightarrow> rd_event list \<Rightarrow> rd_event list" where
  "kdrop n [] = []"
| "kdrop n (RdError # es) = RdError # es"
| "kdrop n (Chunk b bs # es) =
     (case drop n (b # bs) of
        [] \<Rightarrow> kdrop (n - Suc (length bs)) es
      | c # cs \<Rightarrow> Chunk c cs # es)"

lemma kdrop_0 [simp]: "kdrop 0 k = k"
  by (cases k rule: kbytes.cases) auto

lemma kbytes_kdrop: "n \<le> length (kbytes k) \<Longrightarrow> kbytes (kdrop n k) = drop n (kbytes k)"
proof (induction n k rule: kdrop.induct)
  case (3 n b bs es)
  show ?case
  proof (cases "drop n (b # bs)")
    case Nil
    then have n: "Suc (length bs) \<le> n"
      by (metis drop_eq_Nil length_Cons)
    then have "kbytes (kdrop (n - Suc (length bs)) es) = drop (n - Suc (length bs)) (kbytes es)"
      using 3 Nil by auto
    moreover have "drop n (b # bs @ kbytes es) = drop (n - Suc (length bs)) (kbytes es)"
      using n by (cases n) auto
    ultimately show ?thesis
      using Nil by simp
  next
    case (Cons c cs)
    then have "n < length (b # bs)"
      by (metis drop_eq_Nil list.distinct(1) not_le)
    then have "drop n (b # bs) @ drop (n - length (b # bs)) (kbytes es) = (c # cs) @ kbytes es"
      using Cons by simp
    then have "drop n (b # bs @ kbytes es) = (c # cs) @ kbytes es"
      by (metis append_Cons drop_append)
    then show ?thesis
      using Cons by simp
  qed
qed auto

lemma kfails_kdrop [simp]: "kfails (kdrop n k) = kfails k"
  by (induction n k rule: kdrop.induct) (auto split: list.splits)

lemma kafter_kdrop [simp]: "kafter (kdrop n k) = kafter k"
  by (induction n k rule: kdrop.induct) (auto split: list.splits)

lemma kdrop_kdrop [simp]: "kdrop m (kdrop n k) = kdrop (n + m) k"
proof (induction n k rule: kdrop.induct)
  case (3 n b bs es)
  show ?case
  proof (cases "drop n (b # bs)")
    case Nil
    then have n: "Suc (length bs) \<le> n"
      by (metis drop_eq_Nil length_Cons)
    then have d: "drop (n + m) (b # bs) = []"
      by simp
    have "kdrop m (kdrop (n - Suc (length bs)) es) = kdrop (n - Suc (length bs) + m) es"
      using 3 Nil by simp
    moreover have "n - Suc (length bs) + m = n + m - Suc (length bs)"
      using n by simp
    ultimately show ?thesis
      using Nil d by simp
  next
    case (Cons c cs)
    then have n: "n < length (b # bs)"
      by (metis drop_eq_Nil list.distinct(1) not_le)
    have "drop (n + m) (b # bs) = drop m (c # cs)"
      using Cons by (metis add.commute drop_drop)
    moreover have "length (c # cs) = length (b # bs) - n"
      using Cons by (metis length_drop)
    ultimately show ?thesis
      using Cons n by (auto split: list.splits simp: add.commute)
  qed
qed auto

section \<open>Reading the body\<close>

text \<open>A positive read that finds bytes takes a non-empty prefix of them.\<close>

lemma sys_read_Chunk:
  fixes sz :: u64 and bs :: "u8 list"
  assumes "sz \<noteq> 0"
  defines "n \<equiv> min (unat sz) (Suc (length bs))"
  shows "sys_read (Chunk b bs # es) sz = (RdBytes (take n (b # bs)), kdrop n (Chunk b bs # es))"
    and "0 < n" "n \<le> unat sz" "n \<le> length (b # bs)"
proof -
  show "0 < n" "n \<le> unat sz" "n \<le> length (b # bs)"
    using assms(1) by (auto simp: n_def unat_gt_0)
  show "sys_read (Chunk b bs # es) sz = (RdBytes (take n (b # bs)), kdrop n (Chunk b bs # es))"
    using assms(1) by (auto simp: n_def min_def split: list.splits)
qed

text \<open>A closed connection makes the loop spin: \<^verbatim>\<open>read\<close> returns 0 and nothing changes.\<close>

lemma read_loop_closed: "sz \<noteq> 0 \<Longrightarrow> read_loop [] sz off buf = None"
proof (rule ccontr)
  assume "sz \<noteq> 0" and "read_loop [] sz off buf \<noteq> None"
  then obtain r where r: "read_loop [] sz off buf = Some r" by auto
  have "[] = ([] :: rd_event list) \<longrightarrow> sz = 0"
  proof (rule read_loop.raw_induct [where P = "\<lambda>k sz off buf r. k = [] \<longrightarrow> sz = 0", OF _ r])
    fix f k sz off buf r
    assume IH: "\<And>k sz off buf r. f k sz off buf = Some r \<Longrightarrow> k = [] \<longrightarrow> sz = 0"
      and eq: "(if sz = 0 then Some (True, buf, k)
        else (case sys_read k sz of
          (RdFail, k') \<Rightarrow> Some (False, buf, k')
        | (RdBytes bs, k') \<Rightarrow>
            f k' (sz - of_nat (length bs)) (off + length bs) (overwrite off bs buf))) = Some r"
    show "k = [] \<longrightarrow> sz = 0"
    proof
      assume "k = []"
      with eq IH [of "[]" sz off buf r] show "sz = 0"
        by (auto split: if_splits)
    qed
  qed
  with \<open>sz \<noteq> 0\<close> show False by simp
qed

lemma read_loop_spec:
  "off + unat sz \<le> length buf \<Longrightarrow> read_loop k sz off buf =
     (if unat sz \<le> length (kbytes k)
      then Some (True, overwrite off (take (unat sz) (kbytes k)) buf, kdrop (unat sz) k)
      else if kfails k then Some (False, overwrite off (kbytes k) buf, kafter k)
      else None)"
proof (induction "unat sz" arbitrary: k sz off buf rule: less_induct)
  case less
  show ?case
  proof (cases "sz = 0")
    case True
    then show ?thesis by (simp add: read_loop.simps)
  next
    case False
    show ?thesis
    proof (cases k rule: kbytes.cases)
      case 1
      with False show ?thesis by (simp add: read_loop_closed unat_eq_0)
    next
      case (2 es)
      with False show ?thesis by (simp add: read_loop.simps unat_eq_0)
    next
      case (3 b bs es)
      define n where "n = min (unat sz) (Suc (length bs))"
      note rd = sys_read_Chunk [OF False, where bs = bs, folded n_def]
      let ?xs = "take n (b # bs)"
      have len: "length ?xs = n"
        using rd(4) by simp
      have pre: "?xs = take n (kbytes k)" and nk: "n \<le> length (kbytes k)"
        using 3 rd(4) by (simp_all add: take_Cons')
      let ?sz = "sz - of_nat n :: u64"
      have "unat (of_nat n :: u64) = n"
        using rd(3) unsigned_less [of sz, where ?'a = nat]
        by (intro unat_of_nat_u64) (simp add: order_le_less_trans)
      then have sz': "unat ?sz = unat sz - n"
        using rd(3) by (simp add: unat_sub word_le_nat_alt)
      have lt: "unat ?sz < unat sz"
        using sz' rd(2,3) by simp
      have room: "off + n + unat ?sz \<le> length (overwrite off ?xs buf)"
        using less.prems sz' rd(3) len by simp
      have step: "read_loop k sz off buf
          = read_loop (kdrop n k) ?sz (off + n) (overwrite off ?xs buf)"
        unfolding 3 using False len
        by (subst read_loop.simps) (simp del: sys_read.simps kdrop.simps add: rd(1))
      have more: "overwrite (off + n) ys (overwrite off ?xs buf) = overwrite off (?xs @ ys) buf" for ys
        using overwrite_overwrite [of off ?xs buf ys] less.prems len rd(3) by simp
      have bytes: "?xs @ take (unat ?sz) (drop n (kbytes k)) = take (unat sz) (kbytes k)"
        unfolding pre using sz' rd(3) by (metis le_add_diff_inverse take_add)
      have rest: "?xs @ drop n (kbytes k) = kbytes k"
        unfolding pre by simp
      have cmp: "unat ?sz \<le> length (kbytes k) - n \<longleftrightarrow> unat sz \<le> length (kbytes k)"
        using sz' nk rd(3) by auto
      have idx: "n + unat ?sz = unat sz"
        using sz' rd(3) by simp
      show ?thesis
        unfolding step less.hyps [OF lt room] kbytes_kdrop [OF nk]
        using bytes rest by (simp only: more kfails_kdrop kafter_kdrop kdrop_kdrop length_drop cmp idx)
    qed
  qed
qed

section \<open>Reading a frame\<close>

definition head_len :: "rd_event list \<Rightarrow> nat" where
  "head_len k = (case k of Chunk b bs # _ \<Rightarrow> Suc (length bs) | _ \<Rightarrow> 0)"

lemma sys_read_short_header:
  assumes "head_len k < 8"
  obtains (fail) k' where "sys_read k 8 = (RdFail, k')"
  | (short) hdr k' where "sys_read k 8 = (RdBytes hdr, k')" "length hdr \<noteq> 8"
proof (cases k rule: kbytes.cases)
  case (3 b bs es)
  have "length (take (unat (8 :: u64)) (b # bs)) \<noteq> 8"
    using assms by (simp add: 3 head_len_def)
  then show ?thesis
    using short by (simp add: 3 del: take_Suc_Cons)
qed (use that in auto)

lemma sys_read_whole_header:
  assumes "8 \<le> head_len k"
  shows "sys_read k 8 = (RdBytes (take 8 (kbytes k)), kdrop 8 k)" and "8 \<le> length (kbytes k)"
proof -
  obtain b bs es where k: "k = Chunk b bs # es"
    using assms by (cases k rule: kbytes.cases) (auto simp: head_len_def)
  have len: "8 \<le> length (b # bs)"
    using assms by (simp add: k head_len_def)
  then have min: "min (unat (8 :: u64)) (Suc (length bs)) = 8"
    by simp
  have "take 8 (kbytes k) = take 8 ((b # bs) @ kbytes es)"
    by (simp add: k)
  also have "\<dots> = take 8 (b # bs)"
    unfolding take_append using len by simp
  finally show "sys_read k 8 = (RdBytes (take 8 (kbytes k)), kdrop 8 k)"
    using sys_read_Chunk(1) [of 8 b bs es] unfolding min k by simp
  show "8 \<le> length (kbytes k)"
    using len by (simp add: k)
qed

text \<open>The whole function: every branch, for every split of the bytes into chunks.\<close>

lemma readFromSocket_eq:
  assumes "sock \<noteq> -1"
  shows "readFromSocket sock k buf =
    (if head_len k < 8 then Ret (-1, buf, snd (sys_read k 8))
     else (let n = unat (un_le64 (take 8 (kbytes k))); body = drop 8 (kbytes k) in
       if vector_max_size < n then Fault LengthError
       else if n \<le> length body then Ret (0, take n body, kdrop (8 + n) k)
       else if kfails k then Ret (-1, overwrite 0 body (vec_resize n buf), kafter k)
       else Hang))"
proof (cases "head_len k < 8")
  case True
  show ?thesis
    using True by (rule sys_read_short_header) (simp_all add: readFromSocket_def assms True)
next
  case False
  then have "8 \<le> head_len k"
    by simp
  note rd = sys_read_whole_header [OF this]
  show ?thesis
    using False rd(2)
    by (simp add: readFromSocket_def assms rd(1) read_loop_spec kbytes_kdrop Let_def overwrite_all)
qed

definition frame :: "u8 list \<Rightarrow> u8 list" where
  "frame p = le64 (of_nat (length p)) @ p"

lemma length_frame [simp]: "length (frame p) = 8 + length p"
  by (simp add: frame_def)

lemma readFromSocket_frame:
  assumes "sock \<noteq> -1" "8 \<le> head_len k" "length p \<le> vector_max_size"
    and "take (8 + length p) (kbytes k) = frame p"
  shows "readFromSocket sock k buf = Ret (0, p, kdrop (8 + length p) k)"
proof -
  have n: "unat (of_nat (length p) :: u64) = length p"
    using assms(3) by (intro unat_of_nat_u64) (simp add: vector_max_size_def)
  note split = take_split [OF assms(4) [unfolded frame_def]]
  have "un_le64 (take 8 (kbytes k)) = of_nat (length p)"
    using split(1) by simp
  then show ?thesis
    using assms(2,3) split(2,3) n by (simp add: readFromSocket_eq [OF assms(1)] Let_def)
qed

section \<open>Writing a frame\<close>

lemma sys_write_cases:
  obtains (fail) w' where "sys_write w bs = (None, w')" "wr_sent w' = wr_sent w"
  | (ok) n w' where "sys_write w bs = (Some n, w')" "n \<le> length bs"
      "wr_sent w' = wr_sent w @ take n bs"
proof (cases "wr_script w")
  case Nil
  then show ?thesis
    using ok [of "length bs"] by (simp add: sys_write_def)
next
  case (Cons e es)
  then show ?thesis
    using ok [of "min (case e of Accept n \<Rightarrow> n | _ \<Rightarrow> 0) (length bs)"] fail
    by (cases e) (simp_all add: sys_write_def min_def split: if_splits)
qed

lemma write_loop_spec:
  "\<exists>j \<le> length bs. wr_sent (snd (write_loop w bs)) = wr_sent w @ take j bs
     \<and> (fst (write_loop w bs) \<longleftrightarrow> j = length bs)"
proof (induction w bs rule: write_loop.induct)
  case (1 w bs)
  show ?case
  proof (cases "bs = []")
    case True
    then show ?thesis by (simp add: write_loop.simps)
  next
    case False
    show ?thesis
    proof (cases rule: sys_write_cases [of w bs])
      case (fail w')
      with False show ?thesis
        by (intro exI [of _ 0]) (simp add: write_loop.simps)
    next
      case (ok n w')
      with False 1 obtain j where j: "j \<le> length (drop n bs)"
        "wr_sent (snd (write_loop w' (drop n bs))) = wr_sent w' @ take j (drop n bs)"
        "fst (write_loop w' (drop n bs)) \<longleftrightarrow> j = length (drop n bs)"
        by auto
      then show ?thesis
        using False ok
        by (intro exI [of _ "n + j"]) (auto simp: write_loop.simps [of w bs] take_add)
    qed
  qed
qed

lemma writeToSocket_result: "fst (writeToSocket sock w bs) = 0 \<or> fst (writeToSocket sock w bs) = -1"
  by (auto simp: writeToSocket_def split: prod.splits option.splits)

lemma writeToSocket_prefix:
  "\<exists>j \<le> length (frame bs). wr_sent (snd (writeToSocket sock w bs)) = wr_sent w @ take j (frame bs)
     \<and> (fst (writeToSocket sock w bs) = 0 \<longleftrightarrow> j = length (frame bs))"
proof (cases "sock = -1")
  case True
  then show ?thesis by (intro exI [of _ 0]) (simp add: writeToSocket_def)
next
  case False
  let ?h = "le64 (of_nat (length bs))"
  show ?thesis
  proof (cases rule: sys_write_cases [of w ?h])
    case (fail w')
    with False show ?thesis
      by (intro exI [of _ 0]) (simp add: writeToSocket_def)
  next
    case (ok n w1)
    show ?thesis
    proof (cases "n = 8")
      case False
      with ok \<open>sock \<noteq> -1\<close> show ?thesis
        by (intro exI [of _ n]) (auto simp: writeToSocket_def frame_def)
    next
      case True
      obtain j where j: "j \<le> length bs" "wr_sent (snd (write_loop w1 bs)) = wr_sent w1 @ take j bs"
        "fst (write_loop w1 bs) \<longleftrightarrow> j = length bs"
        using write_loop_spec by blast
      with ok True False show ?thesis
        by (intro exI [of _ "8 + j"])
          (auto simp: writeToSocket_def frame_def \<open>sock \<noteq> -1\<close> split: prod.splits)
    qed
  qed
qed

section \<open>The framing contract\<close>

text \<open>
  What the router client needs of the framing layer, as three interfaces: a source whose reads return
  the pending frames one by one, a sink whose writes append one frame or fail with a proper prefix of
  it, and a pipe, in which what a sink has written can arrive at a source.
\<close>

locale frame_source =
  fixes rd :: "int \<Rightarrow> 'k \<Rightarrow> u8 list \<Rightarrow> (int \<times> u8 list \<times> 'k) outcome"
    and pending :: "'k \<Rightarrow> u8 list list \<Rightarrow> bool"
  assumes rd_frame: "s \<noteq> -1 \<Longrightarrow> pending k (p # ps) \<Longrightarrow>
      \<exists>k'. rd s k buf = Ret (0, p, k') \<and> pending k' ps"

locale frame_sink =
  fixes wr :: "int \<Rightarrow> 'w \<Rightarrow> u8 list \<Rightarrow> int \<times> 'w"
    and sent :: "'w \<Rightarrow> u8 list"
  assumes wr_result: "fst (wr s w p) = 0 \<or> fst (wr s w p) = -1"
    and wr_frame: "fst (wr s w p) = 0 \<Longrightarrow> sent (snd (wr s w p)) = sent w @ frame p"
    and wr_partial: "fst (wr s w p) = -1 \<Longrightarrow>
      \<exists>j < length (frame p). sent (snd (wr s w p)) = sent w @ take j (frame p)"

text \<open>A run of writes (up to the first failure) and a run of reads.\<close>

fun write_each :: "('w \<Rightarrow> u8 list \<Rightarrow> int \<times> 'w) \<Rightarrow> 'w \<Rightarrow> u8 list list \<Rightarrow> int \<times> 'w" where
  "write_each wr w [] = (0, w)"
| "write_each wr w (p # ps) =
     (case wr w p of (r, w') \<Rightarrow> if r = 0 then write_each wr w' ps else (r, w'))"

fun read_each :: "('k \<Rightarrow> u8 list \<Rightarrow> (int \<times> u8 list \<times> 'k) outcome) \<Rightarrow> nat \<Rightarrow> 'k
    \<Rightarrow> (int \<times> u8 list list \<times> 'k) outcome" where
  "read_each rd 0 k = Ret (0, [], k)"
| "read_each rd (Suc n) k = bind_outcome (rd k []) (\<lambda>(r, p, k').
     if r = 0 then bind_outcome (read_each rd n k') (\<lambda>(r', ps, k''). Ret (r', p # ps, k''))
     else Ret (r, [], k'))"

context frame_source
begin

lemma read_pending:
  "s \<noteq> -1 \<Longrightarrow> pending k (ps @ qs) \<Longrightarrow>
   \<exists>k'. read_each (rd s) (length ps) k = Ret (0, ps, k') \<and> pending k' qs"
proof (induction ps arbitrary: k)
  case Nil
  then show ?case by simp
next
  case (Cons p ps)
  then obtain k1 where k1: "rd s k [] = Ret (0, p, k1)" "pending k1 (ps @ qs)"
    using rd_frame [of s k p "ps @ qs" "[]"] by auto
  with Cons.IH [OF Cons.prems(1)] obtain k2
    where "read_each (rd s) (length ps) k1 = Ret (0, ps, k2)" "pending k2 qs" by blast
  with k1 show ?case by simp
qed

end

context frame_sink
begin

lemma sent_write_each:
  "fst (write_each (wr s) w ps) = 0 \<Longrightarrow>
   sent (snd (write_each (wr s) w ps)) = sent w @ concat (map frame ps)"
proof (induction ps arbitrary: w)
  case Nil
  then show ?case by simp
next
  case (Cons p ps)
  then show ?case
    using wr_frame [of s w p] by (auto split: prod.splits if_splits)
qed

end

locale frame_pipe = frame_source rd pending + frame_sink wr sent
  for rd :: "int \<Rightarrow> 'k \<Rightarrow> u8 list \<Rightarrow> (int \<times> u8 list \<times> 'k) outcome"
    and pending :: "'k \<Rightarrow> u8 list list \<Rightarrow> bool"
    and wr :: "int \<Rightarrow> 'w \<Rightarrow> u8 list \<Rightarrow> int \<times> 'w"
    and sent :: "'w \<Rightarrow> u8 list" +
  fixes arrives :: "'k \<Rightarrow> u8 list \<Rightarrow> nat list \<Rightarrow> bool"
  assumes arrival: "arrives k (concat (map frame ps)) (map length ps) \<Longrightarrow>
      \<forall>p \<in> set ps. length p \<le> vector_max_size \<Longrightarrow> pending k ps"
begin

lemma pipe_roundtrip:
  assumes "fst (write_each (wr s) w ps) = 0"
    and "arrives k (drop (length (sent w)) (sent (snd (write_each (wr s) w ps)))) (map length ps)"
    and "\<forall>p \<in> set ps. length p \<le> vector_max_size" and "s' \<noteq> -1"
  shows "\<exists>k'. read_each (rd s') (length ps) k = Ret (0, ps, k')"
proof -
  have "pending k ps"
    using assms sent_write_each [OF assms(1)] by (intro arrival) simp_all
  then show ?thesis
    using read_pending [of s' k ps "[]"] assms(4) by auto
qed

end

section \<open>The sockets keep the contract\<close>

text \<open>
  \<open>aligned k ns\<close>: when frames with payloads of lengths \<open>ns\<close> arrive on \<open>k\<close>, no chunk boundary falls
  inside a header. Bodies may be split anywhere.
\<close>

fun aligned :: "rd_event list \<Rightarrow> nat list \<Rightarrow> bool" where
  "aligned k [] = True"
| "aligned k (n # ns) = (8 \<le> head_len k \<and> aligned (kdrop (8 + n) k) ns)"

fun framed :: "rd_event list \<Rightarrow> u8 list list \<Rightarrow> bool" where
  "framed k [] = True"
| "framed k (p # ps) =
     (8 \<le> head_len k \<and> length p \<le> vector_max_size
      \<and> take (8 + length p) (kbytes k) = frame p \<and> framed (kdrop (8 + length p) k) ps)"

definition socket_arrives :: "rd_event list \<Rightarrow> u8 list \<Rightarrow> nat list \<Rightarrow> bool" where
  "socket_arrives k bs ns \<longleftrightarrow> take (length bs) (kbytes k) = bs \<and> aligned k ns"

lemma framed_arrival:
  "socket_arrives k (concat (map frame ps)) (map length ps) \<Longrightarrow>
   \<forall>p \<in> set ps. length p \<le> vector_max_size \<Longrightarrow> framed k ps"
proof (induction ps arbitrary: k)
  case Nil
  show ?case by simp
next
  case (Cons p ps)
  let ?n = "8 + length p" and ?rest = "concat (map frame ps)"
  have "take (?n + length ?rest) (kbytes k) = frame p @ ?rest"
    using Cons.prems(1) by (simp add: socket_arrives_def ac_simps)
  note split = take_split [OF this length_frame refl]
  have "kbytes (kdrop ?n k) = drop ?n (kbytes k)"
    using split(3) by (intro kbytes_kdrop) simp
  then have "socket_arrives (kdrop ?n k) ?rest (map length ps)"
    using Cons.prems(1) split(2) by (simp add: socket_arrives_def)
  then have "framed (kdrop ?n k) ps"
    using Cons.prems(2) by (intro Cons.IH) simp_all
  then show ?case
    using Cons.prems split(1) by (simp add: socket_arrives_def)
qed

interpretation sock: frame_pipe readFromSocket framed writeToSocket wr_sent socket_arrives
proof unfold_locales
  fix s :: int and k p ps buf
  assume "s \<noteq> -1" "framed k (p # ps)"
  then show "\<exists>k'. readFromSocket s k buf = Ret (0, p, k') \<and> framed k' ps"
    using readFromSocket_frame [of s k p buf] by auto
next
  fix s :: int and w p
  show "fst (writeToSocket s w p) = 0 \<or> fst (writeToSocket s w p) = -1"
    by (rule writeToSocket_result)
next
  fix s :: int and w p
  assume "fst (writeToSocket s w p) = 0"
  then show "wr_sent (snd (writeToSocket s w p)) = wr_sent w @ frame p"
    using writeToSocket_prefix [of p s w] by auto
next
  fix s :: int and w p
  assume "fst (writeToSocket s w p) = -1"
  then show "\<exists>j < length (frame p). wr_sent (snd (writeToSocket s w p)) = wr_sent w @ take j (frame p)"
    using writeToSocket_prefix [of p s w] by (auto simp: le_less)
next
  fix k ps
  assume "socket_arrives k (concat (map frame ps)) (map length ps)"
    and "\<forall>p \<in> set ps. length p \<le> vector_max_size"
  then show "framed k ps"
    by (rule framed_arrival)
qed

section \<open>Properties\<close>

text \<open>
  Every list of messages that \<^verbatim>\<open>writeToSocket\<close> has accepted in full is read back by the same number
  of calls of \<^verbatim>\<open>readFromSocket\<close>, in order and byte for byte, however the bytes are cut into chunks on the
  way, as long as no chunk ends inside a header.
\<close>

theorem socket_roundtrip:
  assumes "fst (write_each (writeToSocket s) w ps) = 0"
    and "socket_arrives k
      (drop (length (wr_sent w)) (wr_sent (snd (write_each (writeToSocket s) w ps)))) (map length ps)"
    and "\<forall>p \<in> set ps. length p \<le> vector_max_size" and "s' \<noteq> -1"
  shows "\<exists>k'. read_each (readFromSocket s') (length ps) k = Ret (0, ps, k')"
  using assms by (rule sock.pipe_roundtrip)

theorem socket_roundtrip_witness:
  "\<exists>k'. read_each (readFromSocket 4) (length [[10, 20], [30 :: u8]])
     [Chunk 2 [0, 0, 0, 0, 0, 0, 0], Chunk 10 [20, 1, 0, 0, 0, 0, 0, 0, 0], Chunk 30 []]
     = Ret (0, [[10, 20], [30]], k')"
proof -
  let ?w = "\<lparr>wr_script = [Accept 8, Accept 1], wr_sent = []\<rparr>"
  let ?k = "[Chunk 2 [0, 0, 0, 0, 0, 0, 0], Chunk 10 [20, 1, 0, 0, 0, 0, 0, 0, 0], Chunk 30 []]"
  let ?r = "write_each (writeToSocket 3) ?w [[10, 20], [30]]"
  have "fst ?r = 0"
    by code_simp
  moreover have "socket_arrives ?k (drop (length (wr_sent ?w)) (wr_sent (snd ?r)))
      (map length [[10, 20], [30 :: u8]])"
    by code_simp
  moreover have "\<forall>p \<in> set [[10, 20], [30 :: u8]]. length p \<le> vector_max_size"
    by (simp add: vector_max_size_def)
  ultimately show ?thesis
    by (rule socket_roundtrip) simp
qed

text \<open>
  C36: what \<^verbatim>\<open>readFromSocket\<close> does on every socket and every way the bytes can arrive: it fails without a
  socket and when the header does not come in one piece; a declared size beyond the largest vector ends
  the program; the payload is returned exactly if it is complete; an error inside the payload is
  reported; and if the peer closes inside the payload the call never returns.
\<close>

theorem readFromSocket_spec:
  "readFromSocket sock k buf =
    (if sock = -1 then Ret (-1, buf, k)
     else if head_len k < 8 then Ret (-1, buf, snd (sys_read k 8))
     else (let n = unat (un_le64 (take 8 (kbytes k))); body = drop 8 (kbytes k) in
       if vector_max_size < n then Fault LengthError
       else if n \<le> length body then Ret (0, take n body, kdrop (8 + n) k)
       else if kfails k then Ret (-1, overwrite 0 body (vec_resize n buf), kafter k)
       else Hang))"
proof (cases "sock = -1")
  case True
  then show ?thesis by (simp add: readFromSocket_def)
next
  case False
  then show ?thesis by (simp add: readFromSocket_eq)
qed

text \<open>
  \<^verbatim>\<open>readFromSocket\<close> fails to return in one situation only, and does so there: the header has
  arrived and the peer closes the connection before the payload is complete. (\<^verbatim>\<open>read\<close> then returns 0,
  which the loop adds for ever.)
\<close>

theorem readFromSocket_hangs_iff:
  "readFromSocket sock k buf = Hang \<longleftrightarrow>
     sock \<noteq> -1 \<and> 8 \<le> head_len k \<and> \<not> kfails k
     \<and> length (kbytes k) < 8 + unat (un_le64 (take 8 (kbytes k)))
     \<and> unat (un_le64 (take 8 (kbytes k))) \<le> vector_max_size"
proof (cases "sock = -1")
  case True
  then show ?thesis by (simp add: readFromSocket_def)
next
  case sock: False
  show ?thesis
  proof (cases "head_len k < 8")
    case True
    with sock show ?thesis by (simp add: readFromSocket_eq)
  next
    case False
    then have "8 \<le> length (kbytes k)"
      by (intro sys_read_whole_header) simp
    with sock False show ?thesis
      by (auto simp: readFromSocket_eq Let_def)
  qed
qed

text \<open>
  \<^verbatim>\<open>writeToSocket\<close> always returns. It returns 0 exactly when the whole frame, the 64-bit length and
  the payload, has gone out; with -1 a proper prefix of the frame has.
\<close>

theorem writeToSocket_all_or_prefix:
  "(fst (writeToSocket sock w bs) = 0
      \<and> wr_sent (snd (writeToSocket sock w bs)) = wr_sent w @ frame bs)
   \<or> (fst (writeToSocket sock w bs) = -1
      \<and> (\<exists>j. j < length (frame bs)
          \<and> wr_sent (snd (writeToSocket sock w bs)) = wr_sent w @ take j (frame bs)))"
proof (cases "fst (writeToSocket sock w bs) = 0")
  case True
  then show ?thesis
    using sock.wr_frame by simp
next
  case False
  then have "fst (writeToSocket sock w bs) = -1"
    using sock.wr_result by blast
  then show ?thesis
    using sock.wr_partial by simp
qed

text \<open>
  A complete message is refused when its header is cut: if the first chunk holds less than the
  eight bytes of the length, \<^verbatim>\<open>readFromSocket\<close> returns -1 although the rest follows, and the bytes
  it took are gone.
\<close>

theorem readFromSocket_split_header:
  assumes "sock \<noteq> -1" and "b # bs @ c # cs = frame p" and "length bs < 7"
  shows "kbytes [Chunk b bs, Chunk c cs] = frame p
    \<and> readFromSocket sock [Chunk b bs, Chunk c cs] buf = Ret (-1, buf, [Chunk c cs])"
proof -
  have "sys_read [Chunk b bs, Chunk c cs] 8 = (RdBytes (b # bs), [Chunk c cs])"
    using assms(3) by (simp add: take_Cons')
  moreover have "kbytes [Chunk b bs, Chunk c cs] = frame p"
    using assms(2) by simp
  ultimately show ?thesis
    using assms(1,3) by (simp add: readFromSocket_def)
qed

theorem readFromSocket_split_header_witness:
  "kbytes [Chunk 1 [0, 0, 0], Chunk 0 [0, 0, 0, 42]] = frame [42]
    \<and> readFromSocket 3 [Chunk 1 [0, 0, 0], Chunk 0 [0, 0, 0, 42]] []
      = Ret (-1, [], [Chunk 0 [0, 0, 0, 42]])"
proof -
  have "1 # [0, 0, 0] @ 0 # [0, 0, 0, 42] = frame [42]"
    by code_simp
  then show ?thesis
    using readFromSocket_split_header [of 3 1 "[0, 0, 0]" 0 "[0, 0, 0, 42]" "[42]" "[]"] by simp
qed

end
