(* ===== verification/Listing.thy ===== *)
theory Listing
  imports Data
begin

text \<open>
  The loop with which \<^verbatim>\<open>Bridge::start\<close> (\<^verbatim>\<open>src/lib/SwAxi.cc\<close>) fetches a list from the router client:
  retrieve an entry, give up on an error, stop at a null entry, else append it and go on. It occurs
  twice, for the peers and for the IP blocks, over two operations with the same contract.
\<close>

partial_function (option) retrieve_loop ::
  "('c \<Rightarrow> ('c \<times> 'a option \<times> Status) outcome) \<Rightarrow> 'c \<Rightarrow> 'a list
    \<Rightarrow> ('c \<times> 'a list \<times> Status) outcome option" where
  "retrieve_loop retrieve c acc =
     (case retrieve c of
        Hang \<Rightarrow> Some Hang
      | Fault e \<Rightarrow> Some (Fault e)
      | Ret (c', entry, st) \<Rightarrow>
          if isError st then Some (Ret (c', acc, st))
          else (case entry of
              None \<Rightarrow> Some (Ret (c', acc, status_ok))
            | Some x \<Rightarrow> retrieve_loop retrieve c' (acc @ [x])))"

text \<open>A loop that never ends is a call that never returns.\<close>

definition retrieve_all ::
  "('c \<Rightarrow> ('c \<times> 'a option \<times> Status) outcome) \<Rightarrow> 'c \<Rightarrow> 'a list
    \<Rightarrow> ('c \<times> 'a list \<times> Status) outcome" where
  "retrieve_all retrieve c acc =
     (case retrieve_loop retrieve c acc of None \<Rightarrow> Hang | Some r \<Rightarrow> r)"

section \<open>The contract of a listing operation\<close>

text \<open>
  \<open>listed r c xs\<close>: the operation, started in \<open>c\<close>, will hand out \<open>xs\<close> and then null; \<open>finished r c\<close>
  is what holds after that. The argument \<open>r\<close> carries what must not change on the way.
\<close>

locale listing =
  fixes retrieve :: "'c \<Rightarrow> ('c \<times> 'a option \<times> Status) outcome"
    and listed :: "'r \<Rightarrow> 'c \<Rightarrow> 'a list \<Rightarrow> bool"
    and finished :: "'r \<Rightarrow> 'c \<Rightarrow> bool"
  assumes entry: "listed r c (x # xs) \<Longrightarrow>
      \<exists>c'. retrieve c = Ret (c', Some x, status_ok) \<and> listed r c' xs"
    and finish: "listed r c [] \<Longrightarrow> \<exists>c'. retrieve c = Ret (c', None, status_ok) \<and> finished r c'"
begin

lemma retrieve_all_listed:
  "listed r c xs \<Longrightarrow> \<exists>c'. retrieve_all retrieve c acc = Ret (c', acc @ xs, status_ok) \<and> finished r c'"
proof (induction xs arbitrary: c acc)
  case Nil
  then obtain c' where "retrieve c = Ret (c', None, status_ok)" "finished r c'"
    using finish by blast
  then show ?case
    by (simp add: retrieve_all_def retrieve_loop.simps)
next
  case (Cons x xs)
  then obtain c1 where c1: "retrieve c = Ret (c1, Some x, status_ok)" "listed r c1 xs"
    using entry by blast
  from Cons.IH [OF c1(2), of "acc @ [x]"] obtain c2
    where c2: "retrieve_all retrieve c1 (acc @ [x]) = Ret (c2, acc @ x # xs, status_ok)" "finished r c2"
    by auto
  have "retrieve_loop retrieve c acc = retrieve_loop retrieve c1 (acc @ [x])"
    using c1(1) by (subst retrieve_loop.simps) simp
  with c2 show ?case
    by (auto simp: retrieve_all_def)
qed

end

text \<open>
  If every entry uses up some of what is there to be read, the loop ends, whatever is read: the call
  returns, faults or waits inside \<open>retrieve\<close>, but does not loop for ever.
\<close>

locale finite_listing = listing retrieve listed finished
  for retrieve :: "'c \<Rightarrow> ('c \<times> 'a option \<times> Status) outcome"
    and listed :: "'r \<Rightarrow> 'c \<Rightarrow> 'a list \<Rightarrow> bool"
    and finished :: "'r \<Rightarrow> 'c \<Rightarrow> bool" +
  fixes weight :: "'c \<Rightarrow> nat"
  assumes progress: "retrieve c = Ret (c', Some x, st) \<Longrightarrow> isOk st \<Longrightarrow> weight c' < weight c"
begin

lemma retrieve_loop_ends: "\<exists>r. retrieve_loop retrieve c acc = Some r"
proof (induction "weight c" arbitrary: c acc rule: less_induct)
  case less
  show ?case
  proof (cases "\<exists>c' x st. retrieve c = Ret (c', Some x, st) \<and> isOk st")
    case True
    then obtain c' x st where c': "retrieve c = Ret (c', Some x, st)" "isOk st" by blast
    then have "retrieve_loop retrieve c acc = retrieve_loop retrieve c' (acc @ [x])"
      by (subst retrieve_loop.simps) (simp add: isError_iff_not_isOk)
    with less progress [OF c'] show ?thesis by simp
  next
    case False
    then show ?thesis
      by (subst retrieve_loop.simps)
        (auto simp: isError_iff_not_isOk split: outcome.split prod.split option.split)
  qed
qed

lemma retrieve_all_preserves:
  assumes "\<And>c c' x st. P c \<Longrightarrow> retrieve c = Ret (c', x, st) \<Longrightarrow> P c'"
  shows "P c \<Longrightarrow> retrieve_all retrieve c acc = Ret (c', ys, st) \<Longrightarrow> P c'"
proof (induction "weight c" arbitrary: c acc rule: less_induct)
  case less
  show ?case
  proof (cases "\<exists>c1 x st1. retrieve c = Ret (c1, Some x, st1) \<and> isOk st1")
    case True
    then obtain c1 x st1 where c1: "retrieve c = Ret (c1, Some x, st1)" "isOk st1" by blast
    then have "retrieve_all retrieve c acc = retrieve_all retrieve c1 (acc @ [x])"
      unfolding retrieve_all_def by (subst retrieve_loop.simps) (simp add: isError_iff_not_isOk)
    then show ?thesis
      using less.hyps [OF progress [OF c1]] assms [OF less.prems(1) c1(1)] less.prems(2) by simp
  next
    case False
    then show ?thesis
      using less.prems assms [OF less.prems(1)]
      by (auto simp: retrieve_all_def retrieve_loop.simps [of retrieve c acc] isError_iff_not_isOk
          split: outcome.splits prod.splits option.splits if_splits)
  qed
qed

end

end
