(* ===== verification/Router_Client.thy ===== *)
theory Router_Client
  imports Wire Socket_IO Numerals Listing "HOL-Library.Sublist"
begin

text \<open>
  The router client, \<^verbatim>\<open>src/common/RouterClient.hh\<close> and \<^verbatim>\<open>src/common/RouterClient.cc\<close>: the handshake
  and the transaction traffic over one UNIX socket, guarded by the state of the connection. Every
  operation takes the client and returns the client after it with its result, inside an \<open>outcome\<close>.
\<close>

section \<open>State\<close>

datatype State = DISCONNECTED | CONNECTED | COMMITTED | PEER_INFO_RECEIVED | STARTED | LOGGED_OUT

text \<open>The states in the order in which a session passes them.\<close>

fun state_rank :: "State \<Rightarrow> nat" where
  "state_rank DISCONNECTED = 0"
| "state_rank CONNECTED = 1"
| "state_rank COMMITTED = 2"
| "state_rank PEER_INFO_RECEIVED = 3"
| "state_rank STARTED = 4"
| "state_rank LOGGED_OUT = 5"

instantiation State :: linorder
begin

definition less_eq_State :: "State \<Rightarrow> State \<Rightarrow> bool" where
  "less_eq_State s t \<longleftrightarrow> state_rank s \<le> state_rank t"

definition less_State :: "State \<Rightarrow> State \<Rightarrow> bool" where
  "less_State s t \<longleftrightarrow> state_rank s < state_rank t"

instance
proof
  fix s t :: State
  assume "s \<le> t" "t \<le> s"
  then show "s = t"
    by (cases s; cases t) (simp_all add: less_eq_State_def)
qed (auto simp: less_eq_State_def less_State_def)

end

text \<open>
  The members of the class, then the kernel's side: the two directions of the connection and the
  descriptors the process holds open; \<open>c_lost\<close> counts the objects its calls have made with \<^verbatim>\<open>new\<close> and then
  neither returned nor deleted.
\<close>

record client =
  c_state :: State
  c_uri :: string
  c_sock :: int
  c_in :: "rd_event list"
  c_out :: wr_chan
  c_open :: "int list"
  c_lost :: nat

definition new_RouterClient :: "int list \<Rightarrow> client" where
  "new_RouterClient fds = \<lparr>c_state = DISCONNECTED, c_uri = '''', c_sock = -1, c_in = [],
     c_out = \<lparr>wr_script = [], wr_sent = []\<rparr>, c_open = fds, c_lost = 0\<rparr>"

text \<open>\<^verbatim>\<open>const uint32_t DONE\<close>, the status code of a finished stream of transactions.\<close>

definition DONE_code :: u32 where
  "DONE_code = 0xffffffff"

definition RouterClient_getState :: "client \<Rightarrow> State" where
  "RouterClient_getState c = c_state c"

text \<open>The answers of the operating system to \<^verbatim>\<open>connect\<close>.\<close>

record env =
  e_socket :: int
  e_connect :: "string \<Rightarrow> bool"
  e_in :: "rd_event list"
  e_wr :: "wr_event list"
  e_sysname :: string
  e_nodename :: string
  e_pid :: u64
  e_sim_id :: "string option"

section \<open>Messages in and out\<close>

definition client_write :: "lib \<Rightarrow> client \<Rightarrow> wire_Message \<Rightarrow> bool \<times> client" where
  "client_write L c m =
     (case writeToSocket (c_sock c) (c_out c) (lib_encode L m) of
        (r, w) \<Rightarrow> (r \<noteq> -1, c\<lparr>c_out := w\<rparr>))"

text \<open>\<open>None\<close> is the branch \<^verbatim>\<open>readFromSocket(sock, data) == -1\<close>.\<close>

definition client_read :: "lib \<Rightarrow> client \<Rightarrow> (client \<times> wire_Message option) outcome" where
  "client_read L c =
     bind_outcome (readFromSocket (c_sock c) (c_in c) []) (\<lambda>(r, data, k).
       let c' = c\<lparr>c_in := k\<rparr> in
       if r = -1 then Ret (c', None)
       else (case lib_decode L data of
          None \<Rightarrow> Fault BadFlatBuffer
        | Some m \<Rightarrow> Ret (c', Some m)))"

definition RouterClient_disconnect :: "client \<Rightarrow> client" where
  "RouterClient_disconnect c =
     (if c_sock c = -1 then c
      else c\<lparr>c_open := remove1 (c_sock c) (c_open c), c_state := DISCONNECTED, c_uri := '''',
             c_sock := -1\<rparr>)"

section \<open>connect\<close>

text \<open>
  \<^verbatim>\<open>sun_path\<close> has 108 bytes; \<^verbatim>\<open>strncpy\<close> copies at most 107 and stops at a NUL. The check for a path
  that is too long builds a pair and drops it: the statement has no \<^verbatim>\<open>return\<close>, so there is no such
  branch.
\<close>

definition sun_path :: "string \<Rightarrow> string" where
  "sun_path path = takeWhile (\<lambda>ch. ch \<noteq> CHR 0x00) (take 107 path)"

definition system_name :: "env \<Rightarrow> string" where
  "system_name E = (case e_sim_id E of None \<Rightarrow> e_sysname E @ '' C++'' | Some s \<Rightarrow> s)"

definition client_SystemInfo :: "env \<Rightarrow> string \<Rightarrow> wire_Message" where
  "client_SystemInfo E name =
     (new_Message Type_SYSTEM_INFO)\<lparr>wm_systemInfo := Some
        \<lparr>ws_name = Some name, ws_systemName = Some (system_name E), ws_pid = e_pid E,
         ws_hostname = Some (e_nodename E)\<rparr>\<rparr>"

definition SystemInfo_of_message :: "wire_Message \<Rightarrow> SystemInfo outcome" where
  "SystemInfo_of_message m =
     deref (wm_systemInfo m) (\<lambda>s.
       deref (ws_name s) (\<lambda>n. deref (ws_systemName s) (\<lambda>sn. deref (ws_hostname s) (\<lambda>h.
         Ret \<lparr>si_name = n, si_systemName = sn, si_pid = ws_pid s, si_hostname = h\<rparr>))))"

definition RouterClient_connect ::
  "lib \<Rightarrow> env \<Rightarrow> string \<Rightarrow> string \<Rightarrow> client \<Rightarrow> (client \<times> SystemInfo option \<times> Status) outcome" where
  "RouterClient_connect L E uri name c =
     (if c_state c \<noteq> DISCONNECTED then Ret (c, None,
        mk_status 1 ''The bridge needs to be disconnected for the connect operation to proceed'')
      else if length uri < 8 \<or> take 7 uri \<noteq> ''unix://'' then Ret (c, None,
        mk_status 1 (''Can only communicate over UNIX domain sockets:'' @ uri))
      else (let path = drop 7 uri; c1 = c\<lparr>c_sock := e_socket E\<rparr> in
        if c_sock c1 = -1 then Ret (c1, None,
          mk_status 1 (''Unable to create a UNIX socket: '' @ lib_strerror L))
        else (let c2 = c1\<lparr>c_open := c_sock c1 # c_open c1\<rparr> in
          if \<not> e_connect E (sun_path path) then Ret (RouterClient_disconnect c2, None,
            mk_status 1 (''Unable to connect to the UNIX socket '' @ path @ '': '' @ lib_strerror L))
          else (let c3 = c2\<lparr>c_uri := uri, c_in := e_in E,
                            c_out := \<lparr>wr_script = e_wr E, wr_sent = []\<rparr>\<rparr> in
            (case client_write L c3 (client_SystemInfo E name) of
              (False, c4) \<Rightarrow> Ret (RouterClient_disconnect c4, None,
                mk_status 1 (''Error while sending the system info: '' @ lib_strerror L))
            | (True, c4) \<Rightarrow>
                bind_outcome (client_read L c4) (\<lambda>(c5, msg). (case msg of
                  None \<Rightarrow> Ret (RouterClient_disconnect c5, None, mk_status 1
                    (''Error while receiving the router's system info:'' @ lib_strerror L))
                | Some m \<Rightarrow>
                    if wm_type m \<noteq> Type_SYSTEM_INFO then
                      Ret (RouterClient_disconnect c5, None, mk_status 1
                        (''Received an unexpected message from the router: ''
                         @ to_string_int (sint (wm_type m))))
                    else bind_outcome (SystemInfo_of_message m) (\<lambda>info.
                      Ret (c5\<lparr>c_state := CONNECTED\<rparr>, Some info, status_ok)))))))))"

section \<open>registerIp\<close>

text \<open>The builder sets name, address, size, implementation and type, and no interrupt field.\<close>

definition registerIp_message :: "IpConfig \<Rightarrow> u8 \<Rightarrow> wire_Message" where
  "registerIp_message config t =
     (new_Message Type_IP_INFO)\<lparr>wm_ipInfo := Some
        \<lparr>wi_name = Some (ip_name config), wi_address = ip_address config, wi_size = ip_size config,
         wi_firstInterrupt = 0, wi_numInterrupts = 0, wi_type = t,
         wi_implementation = wire_of_IpImplementation (ip_implementation config)\<rparr>\<rparr>"

definition RouterClient_registerIp ::
  "lib \<Rightarrow> IpConfig \<Rightarrow> client \<Rightarrow> (client \<times> u64 \<times> Status) outcome" where
  "RouterClient_registerIp L config c =
     (if c_state c \<noteq> CONNECTED then Ret (c, 0,
        mk_status 1 ''Can register slaves only in CONNECTED mode'')
      else (case wire_of_IpType (ip_type config) of
        None \<Rightarrow> Ret (c, 0, mk_status 1
          (''Unknown IP type: '' @ to_string_int (sint (int_of_IpType (ip_type config)))))
      | Some t \<Rightarrow>
          (case client_write L c (registerIp_message config t) of
            (False, c1) \<Rightarrow> Ret (RouterClient_disconnect c1, 0, mk_status 1
              (''Error while sending the IP_INFO message to router: '' @ lib_strerror L))
          | (True, c1) \<Rightarrow>
              bind_outcome (client_read L c1) (\<lambda>(c2, msg). (case msg of
                None \<Rightarrow> Ret (RouterClient_disconnect c2, 0, mk_status 1
                  (''Error while receiving response to IP registration '' @ lib_strerror L))
              | Some m \<Rightarrow>
                  if wm_type m = Type_ERROR then
                    deref (wm_errorMessage m) (\<lambda>e.
                      Ret (RouterClient_disconnect c2, 0, mk_status 1
                        (''Cannot register IP '' @ ip_name config @ '': '' @ e)))
                  else if wm_type m \<noteq> Type_IP_ACK then
                    Ret (RouterClient_disconnect c2, 0, mk_status 1
                      (''Got an unexpected response while registering IP '' @ ip_name config @ '': ''
                       @ lib_show_type L (wm_type m)))
                  else Ret (c2, wm_ipId m, status_ok))))))"

section \<open>commitIp\<close>

definition RouterClient_commitIp :: "lib \<Rightarrow> client \<Rightarrow> (client \<times> Status) outcome" where
  "RouterClient_commitIp L c =
     (if c_state c \<noteq> CONNECTED then Ret (c,
        mk_status 1 ''Can commit slaves only in CONNECTED mode'')
      else (case client_write L c (new_Message Type_COMMIT) of
        (False, c1) \<Rightarrow> Ret (RouterClient_disconnect c1, mk_status 1
          (''Error while sending the COMMIT message: '' @ lib_strerror L))
      | (True, c1) \<Rightarrow>
          bind_outcome (client_read L c1) (\<lambda>(c2, msg). (case msg of
            None \<Rightarrow> Ret (RouterClient_disconnect c2, mk_status 1
              (''Error while receiving commit acknowledgement: '' @ lib_strerror L))
          | Some m \<Rightarrow>
              if wm_type m = Type_ERROR then
                deref (wm_errorMessage m) (\<lambda>e.
                  Ret (RouterClient_disconnect c2, mk_status 1 (''Cannot register IP: '' @ e)))
              else if wm_type m \<noteq> Type_ACK then
                Ret (RouterClient_disconnect c2, mk_status 1
                  (''Got an unexpected response while committing IP: '' @ lib_show_type L (wm_type m)))
              else Ret (c2\<lparr>c_state := COMMITTED\<rparr>, status_ok)))))"

section \<open>retrievePeerInfo\<close>

definition RouterClient_retrievePeerInfo ::
  "lib \<Rightarrow> client \<Rightarrow> (client \<times> SystemInfo option \<times> Status) outcome" where
  "RouterClient_retrievePeerInfo L c =
     (if c_state c \<noteq> COMMITTED then Ret (c, None,
        mk_status 1 ''The bridge needs to be COMMITTED in order to start'')
      else bind_outcome (client_read L c) (\<lambda>(c1, msg). (case msg of
        None \<Rightarrow> Ret (RouterClient_disconnect c1, None, mk_status 1
          (''Error while receiving the peer info: '' @ lib_strerror L))
      | Some m \<Rightarrow>
          if wm_type m = Type_SYSTEM_INFO then
            bind_outcome (SystemInfo_of_message m) (\<lambda>si. Ret (c1, Some si, status_ok))
          else if wm_type m = Type_ERROR then
            deref (wm_errorMessage m) (\<lambda>e.
              Ret (RouterClient_disconnect c1, None, mk_status 1
                (''Error while receiving the peer list: '' @ e)))
          else if wm_type m \<noteq> Type_ACK then
            Ret (RouterClient_disconnect c1, None, mk_status 1
              (''Got an unexpected response while receiving peer list: ''
               @ lib_show_type L (wm_type m)))
          else Ret (c1\<lparr>c_state := PEER_INFO_RECEIVED\<rparr>, None, status_ok))))"

section \<open>retrieveIpConfig\<close>

text \<open>
  The message as an \<^verbatim>\<open>IpConfig\<close>; \<open>Inl\<close> is the type byte of the \<^verbatim>\<open>default\<close> branch, which returns without the object
  it has made, and without deleting it.
\<close>

definition IpConfig_of_message :: "wire_Message \<Rightarrow> (u8 + IpConfig) outcome" where
  "IpConfig_of_message m =
     deref (wm_ipInfo m) (\<lambda>i. deref (wi_name i) (\<lambda>n.
       (case IpType_of_wire (wi_type i) of
         None \<Rightarrow> Ret (Inl (wi_type i))
       | Some t \<Rightarrow> Ret (Inr
           \<lparr>ip_name = n, ip_address = wi_address i, ip_size = wi_size i,
            ip_firstInterrupt = wi_firstInterrupt i, ip_numInterrupts = wi_numInterrupts i,
            ip_type = t, ip_implementation = IpImplementation_of_wire (wi_implementation i)\<rparr>))))"

definition RouterClient_retrieveIpConfig ::
  "lib \<Rightarrow> client \<Rightarrow> (client \<times> IpConfig option \<times> Status) outcome" where
  "RouterClient_retrieveIpConfig L c =
     (if c_state c \<noteq> PEER_INFO_RECEIVED then Ret (c, None,
        mk_status 1 ''The client needs to receive all the peer infos before receiving IP info'')
      else bind_outcome (client_read L c) (\<lambda>(c1, msg). (case msg of
        None \<Rightarrow> Ret (RouterClient_disconnect c1, None, mk_status 1
          (''Error while receiving the IP info: '' @ lib_strerror L))
      | Some m \<Rightarrow>
          if wm_type m = Type_IP_INFO then
            bind_outcome (IpConfig_of_message m) (\<lambda>r. (case r of
              Inl t \<Rightarrow> Ret (c1\<lparr>c_lost := Suc (c_lost c1)\<rparr>, None, mk_status 1
                (''Received a slave of unknown type: '' @ to_string_int (sint t)))
            | Inr ip \<Rightarrow> Ret (c1, Some ip, status_ok)))
          else if wm_type m = Type_ERROR then
            deref (wm_errorMessage m) (\<lambda>e.
              Ret (RouterClient_disconnect c1, None, mk_status 1
                (''Error while receiving the IP list: '' @ e)))
          else if wm_type m \<noteq> Type_ACK then
            Ret (RouterClient_disconnect c1, None, mk_status 1
              (''Got an unexpected response while receiving IP list: ''
               @ lib_show_type L (wm_type m)))
          else Ret (c1\<lparr>c_state := STARTED\<rparr>, None, status_ok))))"

section \<open>receiveTransaction\<close>

text \<open>The same for a \<^verbatim>\<open>Transaction\<close>.\<close>

definition Transaction_of_message :: "wire_Message \<Rightarrow> (u8 + Transaction) outcome" where
  "Transaction_of_message m =
     deref (wm_txn m) (\<lambda>w.
       (case TransactionType_of_wire (wt_type w) of
         None \<Rightarrow> Ret (Inl (wt_type w))
       | Some t \<Rightarrow> deref (wt_message w) (\<lambda>s. Ret (Inr
           \<lparr>txn_type = t, txn_initiator = wt_initiator w, txn_target = wt_target w,
            txn_id = wt_id w, txn_address = wt_address w, txn_size = wt_size w,
            txn_data = (case wt_data w of None \<Rightarrow> [] | Some d \<Rightarrow> d),
            txn_ok = wt_ok w, txn_message = s\<rparr>))))"

definition RouterClient_receiveTransaction ::
  "lib \<Rightarrow> client \<Rightarrow> (client \<times> Transaction option \<times> Status) outcome" where
  "RouterClient_receiveTransaction L c =
     (if c_state c \<noteq> STARTED then Ret (c, None,
        mk_status 1 ''The client needs be started befor receiving transactions'')
      else bind_outcome (client_read L c) (\<lambda>(c1, msg). (case msg of
        None \<Rightarrow> Ret (RouterClient_disconnect c1, None, mk_status 1
          (''Error while receiving a transaction: '' @ lib_strerror L))
      | Some m \<Rightarrow>
          if wm_type m = Type_DONE then Ret (c1, None, mk_status DONE_code ''Done processing'')
          else if wm_type m \<noteq> Type_TRANSACTION then
            Ret (RouterClient_disconnect c1, None, mk_status 1
              (''Got an unexpected response instead of a transaction: ''
               @ lib_show_type L (wm_type m)))
          else bind_outcome (Transaction_of_message m) (\<lambda>r. (case r of
              Inl t \<Rightarrow> Ret (c1\<lparr>c_lost := Suc (c_lost c1)\<rparr>, None, mk_status 1
                (''Received a transaction of unknown type: '' @ to_string_int (sint t)))
            | Inr txn \<Rightarrow> Ret (c1, Some txn, status_ok))))))"

section \<open>sendTransaction, sendTermination, sendLogout\<close>

definition Transaction_message :: "Transaction \<Rightarrow> u8 \<Rightarrow> wire_Message" where
  "Transaction_message txn t =
     (new_Message Type_TRANSACTION)\<lparr>wm_txn := Some
        \<lparr>wt_type = t, wt_initiator = txn_initiator txn, wt_target = txn_target txn,
         wt_id = txn_id txn, wt_address = txn_address txn, wt_size = txn_size txn,
         wt_data = Some (txn_data txn), wt_ok = txn_ok txn, wt_message = Some (txn_message txn)\<rparr>\<rparr>"

definition RouterClient_sendTransaction ::
  "lib \<Rightarrow> Transaction \<Rightarrow> client \<Rightarrow> client \<times> Status" where
  "RouterClient_sendTransaction L txn c =
     (if c_state c \<noteq> STARTED then
        (c, mk_status 1 ''The client needs be started befor sending transactions'')
      else (case wire_of_TransactionType (txn_type txn) of
        None \<Rightarrow> (c, mk_status 1 (''Unknown transaction type: ''
          @ to_string_int (sint (int_of_TransactionType (txn_type txn)))))
      | Some t \<Rightarrow>
          (case client_write L c (Transaction_message txn t) of
            (False, c1) \<Rightarrow> (RouterClient_disconnect c1, mk_status 1
              (''Error while sending the TERMINATE message: '' @ lib_strerror L))
          | (True, c1) \<Rightarrow> (c1, status_ok))))"

definition RouterClient_sendTermination :: "lib \<Rightarrow> u64 \<Rightarrow> client \<Rightarrow> client \<times> Status" where
  "RouterClient_sendTermination L i c =
     (if c_state c \<noteq> STARTED then
        (c, mk_status 1 ''The client needs be started before sending termination messages'')
      else (case client_write L c ((new_Message Type_TERMINATE)\<lparr>wm_ipId := i\<rparr>) of
        (False, c1) \<Rightarrow> (RouterClient_disconnect c1, mk_status 1
          (''Error while sending the TERMINATE message: '' @ lib_strerror L))
      | (True, c1) \<Rightarrow> (c1, status_ok)))"

definition RouterClient_sendLogout :: "lib \<Rightarrow> client \<Rightarrow> client \<times> Status" where
  "RouterClient_sendLogout L c =
     (if c_state c \<noteq> STARTED then
        (c, mk_status 1 ''The client needs be started before logging out'')
      else (case client_write L c (new_Message Type_DONE) of
        (False, c1) \<Rightarrow> (RouterClient_disconnect c1, mk_status 1
          (''Error while sending the DONE message: '' @ lib_strerror L))
      | (True, c1) \<Rightarrow> (c1\<lparr>c_state := LOGGED_OUT\<rparr>, status_ok)))"

section \<open>Reading and writing on a sound connection\<close>

text \<open>The next messages on the connection are \<open>ms\<close>, in this order, with unsplit headers.\<close>

definition incoming :: "lib \<Rightarrow> client \<Rightarrow> wire_Message list \<Rightarrow> bool" where
  "incoming L c ms \<longleftrightarrow> framed (c_in c) (map (lib_encode L) ms)"

lemma client_read_incoming:
  assumes "codec L" "c_sock c \<noteq> -1" "incoming L c (m # ms)"
  obtains k where "client_read L c = Ret (c\<lparr>c_in := k\<rparr>, Some m)" "incoming L (c\<lparr>c_in := k\<rparr>) ms"
proof -
  obtain k where "readFromSocket (c_sock c) (c_in c) [] = Ret (0, lib_encode L m, k)"
    "framed k (map (lib_encode L) ms)"
    using sock.rd_frame assms(2,3) unfolding incoming_def by (metis list.simps(9))
  then show ?thesis
    using assms(1) that by (simp add: client_read_def incoming_def)
qed

lemma client_write_frame:
  "fst (client_write L c m) \<Longrightarrow>
   wr_sent (c_out (snd (client_write L c m))) = wr_sent (c_out c) @ frame (lib_encode L m)"
  using sock.wr_frame [of "c_sock c" "c_out c" "lib_encode L m"]
    sock.wr_result [of "c_sock c" "c_out c" "lib_encode L m"]
  by (auto simp: client_write_def split: prod.splits)

text \<open>What a read or a write leaves alone.\<close>

lemma client_write_cases:
  obtains ok w where "client_write L c m = (ok, c\<lparr>c_out := w\<rparr>)"
  by (cases "writeToSocket (c_sock c) (c_out c) (lib_encode L m)") (simp add: client_write_def)

lemma client_read_post [outcome_intros]:
  "(\<And>k msg. P (c\<lparr>c_in := k\<rparr>, msg)) \<Longrightarrow> post P (client_read L c)"
  by (auto simp: client_read_def post_def bind_outcome_eq_Ret Let_def split: if_splits option.splits)

section \<open>The calls as one step function\<close>

datatype client_op =
    Connect env string string
  | RegisterIp IpConfig
  | CommitIp
  | RetrievePeerInfo
  | RetrieveIpConfig
  | ReceiveTransaction
  | SendTransaction Transaction
  | SendTermination u64
  | SendLogout
  | Disconnect

fun client_call :: "lib \<Rightarrow> client_op \<Rightarrow> client \<Rightarrow> (client \<times> Status) outcome" where
  "client_call L (Connect E uri name) c =
     bind_outcome (RouterClient_connect L E uri name c) (\<lambda>(c', _, st). Ret (c', st))"
| "client_call L (RegisterIp cfg) c =
     bind_outcome (RouterClient_registerIp L cfg c) (\<lambda>(c', _, st). Ret (c', st))"
| "client_call L CommitIp c = RouterClient_commitIp L c"
| "client_call L RetrievePeerInfo c =
     bind_outcome (RouterClient_retrievePeerInfo L c) (\<lambda>(c', _, st). Ret (c', st))"
| "client_call L RetrieveIpConfig c =
     bind_outcome (RouterClient_retrieveIpConfig L c) (\<lambda>(c', _, st). Ret (c', st))"
| "client_call L ReceiveTransaction c =
     bind_outcome (RouterClient_receiveTransaction L c) (\<lambda>(c', _, st). Ret (c', st))"
| "client_call L (SendTransaction txn) c = Ret (RouterClient_sendTransaction L txn c)"
| "client_call L (SendTermination i) c = Ret (RouterClient_sendTermination L i c)"
| "client_call L SendLogout c = Ret (RouterClient_sendLogout L c)"
| "client_call L Disconnect c = Ret (RouterClient_disconnect c, status_ok)"

lemmas client_op_defs = RouterClient_connect_def RouterClient_registerIp_def
  RouterClient_commitIp_def RouterClient_retrievePeerInfo_def RouterClient_retrieveIpConfig_def
  RouterClient_receiveTransaction_def RouterClient_sendTransaction_def
  RouterClient_sendTermination_def RouterClient_sendLogout_def

text \<open>A run of calls, whatever each returns, as long as every one does return.\<close>

fun client_run :: "lib \<Rightarrow> client_op list \<Rightarrow> client \<Rightarrow> client outcome" where
  "client_run L [] c = Ret c"
| "client_run L (a # as) c = bind_outcome (client_call L a c) (\<lambda>(c', _). client_run L as c')"

text \<open>The state a call asks for, and the state it leads to when it succeeds for good.\<close>

fun requires :: "client_op \<Rightarrow> State option" where
  "requires (Connect _ _ _) = Some DISCONNECTED"
| "requires (RegisterIp _) = Some CONNECTED"
| "requires CommitIp = Some CONNECTED"
| "requires RetrievePeerInfo = Some COMMITTED"
| "requires RetrieveIpConfig = Some PEER_INFO_RECEIVED"
| "requires Disconnect = None"
| "requires _ = Some STARTED"

fun advance :: "client_op \<Rightarrow> State option" where
  "advance (Connect _ _ _) = Some CONNECTED"
| "advance CommitIp = Some COMMITTED"
| "advance RetrievePeerInfo = Some PEER_INFO_RECEIVED"
| "advance RetrieveIpConfig = Some STARTED"
| "advance SendLogout = Some LOGGED_OUT"
| "advance _ = None"

lemma wrong_state:
  "requires op = Some s \<Longrightarrow> c_state c \<noteq> s \<Longrightarrow> \<exists>msg. client_call L op c = Ret (c, mk_status 1 msg)"
  by (cases op) (auto simp: client_op_defs)

section \<open>One step of the connection\<close>

text \<open>
  \<open>torn c c'\<close>: \<open>c'\<close> is \<open>c\<close> after \<^verbatim>\<open>disconnect\<close>, but for the bytes read and written before.
\<close>

definition same_link :: "client \<Rightarrow> client \<Rightarrow> bool" where
  "same_link c c' \<longleftrightarrow> c_sock c' = c_sock c \<and> c_uri c' = c_uri c \<and> c_open c' = c_open c"

definition torn :: "client \<Rightarrow> client \<Rightarrow> bool" where
  "torn c c' \<longleftrightarrow> c_sock c' = -1 \<and> c_state c' = DISCONNECTED \<and> c_uri c' = ''''
     \<and> c_open c' = remove1 (c_sock c) (c_open c)"

lemma torn_disconnect [simp]:
  "c_sock c \<noteq> -1 \<Longrightarrow> torn c (RouterClient_disconnect (c\<lparr>c_out := w\<rparr>))"
  "c_sock c \<noteq> -1 \<Longrightarrow> torn c (RouterClient_disconnect (c\<lparr>c_in := k\<rparr>))"
  "c_sock c \<noteq> -1 \<Longrightarrow> torn c (RouterClient_disconnect (c\<lparr>c_out := w, c_in := k\<rparr>))"
  "c_sock c \<noteq> -1 \<Longrightarrow> torn c (RouterClient_disconnect c)"
  by (simp_all add: torn_def RouterClient_disconnect_def)

text \<open>
  The possible results of a call on an open connection: it is torn down with an error; or it stays,
  in the same state or, after a success, in the next one; and then an error means nothing was sent.
\<close>

definition link_step :: "client_op \<Rightarrow> client \<Rightarrow> client \<Rightarrow> Status \<Rightarrow> bool" where
  "link_step op c c' st \<longleftrightarrow>
     (torn c c' \<and> (isError st \<or> op = Disconnect))
     \<or> (same_link c c' \<and> (isError st \<longrightarrow> c_out c' = c_out c)
        \<and> (c_state c' = c_state c \<or> isOk st \<and> Some (c_state c) = requires op
             \<and> Some (c_state c') = advance op))"

lemma link_step_intros:
  "torn c c' \<Longrightarrow> isError st \<Longrightarrow> link_step op c c' st"
  "same_link c c' \<Longrightarrow> c_state c' = c_state c \<Longrightarrow> (isError st \<Longrightarrow> c_out c' = c_out c) \<Longrightarrow>
   link_step op c c' st"
  by (auto simp: link_step_def)

lemma link_step_registerIp:
  assumes "c_sock c \<noteq> -1"
  shows "post (\<lambda>(c', st). link_step (RegisterIp cfg) c c' st) (client_call L (RegisterIp cfg) c)"
proof (cases "wire_of_IpType (ip_type cfg)")
  case None
  then show ?thesis
    by (simp add: RouterClient_registerIp_def link_step_def same_link_def)
next
  case (Some t)
  obtain ok w where "client_write L c (registerIp_message cfg t) = (ok, c\<lparr>c_out := w\<rparr>)"
    by (rule client_write_cases)
  then show ?thesis
    using assms Some
    by (cases ok) (auto simp: RouterClient_registerIp_def link_step_def same_link_def
      intro!: client_read_post split: option.split)
qed

lemma link_step_commitIp:
  assumes "c_sock c \<noteq> -1"
  shows "post (\<lambda>(c', st). link_step CommitIp c c' st) (client_call L CommitIp c)"
proof -
  obtain ok w where "client_write L c (new_Message Type_COMMIT) = (ok, c\<lparr>c_out := w\<rparr>)"
    by (rule client_write_cases)
  then show ?thesis
    using assms
    by (cases ok) (auto simp: RouterClient_commitIp_def link_step_def same_link_def
      intro!: client_read_post split: option.split)
qed

lemma link_step_retrievePeerInfo:
  "c_sock c \<noteq> -1 \<Longrightarrow>
   post (\<lambda>(c', st). link_step RetrievePeerInfo c c' st) (client_call L RetrievePeerInfo c)"
  by (auto simp: RouterClient_retrievePeerInfo_def SystemInfo_of_message_def link_step_def
      same_link_def intro!: client_read_post split: option.split)

lemma link_step_retrieveIpConfig:
  "c_sock c \<noteq> -1 \<Longrightarrow>
   post (\<lambda>(c', st). link_step RetrieveIpConfig c c' st) (client_call L RetrieveIpConfig c)"
  by (auto simp: RouterClient_retrieveIpConfig_def IpConfig_of_message_def link_step_def
      same_link_def intro!: client_read_post split: option.split)

lemma link_step_receiveTransaction:
  "c_sock c \<noteq> -1 \<Longrightarrow>
   post (\<lambda>(c', st). link_step ReceiveTransaction c c' st) (client_call L ReceiveTransaction c)"
  by (auto simp: RouterClient_receiveTransaction_def Transaction_of_message_def link_step_def
      same_link_def intro!: client_read_post split: option.split)

lemma link_step_sendTransaction:
  assumes "c_sock c \<noteq> -1"
  shows "post (\<lambda>(c', st). link_step (SendTransaction txn) c c' st)
    (client_call L (SendTransaction txn) c)"
proof (cases "wire_of_TransactionType (txn_type txn)")
  case None
  then show ?thesis
    by (simp add: RouterClient_sendTransaction_def link_step_def same_link_def)
next
  case (Some t)
  obtain ok w where "client_write L c (Transaction_message txn t) = (ok, c\<lparr>c_out := w\<rparr>)"
    by (rule client_write_cases)
  then show ?thesis
    using assms Some
    by (cases ok) (auto simp: RouterClient_sendTransaction_def link_step_def same_link_def)
qed

lemma link_step_sendTermination:
  assumes "c_sock c \<noteq> -1"
  shows "post (\<lambda>(c', st). link_step (SendTermination i) c c' st)
    (client_call L (SendTermination i) c)"
proof -
  obtain ok w where
    "client_write L c ((new_Message Type_TERMINATE)\<lparr>wm_ipId := i\<rparr>) = (ok, c\<lparr>c_out := w\<rparr>)"
    by (rule client_write_cases)
  then show ?thesis
    using assms
    by (cases ok) (auto simp: RouterClient_sendTermination_def link_step_def same_link_def)
qed

lemma link_step_sendLogout:
  assumes "c_sock c \<noteq> -1"
  shows "post (\<lambda>(c', st). link_step SendLogout c c' st) (client_call L SendLogout c)"
proof -
  obtain ok w where "client_write L c (new_Message Type_DONE) = (ok, c\<lparr>c_out := w\<rparr>)"
    by (rule client_write_cases)
  then show ?thesis
    using assms
    by (cases ok) (auto simp: RouterClient_sendLogout_def link_step_def same_link_def)
qed

lemmas link_step_ops = link_step_registerIp link_step_commitIp link_step_sendLogout
  link_step_retrievePeerInfo link_step_retrieveIpConfig link_step_receiveTransaction
  link_step_sendTransaction link_step_sendTermination

lemma link_step_open:
  assumes "c_sock c \<noteq> -1" "c_state c \<noteq> DISCONNECTED"
  shows "post (\<lambda>(c', st). link_step op c c' st) (client_call L op c)"
proof (cases op)
  case (Connect E uri name)
  then show ?thesis
    using assms by (simp add: RouterClient_connect_def link_step_def same_link_def)
next
  case Disconnect
  then show ?thesis
    using assms by (simp add: link_step_def)
qed (simp_all only: link_step_ops [OF assms(1)])

text \<open>
  On a closed connection only \<^verbatim>\<open>connect\<close> does anything: it either leaves the client as it was, with
  an error, or opens the connection on the descriptor the system gave.
\<close>

definition closed :: "client \<Rightarrow> bool" where
  "closed c \<longleftrightarrow> c_sock c = -1 \<and> c_state c = DISCONNECTED \<and> c_uri c = ''''"

lemma closed_call:
  "closed c \<Longrightarrow> (\<And>E uri name. op \<noteq> Connect E uri name) \<Longrightarrow> \<exists>st. client_call L op c = Ret (c, st)"
  by (cases op) (auto simp: closed_def client_op_defs RouterClient_disconnect_def)

definition opened :: "string \<Rightarrow> int \<Rightarrow> client \<Rightarrow> client \<Rightarrow> bool" where
  "opened uri fd c c' \<longleftrightarrow> fd \<noteq> -1 \<and> c_sock c' = fd \<and> c_state c' = CONNECTED \<and> c_uri c' = uri
     \<and> c_open c' = fd # c_open c"

lemma closed_disconnect:
  "c_sock c = fd \<Longrightarrow> fd \<noteq> -1 \<Longrightarrow> c_open c = fd # fds \<Longrightarrow>
   closed (RouterClient_disconnect c) \<and> c_open (RouterClient_disconnect c) = fds"
  by (simp add: closed_def RouterClient_disconnect_def)

lemma closed_connect:
  assumes "closed c"
  shows "post (\<lambda>(c', info, st).
      closed c' \<and> c_open c' = c_open c \<and> info = None \<and> isError st
      \<or> opened uri (e_socket E) c c' \<and> info \<noteq> None \<and> isOk st) (RouterClient_connect L E uri name c)"
proof -
  let ?c = "c\<lparr>c_sock := e_socket E, c_open := e_socket E # c_open c, c_uri := uri, c_in := e_in E,
    c_out := \<lparr>wr_script = e_wr E, wr_sent = []\<rparr>\<rparr>"
  obtain ok w where w: "client_write L ?c (client_SystemInfo E name) = (ok, ?c\<lparr>c_out := w\<rparr>)"
    by (rule client_write_cases)
  show ?thesis
  proof (cases ok)
    case True
    with assms w show ?thesis
      by (auto simp: RouterClient_connect_def closed_def Let_def closed_disconnect
          SystemInfo_of_message_def opened_def intro!: client_read_post split: option.split)
        (auto simp: RouterClient_disconnect_def)
  next
    case False
    with assms w show ?thesis
      by (auto simp: RouterClient_connect_def closed_def Let_def RouterClient_disconnect_def)
  qed
qed

section \<open>Runs of the client\<close>

definition client_inv :: "int list \<Rightarrow> client \<Rightarrow> bool" where
  "client_inv fds c \<longleftrightarrow> closed c \<and> c_open c = fds
     \<or> c_sock c \<noteq> -1 \<and> c_state c \<noteq> DISCONNECTED \<and> c_open c = c_sock c # fds"

lemma client_inv_new: "client_inv fds (new_RouterClient fds)"
  by (simp add: client_inv_def new_RouterClient_def closed_def)

text \<open>A step that went well moves the connection along; any other keeps or ends it.\<close>

definition state_step :: "client_op \<Rightarrow> State \<Rightarrow> State \<Rightarrow> Status \<Rightarrow> bool" where
  "state_step op s s' st \<longleftrightarrow> s' = s \<or> s' = DISCONNECTED \<and> (isError st \<or> op = Disconnect)
     \<or> isOk st \<and> requires op = Some s \<and> advance op = Some s'"

lemma client_call_step:
  assumes "client_inv fds c" and call: "client_call L op c = Ret (c', st)"
  shows "client_inv fds c' \<and> state_step op (c_state c) (c_state c') st"
proof (cases "closed c")
  case False
  then have open_c: "c_sock c \<noteq> -1" "c_state c \<noteq> DISCONNECTED" "c_open c = c_sock c # fds"
    using assms(1) by (auto simp: client_inv_def)
  have "link_step op c c' st"
    using postD [OF link_step_open [OF open_c(1,2)] call] by simp
  moreover have "advance op \<noteq> Some DISCONNECTED"
    by (cases op) simp_all
  ultimately show ?thesis
    using open_c by (auto simp: link_step_def torn_def same_link_def client_inv_def closed_def
        state_step_def)
next
  case True
  then have cl: "c_state c = DISCONNECTED" "c_open c = fds"
    using assms(1) by (auto simp: client_inv_def closed_def)
  show ?thesis
  proof (cases "\<exists>E uri name. op = Connect E uri name")
    case False
    then show ?thesis
      using closed_call [of c op L] True assms by (auto simp: state_step_def)
  next
    case True
    then obtain E uri name where op: "op = Connect E uri name" by blast
    from call op obtain info where "RouterClient_connect L E uri name c = Ret (c', info, st)"
      by (auto simp: bind_outcome_eq_Ret)
    from postD [OF closed_connect [OF \<open>closed c\<close>] this] show ?thesis
      using cl op by (auto simp: client_inv_def opened_def closed_def state_step_def)
  qed
qed

lemma client_run_append:
  "client_run L (as @ bs) c = bind_outcome (client_run L as c) (client_run L bs)"
  by (induction as arbitrary: c) (simp_all add: bind_outcome_assoc case_prod_unfold)

text \<open>The states passed on the way to a state.\<close>

fun stages :: "State \<Rightarrow> State list" where
  "stages DISCONNECTED = []"
| "stages CONNECTED = [CONNECTED]"
| "stages COMMITTED = [CONNECTED, COMMITTED]"
| "stages PEER_INFO_RECEIVED = [CONNECTED, COMMITTED, PEER_INFO_RECEIVED]"
| "stages STARTED = [CONNECTED, COMMITTED, PEER_INFO_RECEIVED, STARTED]"
| "stages LOGGED_OUT = [CONNECTED, COMMITTED, PEER_INFO_RECEIVED, STARTED, LOGGED_OUT]"

lemma advance_rank:
  "requires op = Some s \<Longrightarrow> advance op = Some s' \<Longrightarrow> state_rank s' = Suc (state_rank s)"
  by (cases op) auto

lemma stages_advance:
  "requires op = Some s \<Longrightarrow> advance op = Some s' \<Longrightarrow> stages s' = stages s @ [s']"
  by (cases op) auto

lemma client_run_inv:
  "client_run L ops (new_RouterClient fds) = Ret c \<Longrightarrow>
   client_inv fds c \<and> subseq (map Some (stages (c_state c))) (map advance ops)"
proof (induction ops arbitrary: c rule: rev_induct)
  case Nil
  then show ?case
    using client_inv_new [of fds] by (auto simp: new_RouterClient_def)
next
  case (snoc op ops)
  then obtain c0 st where c0: "client_run L ops (new_RouterClient fds) = Ret c0"
    and call: "client_call L op c0 = Ret (c, st)"
    by (auto simp: client_run_append bind_outcome_eq_Ret)
  note IH = snoc.IH [OF c0]
  note step = client_call_step [OF conjunct1 [OF IH] call]
  have "subseq (map Some (stages (c_state c))) (map advance ops @ [advance op])"
  proof (cases "c_state c = c_state c0 \<or> c_state c = DISCONNECTED")
    case True
    then show ?thesis
      using IH by auto
  next
    case False
    then have adv: "requires op = Some (c_state c0)" "advance op = Some (c_state c)"
      using step by (auto simp: state_step_def)
    show ?thesis
      using IH by (simp add: stages_advance [OF adv] adv(2))
  qed
  with step show ?case by simp
qed

section \<open>Requests and responses\<close>

text \<open>A kernel that takes everything it is given makes every write succeed.\<close>

lemma client_write_accepting:
  assumes "c_sock c \<noteq> -1" "wr_script (c_out c) = []"
  shows "client_write L c m =
    (True, c\<lparr>c_out := (c_out c)\<lparr>wr_sent := wr_sent (c_out c) @ frame (lib_encode L m)\<rparr>\<rparr>)"
  using assms
  by (simp add: client_write_def writeToSocket_def sys_write_def write_loop.simps frame_def)

lemma incoming_out [simp]: "incoming L (c\<lparr>c_out := w\<rparr>) ms = incoming L c ms"
  by (simp add: incoming_def)

lemma incoming_state [simp]: "incoming L (c\<lparr>c_state := s\<rparr>) ms = incoming L c ms"
  by (simp add: incoming_def)

lemma incoming_in: "incoming L (c\<lparr>c_in := k\<rparr>) ms = framed k (map (lib_encode L) ms)"
  by (simp add: incoming_def)

lemma SystemInfo_of_client_message:
  "SystemInfo_of_message (client_SystemInfo E name) = Ret
     \<lparr>si_name = name, si_systemName = system_name E, si_pid = e_pid E, si_hostname = e_nodename E\<rparr>"
  by (simp add: SystemInfo_of_message_def client_SystemInfo_def)

lemma IpConfig_of_registerIp_message:
  assumes "wire_of_IpType (ip_type config) = Some t" "named_IpImplementation (ip_implementation config)"
  shows "IpConfig_of_message (registerIp_message config t) =
    Ret (Inr (config\<lparr>ip_firstInterrupt := 0, ip_numInterrupts := 0\<rparr>))"
  using assms IpType_of_wire_inverse [OF assms(1)] IpImplementation_of_wire_inverse [OF assms(2)]
  by (simp add: IpConfig_of_message_def registerIp_message_def)

lemma Transaction_of_Transaction_message:
  "wire_of_TransactionType (txn_type txn) = Some t \<Longrightarrow>
   Transaction_of_message (Transaction_message txn t) = Ret (Inr txn)"
  by (simp add: Transaction_of_message_def Transaction_message_def TransactionType_of_wire_inverse)

lemma receiveTransaction_incoming:
  assumes "codec L" "c_state c = STARTED" "c_sock c \<noteq> -1"
    and "wire_of_TransactionType (txn_type txn) = Some t"
    and "incoming L c (Transaction_message txn t # ms)"
  obtains k where "RouterClient_receiveTransaction L c = Ret (c\<lparr>c_in := k\<rparr>, Some txn, status_ok)"
    "incoming L (c\<lparr>c_in := k\<rparr>) ms"
proof -
  obtain k where k: "client_read L c = Ret (c\<lparr>c_in := k\<rparr>, Some (Transaction_message txn t))"
    "incoming L (c\<lparr>c_in := k\<rparr>) ms"
    using assms(1,3,5) by (rule client_read_incoming)
  have "wm_type (Transaction_message txn t) = Type_TRANSACTION"
    by (simp add: Transaction_message_def)
  with k show ?thesis
    using assms(2) Transaction_of_Transaction_message [OF assms(4)]
    by (intro that [of k]) (simp_all add: RouterClient_receiveTransaction_def)
qed

lemma sendTransaction_ok:
  assumes "isOk (snd (RouterClient_sendTransaction L txn c))"
  obtains t where "wire_of_TransactionType (txn_type txn) = Some t" "c_state c = STARTED"
    "wr_sent (c_out (fst (RouterClient_sendTransaction L txn c)))
       = wr_sent (c_out c) @ frame (lib_encode L (Transaction_message txn t))"
proof -
  have st: "c_state c = STARTED"
    using assms by (auto simp: RouterClient_sendTransaction_def split: if_splits)
  obtain t where t: "wire_of_TransactionType (txn_type txn) = Some t"
    using assms st by (auto simp: RouterClient_sendTransaction_def split: option.splits)
  have ok: "fst (client_write L c (Transaction_message txn t))"
    using assms st t by (auto simp: RouterClient_sendTransaction_def split: prod.splits bool.splits)
  then have "fst (RouterClient_sendTransaction L txn c)
      = snd (client_write L c (Transaction_message txn t))"
    using st t by (auto simp: RouterClient_sendTransaction_def split: prod.splits)
  with client_write_frame [OF ok] show ?thesis
    using t st that by simp
qed

section \<open>Calls that succeed\<close>

text \<open>The client after it has sent a message in full and read up to \<open>k\<close>.\<close>

definition sent_more :: "lib \<Rightarrow> wire_Message \<Rightarrow> rd_event list \<Rightarrow> client \<Rightarrow> client" where
  "sent_more L req k c =
     c\<lparr>c_out := (c_out c)\<lparr>wr_sent := wr_sent (c_out c) @ frame (lib_encode L req)\<rparr>, c_in := k\<rparr>"

text \<open>
  A source of frames, for the client: \<open>pending\<close> says what is still to be read. One instance is \<open>framed\<close>, which
  says what comes next, whatever comes after it; a stricter one says that nothing comes after it.
\<close>

locale client_source = frame_source readFromSocket pending
  for pending :: "rd_event list \<Rightarrow> u8 list list \<Rightarrow> bool"
begin

lemma client_read_pending:
  assumes "codec L" "c_sock c \<noteq> -1" "pending (c_in c) (map (lib_encode L) (m # ms))"
  obtains k where "client_read L c = Ret (c\<lparr>c_in := k\<rparr>, Some m)" "pending k (map (lib_encode L) ms)"
proof -
  obtain k where "readFromSocket (c_sock c) (c_in c) [] = Ret (0, lib_encode L m, k)"
    "pending k (map (lib_encode L) ms)"
    using rd_frame assms(2,3) by (metis list.simps(9))
  then show ?thesis
    using assms(1) that by (simp add: client_read_def)
qed

lemma connect_pending:
  assumes "codec L" "closed c" "path \<noteq> ''''" "e_socket E \<noteq> -1" "e_connect E (sun_path path)"
    and "e_wr E = []" "pending (e_in E) (map (lib_encode L) (m # ms))"
    and "wm_type m = Type_SYSTEM_INFO" "SystemInfo_of_message m = Ret si"
  obtains k where "RouterClient_connect L E (''unix://'' @ path) name c = Ret
      (c\<lparr>c_state := CONNECTED, c_uri := ''unix://'' @ path, c_sock := e_socket E, c_in := k,
         c_out := \<lparr>wr_script = [], wr_sent = frame (lib_encode L (client_SystemInfo E name))\<rparr>,
         c_open := e_socket E # c_open c\<rparr>, Some si, status_ok)"
    "pending k (map (lib_encode L) ms)"
proof -
  let ?c = "c\<lparr>c_sock := e_socket E, c_open := e_socket E # c_open c, c_uri := ''unix://'' @ path,
    c_in := e_in E, c_out := \<lparr>wr_script = e_wr E, wr_sent = []\<rparr>\<rparr>"
  let ?out = "\<lparr>wr_script = [], wr_sent = frame (lib_encode L (client_SystemInfo E name))\<rparr>"
  have w: "client_write L ?c (client_SystemInfo E name) = (True, ?c\<lparr>c_out := ?out\<rparr>)"
    using assms(4,6) by (simp add: client_write_accepting)
  have "pending (c_in (?c\<lparr>c_out := ?out\<rparr>)) (map (lib_encode L) (m # ms))"
    using assms(7) by simp
  then obtain k where k: "client_read L (?c\<lparr>c_out := ?out\<rparr>) = Ret (?c\<lparr>c_out := ?out, c_in := k\<rparr>, Some m)"
    "pending k (map (lib_encode L) ms)"
    using assms(1,4) by (elim client_read_pending [rotated 2]) auto
  have guard: "c_state c = DISCONNECTED" "\<not> length (''unix://'' @ path) < 8"
    "take 7 (''unix://'' @ path) = ''unix://''" "drop 7 (''unix://'' @ path) = path"
    using assms(2,3) by (cases path; simp add: closed_def)+
  have "RouterClient_connect L E (''unix://'' @ path) name c =
      Ret (?c\<lparr>c_out := ?out, c_in := k, c_state := CONNECTED\<rparr>, Some si, status_ok)"
    unfolding RouterClient_connect_def guard
    using assms(4,5,8,9) guard(1,2) w k(1) by simp
  then show ?thesis
    using k(2) by (intro that [of k]) simp_all
qed

text \<open>A request that goes out in full, and the answer to it.\<close>

lemma exchange_pending:
  assumes "codec L" "c_sock c \<noteq> -1" "wr_script (c_out c) = []" "pending (c_in c) (map (lib_encode L) (m # ms))"
  obtains k where
    "client_write L c req = (True, c\<lparr>c_out := (c_out c)\<lparr>wr_sent := wr_sent (c_out c)
       @ frame (lib_encode L req)\<rparr>\<rparr>)"
    "client_read L (c\<lparr>c_out := (c_out c)\<lparr>wr_sent := wr_sent (c_out c) @ frame (lib_encode L req)\<rparr>\<rparr>)
       = Ret (c\<lparr>c_out := (c_out c)\<lparr>wr_sent := wr_sent (c_out c) @ frame (lib_encode L req)\<rparr>,
                c_in := k\<rparr>, Some m)"
    "pending k (map (lib_encode L) ms)"
proof -
  let ?c = "c\<lparr>c_out := (c_out c)\<lparr>wr_sent := wr_sent (c_out c) @ frame (lib_encode L req)\<rparr>\<rparr>"
  have "c_sock ?c \<noteq> -1" "pending (c_in ?c) (map (lib_encode L) (m # ms))"
    using assms(2,4) by simp_all
  with assms(1) obtain k where "client_read L ?c = Ret (?c\<lparr>c_in := k\<rparr>, Some m)"
    "pending k (map (lib_encode L) ms)"
    by (rule client_read_pending)
  then show ?thesis
    using client_write_accepting [OF assms(2,3)] by (intro that [of k]) simp_all
qed

lemma registerIp_pending:
  assumes "codec L" "c_state c = CONNECTED" "c_sock c \<noteq> -1" "wr_script (c_out c) = []"
    and "wire_of_IpType (ip_type config) = Some t" "pending (c_in c) (map (lib_encode L) (m # ms))"
  obtains k where "pending k (map (lib_encode L) ms)"
    "wm_type m = Type_IP_ACK \<Longrightarrow> RouterClient_registerIp L config c =
       Ret (sent_more L (registerIp_message config t) k c, wm_ipId m, status_ok)"
    "wm_type m = Type_ERROR \<Longrightarrow> wm_errorMessage m = Some e \<Longrightarrow> RouterClient_registerIp L config c =
       Ret (RouterClient_disconnect (sent_more L (registerIp_message config t) k c), 0,
         mk_status 1 (''Cannot register IP '' @ ip_name config @ '': '' @ e))"
proof -
  obtain k where k:
    "client_write L c (registerIp_message config t) = (True, c\<lparr>c_out := (c_out c)
       \<lparr>wr_sent := wr_sent (c_out c) @ frame (lib_encode L (registerIp_message config t))\<rparr>\<rparr>)"
    "client_read L (c\<lparr>c_out := (c_out c)
       \<lparr>wr_sent := wr_sent (c_out c) @ frame (lib_encode L (registerIp_message config t))\<rparr>\<rparr>)
       = Ret (c\<lparr>c_out := (c_out c)
           \<lparr>wr_sent := wr_sent (c_out c) @ frame (lib_encode L (registerIp_message config t))\<rparr>,
           c_in := k\<rparr>, Some m)"
    "pending k (map (lib_encode L) ms)"
    using assms(1,3,4,6) by (rule exchange_pending)
  show ?thesis
    using assms(2,5) k(1,2)
    by (intro that [of k] k(3)) (simp_all add: RouterClient_registerIp_def sent_more_def)
qed

lemma commitIp_pending:
  assumes "codec L" "c_state c = CONNECTED" "c_sock c \<noteq> -1" "wr_script (c_out c) = []"
    and "pending (c_in c) (map (lib_encode L) (m # ms))" "wm_type m = Type_ACK"
  obtains k where "pending k (map (lib_encode L) ms)"
    "RouterClient_commitIp L c =
       Ret ((sent_more L (new_Message Type_COMMIT) k c)\<lparr>c_state := COMMITTED\<rparr>, status_ok)"
proof -
  obtain k where k:
    "client_write L c (new_Message Type_COMMIT) = (True, c\<lparr>c_out := (c_out c)
       \<lparr>wr_sent := wr_sent (c_out c) @ frame (lib_encode L (new_Message Type_COMMIT))\<rparr>\<rparr>)"
    "client_read L (c\<lparr>c_out := (c_out c)
       \<lparr>wr_sent := wr_sent (c_out c) @ frame (lib_encode L (new_Message Type_COMMIT))\<rparr>\<rparr>)
       = Ret (c\<lparr>c_out := (c_out c)
           \<lparr>wr_sent := wr_sent (c_out c) @ frame (lib_encode L (new_Message Type_COMMIT))\<rparr>,
           c_in := k\<rparr>, Some m)"
    "pending k (map (lib_encode L) ms)"
    using assms(1,3,4,5) by (rule exchange_pending)
  show ?thesis
    using assms(2,6) k(1,2)
    by (intro that [of k] k(3)) (simp_all add: RouterClient_commitIp_def sent_more_def)
qed

end

section \<open>The two listings of the handshake\<close>

text \<open>A message that announces a peer or an IP block.\<close>

definition announces_peer :: "wire_Message \<Rightarrow> SystemInfo \<Rightarrow> bool" where
  "announces_peer m si \<longleftrightarrow> wm_type m = Type_SYSTEM_INFO \<and> SystemInfo_of_message m = Ret si"

definition announces_ip :: "wire_Message \<Rightarrow> IpConfig \<Rightarrow> bool" where
  "announces_ip m ip \<longleftrightarrow> wm_type m = Type_IP_INFO \<and> IpConfig_of_message m = Ret (Inr ip)"

text \<open>
  The client \<open>c\<close> is \<open>b\<close> but for the state and what is left to read, which is announcements of \<open>xs\<close>,
  an ACK, and \<open>rest\<close>.
\<close>

fun listed_on :: "(rd_event list \<Rightarrow> u8 list list \<Rightarrow> bool) \<Rightarrow> lib \<Rightarrow> State \<Rightarrow> (wire_Message \<Rightarrow> 'a \<Rightarrow> bool) \<Rightarrow> client \<times> wire_Message list
    \<Rightarrow> client \<Rightarrow> 'a list \<Rightarrow> bool" where
  "listed_on P L s announces (b, rest) c xs \<longleftrightarrow>
     codec L \<and> c_sock b \<noteq> -1 \<and> c = b\<lparr>c_state := s, c_in := c_in c\<rparr>
     \<and> (\<exists>ms ack. list_all2 announces ms xs \<and> wm_type ack = Type_ACK
          \<and> P (c_in c) (map (lib_encode L) (ms @ ack # rest)))"

fun left_on :: "(rd_event list \<Rightarrow> u8 list list \<Rightarrow> bool) \<Rightarrow> lib \<Rightarrow> State \<Rightarrow> client \<times> wire_Message list \<Rightarrow> client \<Rightarrow> bool" where
  "left_on P L s (b, rest) c \<longleftrightarrow> c = b\<lparr>c_state := s, c_in := c_in c\<rparr> \<and> P (c_in c) (map (lib_encode L) rest)"

context client_source
begin

lemma listed_on_Nil:
  assumes "listed_on pending L s announces (b, rest) c []"
  obtains ack k where "wm_type ack = Type_ACK" "client_read L c = Ret (c\<lparr>c_in := k\<rparr>, Some ack)"
    "c_state c = s" "left_on pending L s' (b, rest) (c\<lparr>c_in := k, c_state := s'\<rparr>)"
proof -
  have b: "codec L" "c_sock b \<noteq> -1" "c = b\<lparr>c_state := s, c_in := c_in c\<rparr>"
    using assms by auto
  obtain ack where ack: "wm_type ack = Type_ACK" "pending (c_in c) (map (lib_encode L) (ack # rest))"
    using assms by auto
  have "c_sock c \<noteq> -1"
    by (subst b(3)) (simp add: b(2))
  with b(1) obtain k where k: "client_read L c = Ret (c\<lparr>c_in := k\<rparr>, Some ack)"
    "pending k (map (lib_encode L) rest)"
    using ack(2) by (rule client_read_pending)
  have "c\<lparr>c_in := k, c_state := s'\<rparr> = b\<lparr>c_state := s', c_in := k\<rparr>"
    by (subst b(3)) simp
  moreover have "c_state c = s"
    by (subst b(3)) simp
  ultimately show ?thesis
    using ack(1) k by (intro that [of ack k]) simp_all
qed

lemma listed_on_Cons:
  assumes "listed_on pending L s announces (b, rest) c (x # xs)"
  obtains m k where "announces m x" "client_read L c = Ret (c\<lparr>c_in := k\<rparr>, Some m)"
    "c_state c = s" "listed_on pending L s announces (b, rest) (c\<lparr>c_in := k\<rparr>) xs"
proof -
  have b: "codec L" "c_sock b \<noteq> -1" "c = b\<lparr>c_state := s, c_in := c_in c\<rparr>"
    using assms by auto
  obtain m ms ack where ms: "announces m x" "list_all2 announces ms xs" "wm_type ack = Type_ACK"
    "pending (c_in c) (map (lib_encode L) (m # ms @ ack # rest))"
    using assms by (auto simp: list_all2_Cons2)
  have "c_sock c \<noteq> -1"
    by (subst b(3)) (simp add: b(2))
  with b(1) obtain k where k: "client_read L c = Ret (c\<lparr>c_in := k\<rparr>, Some m)"
    "pending k (map (lib_encode L) (ms @ ack # rest))"
    using ms(4) by (rule client_read_pending)
  have "c\<lparr>c_in := k\<rparr> = b\<lparr>c_state := s, c_in := k\<rparr>"
    by (subst b(3)) simp
  moreover have "c_state c = s"
    by (subst b(3)) simp
  ultimately show ?thesis
    using ms b(1,2) k by (intro that [of m k]) auto
qed

end

text \<open>Every message that is read shortens what is left before the next error.\<close>

lemma client_read_progress:
  assumes "client_read L c = Ret (c', Some m)"
  shows "length (kbytes (c_in c')) < length (kbytes (c_in c))"
proof -
  obtain data where rd: "readFromSocket (c_sock c) (c_in c) [] = Ret (0, data, c_in c')"
    using assms
    by (auto simp: client_read_def bind_outcome_eq_Ret Let_def readFromSocket_def
        split: if_splits option.splits prod.splits rd_result.splits)
  have "c_sock c \<noteq> -1"
    using rd by (auto simp: readFromSocket_def)
  with rd have long: "8 \<le> head_len (c_in c)"
    and k: "\<exists>n. kdrop (8 + n) (c_in c) = c_in c' \<and> n \<le> length (drop 8 (kbytes (c_in c)))"
    by (auto simp: readFromSocket_eq Let_def split: if_splits)
  from long have "8 \<le> length (kbytes (c_in c))"
    by (rule sys_read_whole_header)
  with k obtain n where "kdrop (8 + n) (c_in c) = c_in c'" "8 + n \<le> length (kbytes (c_in c))"
    by auto
  then show ?thesis
    using kbytes_kdrop [of "8 + n" "c_in c"] by simp
qed

lemma retrievePeerInfo_progress:
  assumes "RouterClient_retrievePeerInfo L c = Ret (c', Some x, st)"
  shows "length (kbytes (c_in c')) < length (kbytes (c_in c))"
proof -
  have "post (\<lambda>(c', x, st). x \<noteq> None \<longrightarrow> (\<exists>m. client_read L c = Ret (c', Some m)))
      (RouterClient_retrievePeerInfo L c)"
    by (cases "client_read L c")
      (auto simp: RouterClient_retrievePeerInfo_def SystemInfo_of_message_def split: option.split)
  from postD [OF this assms] show ?thesis
    using client_read_progress by auto
qed

lemma retrieveIpConfig_progress:
  assumes "RouterClient_retrieveIpConfig L c = Ret (c', Some x, st)"
  shows "length (kbytes (c_in c')) < length (kbytes (c_in c))"
proof -
  have "post (\<lambda>(c', x, st). x \<noteq> None \<longrightarrow> (\<exists>m. client_read L c = Ret (c', Some m)))
      (RouterClient_retrieveIpConfig L c)"
    by (cases "client_read L c")
      (auto simp: RouterClient_retrieveIpConfig_def IpConfig_of_message_def split: option.split)
  from postD [OF this assms] show ?thesis
    using client_read_progress by auto
qed

sublocale client_source \<subseteq> peers: finite_listing "RouterClient_retrievePeerInfo L"
  "listed_on pending L COMMITTED announces_peer" "left_on pending L PEER_INFO_RECEIVED"
  "\<lambda>c. length (kbytes (c_in c))" for L
proof unfold_locales
  fix r c x xs
  assume "listed_on pending L COMMITTED announces_peer r c (x # xs)"
  then show "\<exists>c'. RouterClient_retrievePeerInfo L c = Ret (c', Some x, status_ok)
      \<and> listed_on pending L COMMITTED announces_peer r c' xs"
    by (cases r) (auto simp: RouterClient_retrievePeerInfo_def announces_peer_def
        simp del: listed_on.simps elim!: listed_on_Cons)
next
  fix r c
  assume "listed_on pending L COMMITTED announces_peer r c []"
  then show "\<exists>c'. RouterClient_retrievePeerInfo L c = Ret (c', None, status_ok)
      \<and> left_on pending L PEER_INFO_RECEIVED r c'"
    by (cases r) (auto simp: RouterClient_retrievePeerInfo_def
        simp del: listed_on.simps left_on.simps
        elim!: listed_on_Nil [where s' = PEER_INFO_RECEIVED])
qed (rule retrievePeerInfo_progress)

sublocale client_source \<subseteq> ips: finite_listing "RouterClient_retrieveIpConfig L"
  "listed_on pending L PEER_INFO_RECEIVED announces_ip" "left_on pending L STARTED"
  "\<lambda>c. length (kbytes (c_in c))" for L
proof unfold_locales
  fix r c x xs
  assume "listed_on pending L PEER_INFO_RECEIVED announces_ip r c (x # xs)"
  then show "\<exists>c'. RouterClient_retrieveIpConfig L c = Ret (c', Some x, status_ok)
      \<and> listed_on pending L PEER_INFO_RECEIVED announces_ip r c' xs"
    by (cases r) (auto simp: RouterClient_retrieveIpConfig_def announces_ip_def
        simp del: listed_on.simps elim!: listed_on_Cons)
next
  fix r c
  assume "listed_on pending L PEER_INFO_RECEIVED announces_ip r c []"
  then show "\<exists>c'. RouterClient_retrieveIpConfig L c = Ret (c', None, status_ok)
      \<and> left_on pending L STARTED r c'"
    by (cases r) (auto simp: RouterClient_retrieveIpConfig_def
        simp del: listed_on.simps left_on.simps elim!: listed_on_Nil [where s' = STARTED])
qed (rule retrieveIpConfig_progress)

text \<open>The instance for frames that come next.\<close>

interpretation fr: client_source framed
  by unfold_locales

lemmas connect_incoming = fr.connect_pending
lemmas exchange_incoming = fr.exchange_pending [folded incoming_def]
lemmas registerIp_incoming = fr.registerIp_pending [folded incoming_def]
lemmas commitIp_incoming = fr.commitIp_pending [folded incoming_def]

end
