(* ===== verification/Codec_Example.thy ===== *)
theory Codec_Example
  imports Wire
begin

text \<open>
  A concrete encoder and decoder of messages that meet the contract \<open>codec\<close>. It is not the FlatBuffers
  format and models no code of the repository: the hypothesis \<open>codec L\<close> of the theorems is instantiated
  with it in their concrete instances, which shows that it can hold.
\<close>

type_synonym 'a reader = "u8 list \<Rightarrow> ('a \<times> u8 list) option"

definition reads :: "('a \<Rightarrow> u8 list) \<Rightarrow> 'a reader \<Rightarrow> bool" where
  "reads e d \<longleftrightarrow> (\<forall>x r. d (e x @ r) = Some (x, r))"

section \<open>Scalars, byte strings, options\<close>

definition enc_word :: "nat \<Rightarrow> 'a::len word \<Rightarrow> u8 list" where
  "enc_word n w = le_bytes n (unat w)"

definition dec_word :: "nat \<Rightarrow> 'a::len word reader" where
  "dec_word n bs = (if length bs < n then None else Some (of_nat (le_value (take n bs)), drop n bs))"

lemma dec_enc_word:
  assumes "LENGTH('a::len) \<le> 8 * n"
  shows "reads (enc_word n :: 'a word \<Rightarrow> u8 list) (dec_word n)"
proof -
  have "unat (w :: 'a word) < 256 ^ n" for w
  proof -
    have "unat w < 2 ^ LENGTH('a)"
      by (rule unsigned_less)
    also have "(2 :: nat) ^ LENGTH('a) \<le> 2 ^ (8 * n)"
      using assms by (intro power_increasing) simp_all
    also have "(2 :: nat) ^ (8 * n) = 256 ^ n"
      by (simp add: power_mult)
    finally show ?thesis .
  qed
  then show ?thesis
    by (simp add: reads_def enc_word_def dec_word_def le_value_le_bytes)
qed

definition enc_bool :: "bool \<Rightarrow> u8 list" where
  "enc_bool b = [if b then 1 else 0]"

definition dec_bool :: "bool reader" where
  "dec_bool bs = (case bs of [] \<Rightarrow> None | b # r \<Rightarrow> Some (b \<noteq> 0, r))"

fun enc_bytes :: "u8 list \<Rightarrow> u8 list" where
  "enc_bytes [] = [0]"
| "enc_bytes (x # xs) = 1 # x # enc_bytes xs"

fun dec_bytes :: "u8 list reader" where
  "dec_bytes (b # x # bs) =
     (if b = 0 then Some ([], x # bs)
      else map_option (\<lambda>(xs, r). (x # xs, r)) (dec_bytes bs))"
| "dec_bytes [b] = (if b = 0 then Some ([], []) else None)"
| "dec_bytes [] = None"

definition enc_string :: "string \<Rightarrow> u8 list" where
  "enc_string s = enc_bytes (map (\<lambda>c. of_nat (of_char c)) s)"

definition dec_string :: "string reader" where
  "dec_string bs = map_option (\<lambda>(xs, r). (map (\<lambda>b. char_of (unat b)) xs, r)) (dec_bytes bs)"

definition enc_option :: "('a \<Rightarrow> u8 list) \<Rightarrow> 'a option \<Rightarrow> u8 list" where
  "enc_option e p = (case p of None \<Rightarrow> [0] | Some x \<Rightarrow> 1 # e x)"

definition dec_option :: "'a reader \<Rightarrow> 'a option reader" where
  "dec_option d bs = (case bs of [] \<Rightarrow> None
     | b # r \<Rightarrow> if b = 0 then Some (None, r) else map_option (\<lambda>(x, r). (Some x, r)) (d r))"

lemma dec_enc_bool: "reads enc_bool dec_bool"
  by (simp add: reads_def enc_bool_def dec_bool_def)

lemma dec_enc_bytes: "reads enc_bytes dec_bytes"
proof -
  have "dec_bytes (enc_bytes xs @ r) = Some (xs, r)" for xs r
  proof (induction xs)
    case Nil
    show ?case by (cases r) simp_all
  qed simp
  then show ?thesis by (simp add: reads_def)
qed

lemma char_of_byte: "char_of (unat (of_nat (of_char c) :: u8)) = c"
proof -
  have "(of_char c :: nat) < 256" by (rule nat_of_char_less_256)
  then have "unat (of_nat (of_char c) :: u8) = of_char c"
    by (simp add: unat_of_nat)
  then show ?thesis by simp
qed

lemma dec_enc_string: "reads enc_string dec_string"
  using dec_enc_bytes by (simp add: reads_def enc_string_def dec_string_def char_of_byte comp_def)

lemma dec_enc_option: "reads e d \<Longrightarrow> reads (enc_option e) (dec_option d)"
  by (simp add: reads_def enc_option_def dec_option_def split: option.split)

section \<open>Sequences\<close>

definition enc_pair :: "('a \<Rightarrow> u8 list) \<Rightarrow> ('b \<Rightarrow> u8 list) \<Rightarrow> 'a \<times> 'b \<Rightarrow> u8 list" where
  "enc_pair e f p = e (fst p) @ f (snd p)"

definition dec_pair :: "'a reader \<Rightarrow> 'b reader \<Rightarrow> ('a \<times> 'b) reader" where
  "dec_pair d f bs = Option.bind (d bs) (\<lambda>(x, r). map_option (\<lambda>(y, r'). ((x, y), r')) (f r))"

lemma dec_enc_pair: "reads e d \<Longrightarrow> reads e' d' \<Longrightarrow> reads (enc_pair e e') (dec_pair d d')"
  by (simp add: reads_def enc_pair_def dec_pair_def)

definition dec_map :: "('a \<Rightarrow> 'b) \<Rightarrow> 'a reader \<Rightarrow> 'b reader" where
  "dec_map f d bs = map_option (\<lambda>(x, r). (f x, r)) (d bs)"

lemma dec_enc_map: "reads e d \<Longrightarrow> (\<And>x. f (g x) = x) \<Longrightarrow> reads (\<lambda>x. e (g x)) (dec_map f d)"
  by (simp add: reads_def dec_map_def)

section \<open>Tables\<close>

definition enc_SystemInfo :: "wire_SystemInfo \<Rightarrow> u8 list" where
  "enc_SystemInfo s = enc_pair (enc_option enc_string) (enc_pair (enc_option enc_string)
     (enc_pair (enc_word 8) (enc_option enc_string)))
     (ws_name s, ws_systemName s, ws_pid s, ws_hostname s)"

definition dec_SystemInfo :: "wire_SystemInfo reader" where
  "dec_SystemInfo = dec_map
     (\<lambda>(a, b, c, d). \<lparr>ws_name = a, ws_systemName = b, ws_pid = c, ws_hostname = d\<rparr>)
     (dec_pair (dec_option dec_string) (dec_pair (dec_option dec_string)
       (dec_pair (dec_word 8) (dec_option dec_string))))"

definition enc_IpInfo :: "wire_IpInfo \<Rightarrow> u8 list" where
  "enc_IpInfo i = enc_pair (enc_option enc_string) (enc_pair (enc_word 8) (enc_pair (enc_word 8)
     (enc_pair (enc_word 2) (enc_pair (enc_word 2) (enc_pair (enc_word 1) (enc_word 1))))))
     (wi_name i, wi_address i, wi_size i, wi_firstInterrupt i, wi_numInterrupts i, wi_type i,
      wi_implementation i)"

definition dec_IpInfo :: "wire_IpInfo reader" where
  "dec_IpInfo = dec_map
     (\<lambda>(a, b, c, d, e, f, g). \<lparr>wi_name = a, wi_address = b, wi_size = c, wi_firstInterrupt = d,
        wi_numInterrupts = e, wi_type = f, wi_implementation = g\<rparr>)
     (dec_pair (dec_option dec_string) (dec_pair (dec_word 8) (dec_pair (dec_word 8)
       (dec_pair (dec_word 2) (dec_pair (dec_word 2) (dec_pair (dec_word 1) (dec_word 1)))))))"

definition enc_Transaction :: "wire_Transaction \<Rightarrow> u8 list" where
  "enc_Transaction t = enc_pair (enc_word 1) (enc_pair (enc_word 8) (enc_pair (enc_word 8)
     (enc_pair (enc_word 8) (enc_pair (enc_word 8) (enc_pair (enc_word 8)
     (enc_pair (enc_option enc_bytes) (enc_pair enc_bool (enc_option enc_string))))))))
     (wt_type t, wt_initiator t, wt_target t, wt_id t, wt_address t, wt_size t, wt_data t,
      wt_ok t, wt_message t)"

definition dec_Transaction :: "wire_Transaction reader" where
  "dec_Transaction = dec_map
     (\<lambda>(a, b, c, d, e, f, g, h, i). \<lparr>wt_type = a, wt_initiator = b, wt_target = c, wt_id = d,
        wt_address = e, wt_size = f, wt_data = g, wt_ok = h, wt_message = i\<rparr>)
     (dec_pair (dec_word 1) (dec_pair (dec_word 8) (dec_pair (dec_word 8)
       (dec_pair (dec_word 8) (dec_pair (dec_word 8) (dec_pair (dec_word 8)
       (dec_pair (dec_option dec_bytes) (dec_pair dec_bool (dec_option dec_string)))))))))"

definition enc_Message :: "wire_Message \<Rightarrow> u8 list" where
  "enc_Message m = enc_pair (enc_word 1) (enc_pair (enc_option enc_SystemInfo)
     (enc_pair (enc_option enc_IpInfo) (enc_pair (enc_word 8) (enc_pair (enc_option enc_string)
     (enc_option enc_Transaction)))))
     (wm_type m, wm_systemInfo m, wm_ipInfo m, wm_ipId m, wm_errorMessage m, wm_txn m)"

definition dec_Message :: "wire_Message reader" where
  "dec_Message = dec_map
     (\<lambda>(a, b, c, d, e, f). \<lparr>wm_type = a, wm_systemInfo = b, wm_ipInfo = c, wm_ipId = d,
        wm_errorMessage = e, wm_txn = f\<rparr>)
     (dec_pair (dec_word 1) (dec_pair (dec_option dec_SystemInfo)
       (dec_pair (dec_option dec_IpInfo) (dec_pair (dec_word 8) (dec_pair (dec_option dec_string)
       (dec_option dec_Transaction))))))"

lemmas dec_enc_basic = dec_enc_word dec_enc_bool dec_enc_bytes dec_enc_string dec_enc_option
  dec_enc_pair

lemma dec_enc_SystemInfo: "reads enc_SystemInfo dec_SystemInfo"
  unfolding enc_SystemInfo_def dec_SystemInfo_def
  by (intro dec_enc_map dec_enc_basic) simp_all

lemma dec_enc_IpInfo: "reads enc_IpInfo dec_IpInfo"
  unfolding enc_IpInfo_def dec_IpInfo_def
  by (intro dec_enc_map dec_enc_basic) simp_all

lemma dec_enc_Transaction: "reads enc_Transaction dec_Transaction"
  unfolding enc_Transaction_def dec_Transaction_def
  by (intro dec_enc_map dec_enc_basic) simp_all

lemma dec_enc_Message: "reads enc_Message dec_Message"
  unfolding enc_Message_def dec_Message_def
  by (intro dec_enc_map dec_enc_basic dec_enc_SystemInfo dec_enc_IpInfo dec_enc_Transaction) simp_all

section \<open>The instance\<close>

definition example_lib :: lib where
  "example_lib = \<lparr>lib_encode = enc_Message, lib_decode = (\<lambda>bs. map_option fst (dec_Message bs)),
     lib_show_type = (\<lambda>t. [char_of (48 + unat t)]), lib_strerror = ''Broken pipe''\<rparr>"

lemma codec_example_lib: "codec example_lib"
proof -
  have "dec_Message (enc_Message m) = Some (m, [])" for m
    using dec_enc_Message by (metis append_Nil2 reads_def)
  then show ?thesis
    by (simp add: codec_def example_lib_def)
qed

text \<open>The sizes of encodings.\<close>

lemma length_enc_bytes [simp]: "length (enc_bytes xs) = 1 + 2 * length xs"
  by (induction xs) simp_all

lemma length_enc_simps [simp]:
  "length (enc_word n w) = n" "length (enc_bool b) = 1"
  "length (enc_string s) = 1 + 2 * length s"
  "length (enc_option e None) = 1" "length (enc_option e (Some x)) = 1 + length (e x)"
  "length (enc_pair e f (x, y)) = length (e x) + length (f y)"
  by (simp_all add: enc_word_def enc_bool_def enc_string_def enc_option_def enc_pair_def)

lemmas enc_sizes = enc_Message_def enc_SystemInfo_def enc_IpInfo_def enc_Transaction_def

end
