(* ===== verification/Client_Properties.thy ===== *)
theory Client_Properties
  imports Router_Client Codec_Example
begin

text \<open>
  The properties of the router client (\<^verbatim>\<open>src/common/RouterClient.cc\<close>), with concrete instances in which
  the encoder and decoder are those of \<open>Codec_Example\<close>.
\<close>

section \<open>A connection for the instances\<close>

text \<open>A stream that brings all its bytes in one chunk.\<close>

definition one_chunk :: "u8 list \<Rightarrow> rd_event list" where
  "one_chunk bs = (case bs of [] \<Rightarrow> [] | b # bs' \<Rightarrow> [Chunk b bs'])"

lemma kbytes_one_chunk [simp]: "kbytes (one_chunk bs) = bs"
  by (simp add: one_chunk_def split: list.split)

lemma head_len_one_chunk [simp]: "head_len (one_chunk bs) = length bs"
  by (simp add: one_chunk_def head_len_def split: list.split)

lemma kdrop_one_chunk [simp]: "kdrop n (one_chunk bs) = one_chunk (drop n bs)"
  by (cases bs) (auto simp: one_chunk_def split: list.split)

lemma framed_one_chunk:
  "\<forall>p \<in> set ps. length p \<le> vector_max_size \<Longrightarrow> framed (one_chunk (concat (map frame ps))) ps"
  by (induction ps) simp_all

definition example_messages :: "wire_Message list \<Rightarrow> rd_event list" where
  "example_messages ms = one_chunk (concat (map (\<lambda>m. frame (enc_Message m)) ms))"

lemma framed_example_messages:
  "\<forall>m \<in> set ms. length (enc_Message m) \<le> vector_max_size \<Longrightarrow>
   framed (example_messages ms) (map (lib_encode example_lib) ms)"
  using framed_one_chunk [of "map enc_Message ms"]
  by (simp add: example_messages_def example_lib_def comp_def)

definition example_client :: "State \<Rightarrow> wire_Message list \<Rightarrow> client" where
  "example_client s ms = \<lparr>c_state = s, c_uri = ''unix:///tmp/sw-axi'', c_sock = 3,
     c_in = example_messages ms, c_out = \<lparr>wr_script = [], wr_sent = []\<rparr>, c_open = [3], c_lost = 0\<rparr>"

lemma incoming_example_client:
  "\<forall>m \<in> set ms. length (enc_Message m) \<le> vector_max_size \<Longrightarrow>
   incoming example_lib (example_client s ms) ms"
  by (simp add: incoming_def example_client_def framed_example_messages)

definition example_env :: "wire_Message list \<Rightarrow> env" where
  "example_env ms = \<lparr>e_socket = 3, e_connect = (\<lambda>p. True), e_in = example_messages ms, e_wr = [],
     e_sysname = ''Linux'', e_nodename = ''host'', e_pid = 42, e_sim_id = None\<rparr>"

section \<open>Concrete instances of the run properties\<close>

definition example_router :: SystemInfo where
  "example_router = \<lparr>si_name = ''router'', si_systemName = ''Linux Golang'', si_pid = 7,
     si_hostname = ''host''\<rparr>"

definition example_info :: wire_Message where
  "example_info = (new_Message Type_SYSTEM_INFO)\<lparr>wm_systemInfo := Some
     \<lparr>ws_name = Some ''router'', ws_systemName = Some ''Linux Golang'', ws_pid = 7,
      ws_hostname = Some ''host''\<rparr>\<rparr>"

lemma example_info_simps:
  "wm_type example_info = Type_SYSTEM_INFO"
  "SystemInfo_of_message example_info = Ret example_router"
  "length (enc_Message example_info) \<le> vector_max_size"
  "length (enc_Message (new_Message t)) \<le> vector_max_size"
  by (simp_all add: example_info_def example_router_def SystemInfo_of_message_def enc_sizes
      vector_max_size_def new_Message_def)

abbreviation example_connect :: "wire_Message list \<Rightarrow> client_op" where
  "example_connect ms \<equiv> Connect (example_env (example_info # ms)) (''unix://'' @ ''/tmp/sw-axi'') ''app''"

lemma example_connected:
  assumes "\<forall>m \<in> set ms. length (enc_Message m) \<le> vector_max_size"
  obtains c where "client_run example_lib [example_connect ms] (new_RouterClient []) = Ret c"
    "c_state c = CONNECTED" "c_sock c = 3" "c_open c = [3]" "wr_script (c_out c) = []"
    "incoming example_lib c ms"
proof -
  let ?E = "example_env (example_info # ms)"
  have E: "e_socket ?E \<noteq> -1" "e_connect ?E (sun_path ''/tmp/sw-axi'')" "e_wr ?E = []"
    "closed (new_RouterClient [])" "''/tmp/sw-axi'' \<noteq> ''''"
    by (simp_all add: example_env_def new_RouterClient_def closed_def)
  have f: "framed (e_in ?E) (map (lib_encode example_lib) (example_info # ms))"
    using assms by (simp only: example_env_def env.simps)
      (intro framed_example_messages, simp add: example_info_simps)
  let ?c = "\<lambda>k. (new_RouterClient [])\<lparr>c_state := CONNECTED, c_uri := ''unix://'' @ ''/tmp/sw-axi'',
    c_sock := e_socket ?E, c_in := k, c_out := \<lparr>wr_script = [],
      wr_sent = frame (lib_encode example_lib (client_SystemInfo ?E ''app''))\<rparr>,
    c_open := e_socket ?E # c_open (new_RouterClient [])\<rparr>"
  obtain k where "RouterClient_connect example_lib ?E (''unix://'' @ ''/tmp/sw-axi'') ''app''
      (new_RouterClient []) = Ret (?c k, Some example_router, status_ok)"
    "framed k (map (lib_encode example_lib) ms)"
    by (rule connect_incoming [OF codec_example_lib E(4,5,1,2,3) f example_info_simps(1,2)])
  then show ?thesis
    by (intro that [of "?c k"]) (simp_all add: example_env_def new_RouterClient_def incoming_def)
qed

lemma client_write_uri:
  "client_write L (c\<lparr>c_uri := u\<rparr>) m = map_prod id (\<lambda>c. c\<lparr>c_uri := u\<rparr>) (client_write L c m)"
  by (simp add: client_write_def split: prod.split)

lemma client_read_uri:
  "client_read L (c\<lparr>c_uri := u\<rparr>) =
     bind_outcome (client_read L c) (\<lambda>(c', msg). Ret (c'\<lparr>c_uri := u\<rparr>, msg))"
  by (cases "readFromSocket (c_sock c) (c_in c) []")
    (auto simp: client_read_def Let_def split: option.split)

lemma connect_Some:
  assumes "RouterClient_connect L E uri name c = Ret (c', Some si, st)"
  obtains c4 c5 m where "c_state c = DISCONNECTED" "\<not> length uri < 8" "take 7 uri = ''unix://''"
    "e_socket E \<noteq> -1" "e_connect E (sun_path (drop 7 uri))"
    "client_write L (c\<lparr>c_sock := e_socket E, c_open := e_socket E # c_open c, c_uri := uri,
       c_in := e_in E, c_out := \<lparr>wr_script = e_wr E, wr_sent = []\<rparr>\<rparr>) (client_SystemInfo E name)
     = (True, c4)"
    "client_read L c4 = Ret (c5, Some m)" "wm_type m = Type_SYSTEM_INFO"
    "SystemInfo_of_message m = Ret si" "c' = c5\<lparr>c_state := CONNECTED\<rparr>" "st = status_ok"
proof -
  let ?c = "c\<lparr>c_sock := e_socket E, c_open := e_socket E # c_open c, c_uri := uri,
       c_in := e_in E, c_out := \<lparr>wr_script = e_wr E, wr_sent = []\<rparr>\<rparr>"
  obtain ok c4 where w: "client_write L ?c (client_SystemInfo E name) = (ok, c4)"
    by (cases "client_write L ?c (client_SystemInfo E name)")
  have ok: "ok" and g: "c_state c = DISCONNECTED" "\<not> length uri < 8" "take 7 uri = ''unix://''"
    "e_socket E \<noteq> -1" "e_connect E (sun_path (drop 7 uri))"
    using assms w by (auto simp: RouterClient_connect_def Let_def split: if_splits bool.splits)
  have "\<exists>c5 m. client_read L c4 = Ret (c5, Some m) \<and> wm_type m = Type_SYSTEM_INFO
      \<and> SystemInfo_of_message m = Ret si \<and> c' = c5\<lparr>c_state := CONNECTED\<rparr> \<and> st = status_ok"
    using assms w ok g
    by (auto simp: RouterClient_connect_def Let_def bind_outcome_eq_Ret
        split: if_splits option.splits)
  then show ?thesis
    using that [of c4] w ok g by auto
qed

lemma connect_same_path:
  assumes "sun_path p = sun_path q" "q \<noteq> ''''"
    and "RouterClient_connect L E (''unix://'' @ p) name c = Ret (c', Some si, st)"
  shows "RouterClient_connect L E (''unix://'' @ q) name c =
    Ret (c'\<lparr>c_uri := ''unix://'' @ q\<rparr>, Some si, st)"
proof -
  obtain c4 c5 m where *: "c_state c = DISCONNECTED" "e_socket E \<noteq> -1"
    "e_connect E (sun_path (drop 7 (''unix://'' @ p)))"
    "client_write L (c\<lparr>c_sock := e_socket E, c_open := e_socket E # c_open c, c_uri := ''unix://'' @ p,
       c_in := e_in E, c_out := \<lparr>wr_script = e_wr E, wr_sent = []\<rparr>\<rparr>) (client_SystemInfo E name)
     = (True, c4)"
    "client_read L c4 = Ret (c5, Some m)" "wm_type m = Type_SYSTEM_INFO"
    "SystemInfo_of_message m = Ret si" "c' = c5\<lparr>c_state := CONNECTED\<rparr>" "st = status_ok"
    using assms(3) by (rule connect_Some)
  let ?u = "''unix://'' @ q"
  have w: "client_write L (c\<lparr>c_sock := e_socket E, c_open := e_socket E # c_open c, c_uri := ?u,
       c_in := e_in E, c_out := \<lparr>wr_script = e_wr E, wr_sent = []\<rparr>\<rparr>) (client_SystemInfo E name)
     = (True, c4\<lparr>c_uri := ?u\<rparr>)"
  proof -
    let ?c = "\<lambda>u. c\<lparr>c_sock := e_socket E, c_open := e_socket E # c_open c, c_uri := u,
      c_in := e_in E, c_out := \<lparr>wr_script = e_wr E, wr_sent = []\<rparr>\<rparr>"
    have "?c ?u = (?c (''unix://'' @ p))\<lparr>c_uri := ?u\<rparr>"
      by (cases c) simp
    then show ?thesis
      using client_write_uri [of L ?u "?c (''unix://'' @ p)" "client_SystemInfo E name"] *(4)
      by (simp only: map_prod_simp id_apply)
  qed
  have r: "client_read L (c4\<lparr>c_uri := ?u\<rparr>) = Ret (c5\<lparr>c_uri := ?u\<rparr>, Some m)"
    using client_read_uri [of L ?u c4] *(5) by simp
  have d: "drop 7 ?u = q" "take 7 ?u = ''unix://''" "\<not> length ?u < 8"
    using assms(2) by (cases q; simp)+
  show ?thesis
    unfolding RouterClient_connect_def d
    using * w r d(3) assms(1) by simp
qed

section \<open>Runs\<close>

text \<open>
  C31: no run of calls leaks or loses a descriptor: after any sequence of calls on a new client, each
  with any answers of the system and any bytes from the router, the client has a socket exactly if it
  is not DISCONNECTED, and the descriptors open are those from before plus that socket.
\<close>

theorem client_run_descriptors:
  assumes "client_run L ops (new_RouterClient fds) = Ret c"
  shows "(c_sock c = -1 \<longleftrightarrow> c_state c = DISCONNECTED)
    \<and> c_open c = (if c_sock c = -1 then fds else c_sock c # fds)
    \<and> (c_state c \<noteq> DISCONNECTED \<or> c_uri c = '''')"
  using client_run_inv [OF assms] by (auto simp: client_inv_def closed_def)

theorem client_run_descriptors_witness:
  "\<exists>c. client_run example_lib [example_connect []] (new_RouterClient []) = Ret c
     \<and> c_state c = CONNECTED
     \<and> (c_sock c = -1 \<longleftrightarrow> c_state c = DISCONNECTED)
     \<and> c_open c = (if c_sock c = -1 then [] else c_sock c # [])
     \<and> (c_state c \<noteq> DISCONNECTED \<or> c_uri c = '''')"
proof -
  obtain c where c: "client_run example_lib [example_connect []] (new_RouterClient []) = Ret c"
    "c_state c = CONNECTED"
    by (rule example_connected [of "[]"]) simp_all
  show ?thesis
    using c client_run_descriptors [OF c(1)] by blast
qed

text \<open>
  C30: the handshake cannot be skipped: a client that has come to a state has gone through the calls
  that lead to it, \<^verbatim>\<open>connect\<close>, \<^verbatim>\<open>commitIp\<close>, \<^verbatim>\<open>retrievePeerInfo\<close>, \<^verbatim>\<open>retrieveIpConfig\<close> and \<^verbatim>\<open>sendLogout\<close>,
  in this order (each call is identified by the state it advances to).
\<close>

theorem client_run_handshake_order:
  assumes "client_run L ops (new_RouterClient fds) = Ret c"
  shows "subseq (map Some (stages (c_state c))) (map advance ops)"
  using client_run_inv [OF assms] by blast

theorem client_run_handshake_order_witness:
  "\<exists>c. client_run example_lib [Disconnect, example_connect [], SendLogout] (new_RouterClient []) = Ret c
     \<and> c_state c = CONNECTED
     \<and> subseq (map Some [CONNECTED]) (map advance [Disconnect, example_connect [], SendLogout])"
proof -
  obtain c where c: "client_run example_lib [example_connect []] (new_RouterClient []) = Ret c"
    "c_state c = CONNECTED"
    by (rule example_connected [of "[]"]) simp_all
  have "client_call example_lib Disconnect (new_RouterClient []) = Ret (new_RouterClient [], status_ok)"
    by (simp add: RouterClient_disconnect_def new_RouterClient_def)
  moreover have "client_call example_lib SendLogout c =
      Ret (c, mk_status 1 ''The client needs be started before logging out'')"
    by (simp add: RouterClient_sendLogout_def c(2))
  ultimately have run: "client_run example_lib [Disconnect, example_connect [], SendLogout]
      (new_RouterClient []) = Ret c"
    using c(1) by (auto simp: bind_outcome_eq_Ret simp del: client_call.simps)
  show ?thesis
    using client_run_handshake_order [OF run] run c(2) by auto
qed

text \<open>
  One call moves the state of a client in one of three ways: not at all; to DISCONNECTED, by an
  error or \<^verbatim>\<open>disconnect\<close>; or, with a status that is OK, from the state the call requires to the next. So,
  but for \<^verbatim>\<open>disconnect\<close>, no call that returns OK goes back in the order of the states.
\<close>

theorem client_call_moves:
  assumes "client_run L ops (new_RouterClient fds) = Ret c"
    and "client_call L op c = Ret (c', st)"
  shows "(c_state c' = c_state c
      \<or> c_state c' = DISCONNECTED \<and> (isError st \<or> op = Disconnect)
      \<or> isOk st \<and> requires op = Some (c_state c) \<and> advance op = Some (c_state c')
        \<and> state_rank (c_state c') = Suc (state_rank (c_state c)))
    \<and> (isOk st \<and> op \<noteq> Disconnect \<longrightarrow> c_state c \<le> c_state c')"
  using client_call_step [OF conjunct1 [OF client_run_inv [OF assms(1)]] assms(2)]
  by (auto simp: state_step_def less_eq_State_def isError_iff_not_isOk dest: advance_rank)

theorem client_call_moves_witness:
  "\<exists>c c' st. client_call example_lib CommitIp c = Ret (c', st) \<and> isOk st
     \<and> (c_state c' = c_state c
        \<or> c_state c' = DISCONNECTED \<and> (isError st \<or> CommitIp = Disconnect)
        \<or> isOk st \<and> requires CommitIp = Some (c_state c) \<and> advance CommitIp = Some (c_state c')
          \<and> state_rank (c_state c') = Suc (state_rank (c_state c)))
     \<and> c_state c \<le> c_state c'"
proof -
  obtain c where c: "client_run example_lib [example_connect [new_Message Type_ACK]]
      (new_RouterClient []) = Ret c"
    "c_state c = CONNECTED" "c_sock c = 3" "wr_script (c_out c) = []"
    "incoming example_lib c [new_Message Type_ACK]"
    by (rule example_connected [of "[new_Message Type_ACK]"]) (simp_all add: example_info_simps)
  have open_c: "c_sock c \<noteq> -1"
    by (simp add: c(3))
  obtain k where k: "RouterClient_commitIp example_lib c = Ret
      ((sent_more example_lib (new_Message Type_COMMIT) k c)\<lparr>c_state := COMMITTED\<rparr>, status_ok)"
    by (rule commitIp_incoming [OF codec_example_lib c(2) open_c c(4,5)]) simp_all
  then have call: "client_call example_lib CommitIp c = Ret
      ((sent_more example_lib (new_Message Type_COMMIT) k c)\<lparr>c_state := COMMITTED\<rparr>, status_ok)"
    by simp
  show ?thesis
    using client_call_moves [OF c(1) call] call isOk_status_ok(1) by blast
qed

text \<open>
  A call in a state other than the one it requires returns an error with code 1 and has no effect:
  no byte is read or written and no member changes.
\<close>

theorem client_call_wrong_state:
  assumes "requires op = Some s" and "c_state c \<noteq> s"
  shows "\<exists>msg. client_call L op c = Ret (c, mk_status 1 msg)"
  using assms by (rule wrong_state)

theorem client_call_wrong_state_witness:
  "\<exists>msg. client_call example_lib CommitIp (new_RouterClient [5])
     = Ret (new_RouterClient [5], mk_status 1 msg)"
  by (rule client_call_wrong_state [of _ CONNECTED]) (simp_all add: new_RouterClient_def)

text \<open>
  A call that reports an error has either torn the connection down or sent nothing and left the
  connection and its state as they were.
\<close>

theorem client_call_error:
  assumes "client_run L ops (new_RouterClient fds) = Ret c"
    and "client_call L op c = Ret (c', st)" and "isError st"
  shows "c_state c' = DISCONNECTED \<and> c_sock c' = -1 \<and> c_open c' = fds
    \<or> c_state c' = c_state c \<and> c_sock c' = c_sock c \<and> c_uri c' = c_uri c \<and> c_open c' = c_open c
        \<and> c_out c' = c_out c"
proof -
  have inv: "client_inv fds c"
    using client_run_inv [OF assms(1)] by blast
  show ?thesis
  proof (cases "closed c")
    case True
    have "client_inv fds c'" "state_step op (c_state c) (c_state c') st"
      using client_call_step [OF inv assms(2)] by auto
    moreover have "c_state c = DISCONNECTED"
      using True by (simp add: closed_def)
    ultimately show ?thesis
      using assms(3) by (auto simp: client_inv_def closed_def state_step_def isError_iff_not_isOk)
  next
    case False
    then have "c_sock c \<noteq> -1" "c_state c \<noteq> DISCONNECTED" "c_open c = c_sock c # fds"
      using inv by (auto simp: client_inv_def)
    then show ?thesis
      using postD [OF link_step_open [of c op L] assms(2)] assms(3)
      by (auto simp: link_step_def torn_def same_link_def isError_iff_not_isOk)
  qed
qed

theorem client_call_error_witness:
  "\<exists>c c' st. client_call example_lib (RegisterIp (new_IpConfig\<lparr>ip_type := OtherIpType 9\<rparr>)) c = Ret (c', st)
     \<and> isError st \<and> c_state c = CONNECTED
     \<and> (c_state c' = DISCONNECTED \<and> c_sock c' = -1 \<and> c_open c' = []
      \<or> c_state c' = c_state c \<and> c_sock c' = c_sock c \<and> c_uri c' = c_uri c \<and> c_open c' = c_open c
        \<and> c_out c' = c_out c)"
proof -
  let ?op = "RegisterIp (new_IpConfig\<lparr>ip_type := OtherIpType 9\<rparr>)"
  obtain c where c: "client_run example_lib [example_connect []] (new_RouterClient []) = Ret c"
    "c_state c = CONNECTED"
    by (rule example_connected [of "[]"]) simp_all
  let ?st = "mk_status 1 (''Unknown IP type: '' @ to_string_int (sint (9 :: u32)))"
  have call: "client_call example_lib ?op c = Ret (c, ?st)" and err: "isError ?st"
    by (simp_all add: RouterClient_registerIp_def c(2))
  show ?thesis
    using client_call_error [OF c(1) call err] call err c(2) by blast
qed

section \<open>Operations\<close>

text \<open>
  \<^verbatim>\<open>connect\<close> on a closed client, to a router that answers with its system information, sends exactly
  one message, the system information of this process, and returns the router's; the client is then
  CONNECTED on the new descriptor, with the rest of the router's messages still to be read.
\<close>

theorem connect_succeeds:
  assumes "codec L" "closed c" "path \<noteq> ''''" "e_socket E \<noteq> -1" "e_connect E (sun_path path)"
    and "e_wr E = []" "framed (e_in E) (map (lib_encode L) (m # ms))"
    and "wm_type m = Type_SYSTEM_INFO" "SystemInfo_of_message m = Ret si"
  shows "\<exists>c'. RouterClient_connect L E (''unix://'' @ path) name c = Ret (c', Some si, status_ok)
    \<and> c_state c' = CONNECTED \<and> c_sock c' = e_socket E \<and> c_uri c' = ''unix://'' @ path
    \<and> wr_sent (c_out c') = frame (lib_encode L (client_SystemInfo E name))
    \<and> incoming L c' ms"
  by (rule connect_incoming [OF assms]) (auto simp: incoming_def)

theorem connect_succeeds_witness:
  "\<exists>c'. RouterClient_connect example_lib (example_env [example_info]) (''unix://'' @ ''/s'') ''app''
      (new_RouterClient []) = Ret (c', Some example_router, status_ok)
    \<and> c_state c' = CONNECTED \<and> c_sock c' = e_socket (example_env [example_info])
    \<and> c_uri c' = ''unix://'' @ ''/s''
    \<and> wr_sent (c_out c') = frame (lib_encode example_lib
        (client_SystemInfo (example_env [example_info]) ''app''))
    \<and> incoming example_lib c' []"
proof (rule connect_succeeds)
  show "framed (e_in (example_env [example_info])) (map (lib_encode example_lib) [example_info])"
    using framed_example_messages [of "[example_info]"]
    by (simp add: example_env_def example_info_simps del: framed.simps)
qed (simp_all add: codec_example_lib example_info_simps example_env_def new_RouterClient_def closed_def)

text \<open>
  A path of more than 107 characters is not refused, although there is a check for it. It is cut:
  two paths that agree on the first 107 characters name the same socket, and where \<^verbatim>\<open>connect\<close> succeeds
  for one it succeeds in the same way for the other, up to the URI it records.
\<close>

theorem connect_truncates_path:
  assumes "take 107 p = take 107 q" and "q \<noteq> ''''"
    and "RouterClient_connect L E (''unix://'' @ p) name c = Ret (c', Some si, st)"
  shows "RouterClient_connect L E (''unix://'' @ q) name c =
    Ret (c'\<lparr>c_uri := ''unix://'' @ q\<rparr>, Some si, st)"
  using assms by (intro connect_same_path) (simp_all add: sun_path_def)

theorem connect_truncates_path_witness:
  "\<exists>c'. RouterClient_connect example_lib (example_env [example_info])
      (''unix://'' @ (replicate 107 CHR ''a'' @ ''b'')) ''app'' (new_RouterClient []) =
    Ret (c'\<lparr>c_uri := ''unix://'' @ (replicate 107 CHR ''a'' @ ''b'')\<rparr>, Some example_router, status_ok)"
proof -
  let ?E = "example_env [example_info]"
  have E: "e_socket ?E \<noteq> -1" "e_connect ?E (sun_path (replicate 107 CHR ''a''))" "e_wr ?E = []"
    "closed (new_RouterClient [])" "replicate 107 CHR ''a'' \<noteq> ''''"
    by (simp_all add: example_env_def new_RouterClient_def closed_def)
  have f: "framed (e_in ?E) (map (lib_encode example_lib) [example_info])"
    using framed_example_messages [of "[example_info]"]
    by (simp add: example_env_def example_info_simps del: framed.simps)
  obtain c' where "RouterClient_connect example_lib ?E (''unix://'' @ replicate 107 CHR ''a'') ''app''
      (new_RouterClient []) = Ret (c', Some example_router, status_ok)"
    by (rule connect_incoming [OF codec_example_lib E(4,5,1,2,3) f example_info_simps(1,2)])
  then have "RouterClient_connect example_lib ?E (''unix://'' @ (replicate 107 CHR ''a'' @ ''b'')) ''app''
      (new_RouterClient []) =
      Ret (c'\<lparr>c_uri := ''unix://'' @ (replicate 107 CHR ''a'' @ ''b'')\<rparr>, Some example_router, status_ok)"
    by (intro connect_truncates_path [of "replicate 107 CHR ''a''"]) simp_all
  then show ?thesis by blast
qed

text \<open>
  \<^verbatim>\<open>registerIp\<close> on a CONNECTED client sends exactly one IP_INFO message and takes the next message
  as the answer: IP_ACK gives the identifier and leaves the client CONNECTED; ERROR and any other
  message tear the connection down, and the status carries the router's text or the unexpected type.
\<close>

theorem registerIp_answers:
  assumes "codec L" "c_state c = CONNECTED" "c_sock c \<noteq> -1" "wr_script (c_out c) = []"
    and "wire_of_IpType (ip_type config) = Some t" "incoming L c (m # ms)"
  shows "\<exists>k. framed k (map (lib_encode L) ms) \<and> RouterClient_registerIp L config c =
    (let c' = sent_more L (registerIp_message config t) k c in
     if wm_type m = Type_IP_ACK then Ret (c', wm_ipId m, status_ok)
     else if wm_type m = Type_ERROR then deref (wm_errorMessage m) (\<lambda>e.
       Ret (RouterClient_disconnect c', 0,
         mk_status 1 (''Cannot register IP '' @ ip_name config @ '': '' @ e)))
     else Ret (RouterClient_disconnect c', 0,
       mk_status 1 (''Got an unexpected response while registering IP '' @ ip_name config @ '': ''
         @ lib_show_type L (wm_type m))))"
proof -
  let ?req = "registerIp_message config t"
  obtain k where "client_write L c ?req = (True, c\<lparr>c_out := (c_out c)
       \<lparr>wr_sent := wr_sent (c_out c) @ frame (lib_encode L ?req)\<rparr>\<rparr>)"
    "client_read L (c\<lparr>c_out := (c_out c)\<lparr>wr_sent := wr_sent (c_out c) @ frame (lib_encode L ?req)\<rparr>\<rparr>)
       = Ret (c\<lparr>c_out := (c_out c)\<lparr>wr_sent := wr_sent (c_out c) @ frame (lib_encode L ?req)\<rparr>,
                c_in := k\<rparr>, Some m)"
    "framed k (map (lib_encode L) ms)"
    using assms(1,3,4,6) by (rule exchange_incoming)
  then show ?thesis
    using assms(2,5)
    by (intro exI [of _ k]) (simp add: RouterClient_registerIp_def sent_more_def Let_def)
qed

text \<open>An open client of the instances, in any state.\<close>

lemma example_client_simps [simp]:
  "c_state (example_client s ms) = s" "c_sock (example_client s ms) = 3"
  "c_out (example_client s ms) = \<lparr>wr_script = [], wr_sent = []\<rparr>"
  by (simp_all add: example_client_def)

theorem registerIp_answers_witness:
  "\<exists>k. RouterClient_registerIp example_lib (new_IpConfig\<lparr>ip_name := ''ram''\<rparr>)
      (example_client CONNECTED [(new_Message Type_IP_ACK)\<lparr>wm_ipId := 4\<rparr>])
    = Ret (sent_more example_lib (registerIp_message (new_IpConfig\<lparr>ip_name := ''ram''\<rparr>) 0) k
        (example_client CONNECTED [(new_Message Type_IP_ACK)\<lparr>wm_ipId := 4\<rparr>]), 4, status_ok)"
proof -
  let ?m = "(new_Message Type_IP_ACK)\<lparr>wm_ipId := 4\<rparr>"
  have "\<forall>m \<in> set [?m]. length (enc_Message m) \<le> vector_max_size"
    by (simp add: enc_sizes vector_max_size_def new_Message_def)
  then have "incoming example_lib (example_client CONNECTED [?m]) [?m]"
    by (rule incoming_example_client)
  with codec_example_lib show ?thesis
    using registerIp_answers [of example_lib "example_client CONNECTED [?m]"
        "new_IpConfig\<lparr>ip_name := ''ram''\<rparr>" 0 ?m "[]"]
    by (auto simp: new_IpConfig_def Let_def simp del: framed.simps)
qed

text \<open>
  What a successful \<^verbatim>\<open>registerIp\<close> has told the router is the whole configuration but for the
  interrupts: the message it sent reads back as the configuration with both interrupt fields 0,
  whatever they were.
\<close>

theorem registerIp_drops_interrupts:
  assumes "RouterClient_registerIp L config c = Ret (c', i, st)" and "isOk st"
    and "named_IpImplementation (ip_implementation config)"
  shows "\<exists>m. wm_type m = Type_IP_INFO
    \<and> wr_sent (c_out c') = wr_sent (c_out c) @ frame (lib_encode L m)
    \<and> IpConfig_of_message m = Ret (Inr (config\<lparr>ip_firstInterrupt := 0, ip_numInterrupts := 0\<rparr>))"
proof -
  obtain t where t: "wire_of_IpType (ip_type config) = Some t"
    using assms(1,2) by (auto simp: RouterClient_registerIp_def split: if_splits option.splits)
  let ?m = "registerIp_message config t"
  obtain ok c1 where w: "client_write L c ?m = (ok, c1)"
    by (cases "client_write L c ?m")
  have ok: "ok"
    using assms(1,2) t w by (auto simp: RouterClient_registerIp_def split: if_splits bool.splits)
  have "wr_sent (c_out c1) = wr_sent (c_out c) @ frame (lib_encode L ?m)"
    using client_write_frame [of L c ?m] w ok by simp
  moreover have "c_out c' = c_out c1"
  proof -
    have "post (\<lambda>(c', i, st). isOk st \<longrightarrow> c_out c' = c_out c1) (RouterClient_registerIp L config c)"
      using t w ok
      by (auto simp: RouterClient_registerIp_def intro!: client_read_post split: option.split)
    from postD [OF this assms(1)] assms(2) show ?thesis by simp
  qed
  moreover have "wm_type ?m = Type_IP_INFO"
    by (simp add: registerIp_message_def)
  ultimately show ?thesis
    using IpConfig_of_registerIp_message [OF t assms(3)] by (intro exI [of _ ?m]) simp
qed

theorem registerIp_drops_interrupts_witness:
  "\<exists>c' i. RouterClient_registerIp example_lib (new_IpConfig\<lparr>ip_numInterrupts := 8\<rparr>)
      (example_client CONNECTED [(new_Message Type_IP_ACK)\<lparr>wm_ipId := 4\<rparr>]) = Ret (c', i, status_ok)
    \<and> (\<exists>m. wm_type m = Type_IP_INFO
      \<and> wr_sent (c_out c') = wr_sent (c_out (example_client CONNECTED
        [(new_Message Type_IP_ACK)\<lparr>wm_ipId := 4\<rparr>])) @ frame (lib_encode example_lib m)
      \<and> IpConfig_of_message m = Ret (Inr ((new_IpConfig\<lparr>ip_numInterrupts := 8\<rparr>)
        \<lparr>ip_firstInterrupt := 0, ip_numInterrupts := 0\<rparr>)))"
proof -
  let ?m = "(new_Message Type_IP_ACK)\<lparr>wm_ipId := 4\<rparr>" and ?cfg = "new_IpConfig\<lparr>ip_numInterrupts := 8\<rparr>"
  have "\<forall>m \<in> set [?m]. length (enc_Message m) \<le> vector_max_size"
    by (simp add: enc_sizes vector_max_size_def new_Message_def)
  then have inc: "incoming example_lib (example_client CONNECTED [?m]) [?m]"
    by (rule incoming_example_client)
  obtain k where ok: "RouterClient_registerIp example_lib ?cfg (example_client CONNECTED [?m])
      = Ret (sent_more example_lib (registerIp_message ?cfg 0) k (example_client CONNECTED [?m]),
          wm_ipId ?m, status_ok)"
    by (rule registerIp_incoming [OF codec_example_lib _ _ _ _ inc, of ?cfg 0])
      (simp_all add: new_IpConfig_def)
  have "isOk status_ok" "named_IpImplementation (ip_implementation ?cfg)"
    by (simp_all add: new_IpConfig_def)
  from ok registerIp_drops_interrupts [OF ok this] show ?thesis
    by blast
qed

text \<open>
  A transaction that one client has sent is received by another unchanged, every field and the
  data included, when the bytes the first has written arrive at the second with the header in one
  piece.
\<close>

theorem transaction_roundtrip:
  assumes "codec L" "isOk (snd (RouterClient_sendTransaction L txn a))"
    and "c_state b = STARTED" "c_sock b \<noteq> -1"
    and "\<forall>t. length (lib_encode L (Transaction_message txn t)) \<le> vector_max_size"
    and "head_len (c_in b) \<ge> 8"
    and "kbytes (c_in b) = drop (length (wr_sent (c_out a)))
      (wr_sent (c_out (fst (RouterClient_sendTransaction L txn a)))) @ rest"
  shows "\<exists>k. RouterClient_receiveTransaction L b = Ret (b\<lparr>c_in := k\<rparr>, Some txn, status_ok)"
proof -
  obtain t where t: "wire_of_TransactionType (txn_type txn) = Some t"
    "wr_sent (c_out (fst (RouterClient_sendTransaction L txn a)))
       = wr_sent (c_out a) @ frame (lib_encode L (Transaction_message txn t))"
    using assms(2) by (rule sendTransaction_ok)
  have "incoming L b [Transaction_message txn t]"
    using assms(5,6,7) t(2) by (simp add: incoming_def)
  with assms(1,3,4) t(1) show ?thesis
    by (elim receiveTransaction_incoming [rotated 4]) auto
qed

definition example_txn :: Transaction where
  "example_txn = (new_Transaction True)\<lparr>txn_type := WRITE_REQ, txn_initiator := 1, txn_id := 3,
     txn_address := 0x1000, txn_size := 2, txn_data := [10, 20]\<rparr>"

lemma lib_encode_example: "lib_encode example_lib = enc_Message"
  by (simp add: example_lib_def)

theorem transaction_roundtrip_witness:
  "\<exists>k. RouterClient_receiveTransaction example_lib
      (example_client STARTED [Transaction_message example_txn 1])
    = Ret ((example_client STARTED [Transaction_message example_txn 1])\<lparr>c_in := k\<rparr>,
        Some example_txn, status_ok)"
proof (rule transaction_roundtrip [where a = "example_client STARTED []" and rest = "[]"])
  let ?a = "example_client STARTED []" and ?m = "Transaction_message example_txn 1"
  have send: "RouterClient_sendTransaction example_lib example_txn ?a =
      (?a\<lparr>c_out := (c_out ?a)\<lparr>wr_sent := [] @ frame (lib_encode example_lib ?m)\<rparr>\<rparr>, status_ok)"
    using client_write_accepting [of ?a example_lib ?m]
    by (simp add: RouterClient_sendTransaction_def example_txn_def new_Transaction_def)
  show "isOk (snd (RouterClient_sendTransaction example_lib example_txn ?a))"
    by (simp add: send)
  show "kbytes (c_in (example_client STARTED [?m])) = drop (length (wr_sent (c_out ?a)))
      (wr_sent (c_out (fst (RouterClient_sendTransaction example_lib example_txn ?a)))) @ []"
  proof -
    have "wr_sent (c_out (fst (RouterClient_sendTransaction example_lib example_txn ?a)))
        = frame (lib_encode example_lib ?m)"
      by (simp only: send) simp
    moreover have "kbytes (c_in (example_client STARTED [?m])) = frame (lib_encode example_lib ?m)"
      by (simp add: example_client_def example_messages_def lib_encode_example)
    ultimately show ?thesis
      by simp
  qed
  show "\<forall>t. length (lib_encode example_lib (Transaction_message example_txn t)) \<le> vector_max_size"
    by (simp add: example_lib_def enc_sizes Transaction_message_def example_txn_def
        new_Transaction_def new_Message_def vector_max_size_def)
  show "head_len (c_in (example_client STARTED [?m])) \<ge> 8"
    by (simp add: example_client_def example_messages_def)
qed (simp_all add: codec_example_lib)

end
