(* ===== verification/Sync_Queue.thy ===== *)
theory Sync_Queue
  imports Prelude
begin

text \<open>
  The synchronized queue of \<^verbatim>\<open>src/lib/Queue.hh\<close>: any number of producers, one consumer (the writer
  thread of the bridge). The steps are the critical sections of the source: the body of \<^verbatim>\<open>push\<close> and of
  \<^verbatim>\<open>finish\<close> under the mutex, the \<^verbatim>\<open>notify_one\<close> that follows after the mutex is released, and the two
  stretches of \<^verbatim>\<open>pop\<close> between taking the mutex and giving it up, by returning or in \<^verbatim>\<open>condVar.wait\<close>.
\<close>

section \<open>State and operations\<close>

text \<open>Where the consumer is: outside \<^verbatim>\<open>pop\<close>, blocked in \<^verbatim>\<open>wait\<close>, or woken and about to lock.\<close>

datatype popper = Outside | Waiting | Woken

record 'a sync_queue =
  q_items :: "'a list"
  q_done :: bool
  q_popper :: popper
  q_notify :: nat

text \<open>\<open>q_notify\<close> counts the calls of \<^verbatim>\<open>notify_one\<close> that are still to come.\<close>

definition q_new :: "'a sync_queue" where
  "q_new = \<lparr>q_items = [], q_done = False, q_popper = Outside, q_notify = 0\<rparr>"

definition q_push :: "'a \<Rightarrow> 'a sync_queue \<Rightarrow> 'a sync_queue" where
  "q_push x q = q\<lparr>q_items := q_items q @ [x], q_notify := Suc (q_notify q)\<rparr>"

definition q_finish :: "'a sync_queue \<Rightarrow> 'a sync_queue" where
  "q_finish q = q\<lparr>q_done := True, q_notify := Suc (q_notify q)\<rparr>"

definition q_notify_one :: "'a sync_queue \<Rightarrow> 'a sync_queue" where
  "q_notify_one q =
     (if q_notify q = 0 then q
      else q\<lparr>q_notify := q_notify q - 1,
             q_popper := (if q_popper q = Waiting then Woken else q_popper q)\<rparr>)"

datatype 'a pop_result = Blocked | Got 'a | Finished

text \<open>
  The loop condition \<^verbatim>\<open>while (queue.empty())\<close> with the mutex held: wait again, or leave the loop
  and take the front.
\<close>

definition q_take :: "'a sync_queue \<Rightarrow> 'a pop_result \<times> 'a sync_queue" where
  "q_take q = (case q_items q of
     [] \<Rightarrow> (Blocked, q\<lparr>q_popper := Waiting\<rparr>)
   | x # xs \<Rightarrow> (Got x, q\<lparr>q_items := xs, q_popper := Outside\<rparr>))"

text \<open>The next stretch of \<^verbatim>\<open>pop\<close>. Only a consumer that has waited looks at \<^verbatim>\<open>done\<close>.\<close>

definition q_pop :: "'a sync_queue \<Rightarrow> 'a pop_result \<times> 'a sync_queue" where
  "q_pop q = (case q_popper q of
     Outside \<Rightarrow> q_take q
   | Waiting \<Rightarrow> (Blocked, q)
   | Woken \<Rightarrow> if q_done q then (Finished, q\<lparr>q_popper := Outside\<rparr>) else q_take q)"

section \<open>The contract\<close>

text \<open>What the bridge relies on: what is pushed comes out in the order it went in.\<close>

locale fifo =
  fixes push :: "'a \<Rightarrow> 'q \<Rightarrow> 'q"
    and pop :: "'q \<Rightarrow> 'a pop_result \<times> 'q"
    and control :: "'e \<Rightarrow> 'q \<Rightarrow> 'q"
    and contents :: "'q \<Rightarrow> 'a list"
  assumes contents_push: "contents (push x q) = contents q @ [x]"
    and pop_Got: "pop q = (Got x, q') \<Longrightarrow> contents q = x # contents q'"
    and pop_Blocked: "pop q = (Blocked, q') \<Longrightarrow> contents q' = contents q"
    and pop_Finished: "pop q = (Finished, q') \<Longrightarrow> contents q' = contents q"
    and contents_control: "contents (control e q) = contents q"

text \<open>An interleaving of the threads: pushes, stretches of \<^verbatim>\<open>pop\<close>, and the rest.\<close>

datatype ('a, 'e) q_event = Push 'a | Pop | Control 'e

fun q_run :: "('a \<Rightarrow> 'q \<Rightarrow> 'q) \<Rightarrow> ('q \<Rightarrow> 'a pop_result \<times> 'q) \<Rightarrow> ('e \<Rightarrow> 'q \<Rightarrow> 'q)
    \<Rightarrow> ('a, 'e) q_event list \<Rightarrow> 'q \<Rightarrow> 'a pop_result list \<times> 'q" where
  "q_run push pop control [] q = ([], q)"
| "q_run push pop control (Push x # es) q = q_run push pop control es (push x q)"
| "q_run push pop control (Pop # es) q =
     (case pop q of (r, q') \<Rightarrow>
        (case q_run push pop control es q' of (rs, q'') \<Rightarrow> (r # rs, q'')))"
| "q_run push pop control (Control e # es) q = q_run push pop control es (control e q)"

fun pushed :: "('a, 'e) q_event list \<Rightarrow> 'a list" where
  "pushed [] = []"
| "pushed (Push x # es) = x # pushed es"
| "pushed (_ # es) = pushed es"

fun popped :: "'a pop_result list \<Rightarrow> 'a list" where
  "popped [] = []"
| "popped (Got x # rs) = x # popped rs"
| "popped (_ # rs) = popped rs"

context fifo
begin

lemma run_conserves:
  "q_run push pop control es q = (rs, q') \<Longrightarrow> contents q @ pushed es = popped rs @ contents q'"
proof (induction es arbitrary: q rs)
  case Nil
  then show ?case by simp
next
  case (Cons e es)
  show ?case
  proof (cases e)
    case (Push x)
    with Cons.prems show ?thesis
      using Cons.IH [of "push x q" rs] contents_push [of x q] by simp
  next
    case (Control c)
    with Cons.prems show ?thesis
      using Cons.IH [of "control c q" rs] contents_control [of c q] by simp
  next
    case Pop
    obtain r q1 where r: "pop q = (r, q1)"
      by (cases "pop q")
    obtain rs1 q2 where run: "q_run push pop control es q1 = (rs1, q2)"
      by (cases "q_run push pop control es q1")
    have out: "rs = r # rs1" "q' = q2"
      using Cons.prems by (simp_all add: Pop r run)
    note IH = Cons.IH [OF run [folded out(2)]]
    show ?thesis
    proof (cases r)
      case (Got x)
      then show ?thesis
        using IH pop_Got [OF r [unfolded Got]] by (simp add: Pop out(1))
    next
      case Blocked
      then show ?thesis
        using IH pop_Blocked [OF r [unfolded Blocked]] by (simp add: Pop out(1))
    next
      case Finished
      then show ?thesis
        using IH pop_Finished [OF r [unfolded Finished]] by (simp add: Pop out(1))
    qed
  qed
qed

end

section \<open>The queue keeps the contract\<close>

text \<open>
  The events that move no element: \<^verbatim>\<open>finish\<close>, a notification that is delivered, and a spurious
  wake-up, which the standard allows.
\<close>

datatype control_event = Finish | Notify | Spurious

fun q_control :: "control_event \<Rightarrow> 'a sync_queue \<Rightarrow> 'a sync_queue" where
  "q_control Finish q = q_finish q"
| "q_control Notify q = q_notify_one q"
| "q_control Spurious q = (if q_popper q = Waiting then q\<lparr>q_popper := Woken\<rparr> else q)"

lemma q_items_simps [simp]:
  "q_items (q_push x q) = q_items q @ [x]"
  "q_items (q_finish q) = q_items q"
  "q_items (q_notify_one q) = q_items q"
  "q_items (q_control e q) = q_items q"
  by (simp_all add: q_push_def q_finish_def q_notify_one_def, cases e)
    (simp_all add: q_finish_def q_notify_one_def)

interpretation sq: fifo q_push q_pop q_control q_items
proof unfold_locales
  fix q q' :: "'a sync_queue" and x
  show "q_pop q = (Got x, q') \<Longrightarrow> q_items q = x # q_items q'"
    by (auto simp: q_pop_def q_take_def split: popper.splits list.splits if_splits)
  show "q_pop q = (Blocked, q') \<Longrightarrow> q_items q' = q_items q"
    by (auto simp: q_pop_def q_take_def split: popper.splits list.splits if_splits)
  show "q_pop q = (Finished, q') \<Longrightarrow> q_items q' = q_items q"
    by (auto simp: q_pop_def q_take_def split: popper.splits list.splits if_splits)
qed simp_all

abbreviation queue_run ::
  "('a, control_event) q_event list \<Rightarrow> 'a sync_queue \<Rightarrow> 'a pop_result list \<times> 'a sync_queue" where
  "queue_run \<equiv> q_run q_push q_pop q_control"

section \<open>Wake-ups\<close>

text \<open>
  A consumer that waits while there is something to take has a notification coming: \<^verbatim>\<open>push\<close> loses no
  wake-up.
\<close>

definition push_wakes :: "'a sync_queue \<Rightarrow> bool" where
  "push_wakes q \<longleftrightarrow> (q_popper q = Waiting \<and> q_items q \<noteq> [] \<longrightarrow> 0 < q_notify q)"

lemma push_wakes_step:
  "push_wakes (q_push x q)"
  "push_wakes q \<Longrightarrow> push_wakes (q_control e q)"
  "push_wakes q \<Longrightarrow> push_wakes (snd (q_pop q))"
  by (simp add: push_wakes_def q_push_def)
    ((cases e; auto simp: push_wakes_def q_finish_def q_notify_one_def),
     auto simp: push_wakes_def q_pop_def q_take_def split: popper.splits list.splits)

lemma push_wakes_run: "push_wakes q \<Longrightarrow> push_wakes (snd (queue_run es q))"
proof (induction es arbitrary: q)
  case Nil
  then show ?case by simp
next
  case (Cons e es)
  then show ?case
    using push_wakes_step by (cases e) (fastforce split: prod.splits)+
qed

text \<open>
  The same does not hold of \<^verbatim>\<open>finish\<close>. In a \<open>lost\<close> state the consumer waits, the queue is finished and
  no notification is coming; without another push or a spurious wake-up nothing changes any more.
\<close>

definition lost :: "'a sync_queue \<Rightarrow> bool" where
  "lost q \<longleftrightarrow> q_popper q = Waiting \<and> q_done q \<and> q_items q = [] \<and> q_notify q = 0"

lemma lost_pop: "lost q \<Longrightarrow> q_pop q = (Blocked, q)"
  by (simp add: lost_def q_pop_def)

lemma lost_notify: "lost q \<Longrightarrow> q_notify_one q = q"
  by (simp add: lost_def q_notify_one_def)

lemma lost_run:
  "lost q \<Longrightarrow> list_all (\<lambda>e. e = Pop \<or> e = Control Notify) es \<Longrightarrow>
   snd (queue_run es q) = q \<and> Finished \<notin> set (fst (queue_run es q))"
  by (induction es) (auto simp: lost_pop lost_notify split: prod.splits)
section \<open>Properties\<close>

lemma queue_run_append:
  "queue_run (es @ fs) q =
     (case queue_run es q of (rs, q1) \<Rightarrow> (case queue_run fs q1 of (ss, q2) \<Rightarrow> (rs @ ss, q2)))"
proof (induction es arbitrary: q)
  case (Cons e es)
  then show ?case by (cases e) (simp_all split: prod.split)
qed simp

text \<open>
  C35: the queue is a FIFO under every interleaving of its critical sections, notifications and
  spurious wake-ups: what \<^verbatim>\<open>pop\<close> has returned, followed by what is still inside, is what was pushed, in
  order; nothing is lost, duplicated or reordered.
\<close>

theorem queue_fifo:
  "case queue_run es q_new of (rs, q) \<Rightarrow> pushed es = popped rs @ q_items q"
  using sq.run_conserves [of es q_new] by (simp add: q_new_def split: prod.split)

text \<open>
  \<^verbatim>\<open>push\<close> loses no wake-up: whenever the consumer waits although there is an element, a
  notification is on its way, and with it the consumer takes the front element, unless the queue is
  finished.
\<close>

theorem push_wakes_consumer:
  assumes "queue_run es q_new = (rs, q)" and "q_popper q = Waiting" and "q_items q = x # xs"
  shows "0 < q_notify q
    \<and> fst (queue_run [Control Notify, Pop] q) = [if q_done q then Finished else Got x]"
proof -
  have "0 < q_notify q"
    using push_wakes_run [of q_new es] assms by (simp add: push_wakes_def q_new_def)
  then show ?thesis
    using assms by (simp add: q_notify_one_def q_pop_def q_take_def)
qed

theorem push_wakes_consumer_witness:
  "0 < q_notify (snd (queue_run [Pop, Push (7::nat)] q_new))
   \<and> fst (queue_run [Control Notify, Pop] (snd (queue_run [Pop, Push (7::nat)] q_new))) = [Got 7]"
  using push_wakes_consumer [of "[Pop, Push 7]" "fst (queue_run [Pop, Push (7::nat)] q_new)"
      "snd (queue_run [Pop, Push (7::nat)] q_new)" 7 "[]"]
  by (simp add: q_new_def q_pop_def q_take_def q_push_def)

text \<open>
  Whether \<^verbatim>\<open>finish\<close> ends the consumer depends on where the consumer is: on an empty queue with no
  notification pending, \<^verbatim>\<open>finish\<close> and its notification make the next stretch of \<^verbatim>\<open>pop\<close> return false if the
  consumer is inside \<^verbatim>\<open>pop\<close>; if it is outside, that \<^verbatim>\<open>pop\<close> waits, and no later notification and no
  stretch of \<^verbatim>\<open>pop\<close> ever makes it return (\<^verbatim>\<open>done\<close> is looked at only after a wake-up, and the wake-up has
  gone).
\<close>

theorem finish_wakes_only_inside:
  assumes "q_items q = []" and "q_notify q = 0"
  shows "if q_popper q = Outside
    then \<forall>es. list_all (\<lambda>e. e = Pop \<or> e = Control Notify) es \<longrightarrow>
           Finished \<notin> set (fst (queue_run ([Control Finish, Control Notify, Pop] @ es) q))
    else fst (queue_run [Control Finish, Control Notify, Pop] q) = [Finished]"
proof (cases "q_popper q")
  case Outside
  define q' where "q' = q\<lparr>q_done := True, q_popper := Waiting\<rparr>"
  have "queue_run [Control Finish, Control Notify, Pop] q = ([Blocked], q')" and "lost q'"
    using assms Outside
    by (simp_all add: q'_def lost_def q_finish_def q_notify_one_def q_pop_def q_take_def)
  then show ?thesis
    using Outside lost_run [of q']
    by (simp add: queue_run_append del: q_run.simps append_Cons split: prod.split) fastforce
next
  case Waiting
  then show ?thesis
    using assms by (simp add: q_finish_def q_notify_one_def q_pop_def)
next
  case Woken
  then show ?thesis
    using assms by (simp add: q_finish_def q_notify_one_def q_pop_def)
qed

theorem finish_wakes_only_inside_witness:
  "Finished \<notin> set (fst (queue_run ([Control Finish, Control Notify, Pop] @ [Pop, Control Notify, Pop])
     (q_new :: nat sync_queue)))"
  using finish_wakes_only_inside [of "q_new :: nat sync_queue"]
  by (simp add: q_new_def del: q_run.simps append_Cons)

text \<open>
  \<^verbatim>\<open>finish\<close> discards what is in the queue when the consumer wakes up only after it: with any elements
  pushed between the \<^verbatim>\<open>pop\<close> that waits and \<^verbatim>\<open>finish\<close>, the \<^verbatim>\<open>pop\<close> returns false and all of them stay inside.
\<close>

theorem finish_drops_elements:
  "case queue_run (Pop # map Push xs @ [Control Finish, Control Notify, Pop]) q_new of
     (rs, q) \<Rightarrow> rs = [Blocked, Finished] \<and> q_items q = xs"
proof -
  have push: "queue_run (map Push xs) q = ([], q\<lparr>q_items := q_items q @ xs,
      q_notify := q_notify q + length xs\<rparr>)" for q
  proof (induction xs arbitrary: q)
    case (Cons x xs)
    then show ?case by (simp add: q_push_def)
  qed simp
  show ?thesis
    by (simp add: queue_run_append push)
      (simp add: q_new_def q_finish_def q_notify_one_def q_pop_def q_take_def)
qed

end
