(* ===== verification/Bridge.thy ===== *)
theory Bridge
  imports Router_Client Sync_Queue
begin

text \<open>
  The library's entry point, \<^verbatim>\<open>src/lib/SwAxi.hh\<close> and \<^verbatim>\<open>src/lib/SwAxi.cc\<close>: the masters that issue
  transactions, the bridge that registers IP and starts the traffic, and the reader and the writer
  thread. Pointers are identities of allocations (\<open>None\<close> is the null pointer), futures and promises
  are numbered by their creation, and the slaves the user implements are parameters.
\<close>

section \<open>Memory, futures, slaves\<close>

type_synonym ptr = "nat option"

record Buffer =
  bf_data :: ptr
  bf_size :: u64
  bf_address :: u64

text \<open>The objects of the user: the contents of each allocation.\<close>

type_synonym memory = "nat \<Rightarrow> u8 list option"

text \<open>\<^verbatim>\<open>memcpy\<close> out of and into an allocation, from its start. Nothing is touched if the size is 0.\<close>

definition load_bytes :: "memory \<Rightarrow> ptr \<Rightarrow> nat \<Rightarrow> u8 list outcome" where
  "load_bytes mem p n =
     (if n = 0 then Ret []
      else deref p (\<lambda>a. (case mem a of
          None \<Rightarrow> Fault UseAfterFree
        | Some bs \<Rightarrow> if n \<le> length bs then Ret (take n bs) else Fault OutOfBounds)))"

definition store_bytes :: "memory \<Rightarrow> ptr \<Rightarrow> u8 list \<Rightarrow> memory outcome" where
  "store_bytes mem p xs =
     (if xs = [] then Ret mem
      else deref p (\<lambda>a. (case mem a of
          None \<Rightarrow> Fault UseAfterFree
        | Some bs \<Rightarrow> if length xs \<le> length bs then Ret (mem(a := Some (overwrite 0 xs bs)))
            else Fault OutOfBounds)))"

text \<open>What a future can be seen as; a promise that is destroyed unfulfilled breaks it.\<close>

datatype future = Pending | Ready Status | Broken

definition fulfil :: "nat option \<Rightarrow> Status \<Rightarrow> future list \<Rightarrow> future list" where
  "fulfil p st fs = (case p of None \<Rightarrow> fs | Some i \<Rightarrow> fs[i := Ready st])"

definition break_promises :: "nat list \<Rightarrow> future list \<Rightarrow> future list" where
  "break_promises is fs =
     map (\<lambda>i. if i \<in> set is \<and> fs ! i = Pending then Broken else fs ! i) [0..<length fs]"

text \<open>
  The virtual methods of \<^verbatim>\<open>Slave\<close>: the object, size, address and contents of the buffer and the state
  of the user's world give the return value, the new contents for a read, and the new state.
\<close>

record 'w slaves =
  handleWrite :: "nat \<Rightarrow> u64 \<Rightarrow> u64 \<Rightarrow> u8 list \<Rightarrow> 'w \<Rightarrow> int \<times> 'w"
  handleRead :: "nat \<Rightarrow> u64 \<Rightarrow> u64 \<Rightarrow> u8 list \<Rightarrow> 'w \<Rightarrow> int \<times> u8 list \<times> 'w"

section \<open>State\<close>

datatype TxnType = TRANSACTION | TERMINATION

text \<open>\<open>tx_promise\<close> is the future taken from the promise, if one was.\<close>

record Txn =
  tx_type :: TxnType
  tx_buffer :: ptr
  tx_txn :: Transaction
  tx_promise :: "nat option"

text \<open>A \<^verbatim>\<open>Master\<close> is its identifier; its queue is the one of the bridge.\<close>

record MasterMd =
  md_master :: "u64 option"
  md_txns :: "(u64 \<times> Txn) list"
  md_lastTxnId :: u64

definition new_MasterMd :: MasterMd where
  "new_MasterMd = \<lparr>md_master = None, md_txns = [], md_lastTxnId = 0\<rparr>"

text \<open>
  Where the threads are. A thread that was joined, or never started, is \<open>Absent\<close>. The writer is in
  \<^verbatim>\<open>queue.pop\<close>, or has the popped element, or has prepared a transaction and is about to send it (for
  a request together with the entry of the master map that now owns it), or is about to log out.
\<close>

datatype reader = Reader_Absent | Reader_Running | Reader_Exited

datatype writer = Writer_Absent | Writer_Pop | Writer_Popped Txn
  | Writer_Send Transaction "(u64 \<times> u64) option" | Writer_Logout | Writer_Exited

text \<open>The members of \<^verbatim>\<open>Bridge\<close>, then the memory, the futures, the slaves deleted, the user's world.\<close>

record 'w bridge =
  br_client :: client
  br_name :: string
  br_routerInfo :: "SystemInfo option"
  br_peers :: "SystemInfo list"
  br_ipBlocks :: "IpConfig list"
  br_slaveMap :: "(u64 \<times> ptr) list"
  br_masterMap :: "(u64 \<times> MasterMd) list"
  br_queue :: "Txn sync_queue"
  br_reader :: reader
  br_writer :: writer
  br_readerStatus :: Status
  br_writerStatus :: Status
  br_mem :: memory
  br_futures :: "future list"
  br_deleted :: "nat list"
  br_world :: 'w

definition new_Bridge :: "string \<Rightarrow> int list \<Rightarrow> memory \<Rightarrow> 'w \<Rightarrow> 'w bridge" where
  "new_Bridge name fds mem w = \<lparr>br_client = new_RouterClient fds, br_name = name,
     br_routerInfo = None, br_peers = [], br_ipBlocks = [], br_slaveMap = [], br_masterMap = [],
     br_queue = q_new, br_reader = Reader_Absent, br_writer = Writer_Absent,
     br_readerStatus = status_ok, br_writerStatus = status_ok, br_mem = mem, br_futures = [],
     br_deleted = [], br_world = w\<rparr>"

section \<open>Master\<close>

text \<open>\<^verbatim>\<open>queue->push\<close> of an element whose future, if any, is the next one.\<close>

definition push_txn :: "Txn \<Rightarrow> 'w bridge \<Rightarrow> 'w bridge" where
  "push_txn t b = b\<lparr>br_queue := q_push t (br_queue b)\<rparr>"

definition get_future :: "'w bridge \<Rightarrow> nat \<times> 'w bridge" where
  "get_future b = (length (br_futures b), b\<lparr>br_futures := br_futures b @ [Pending]\<rparr>)"

definition Master_read :: "u64 \<Rightarrow> Buffer \<Rightarrow> 'w bridge \<Rightarrow> 'w bridge \<times> nat" where
  "Master_read m buffer b =
     (let txn = (new_Transaction True)\<lparr>txn_type := READ_REQ, txn_initiator := m,
            txn_address := bf_address buffer, txn_size := bf_size buffer\<rparr>;
          (f, b1) = get_future b
      in (push_txn \<lparr>tx_type = TRANSACTION, tx_buffer = bf_data buffer, tx_txn = txn,
            tx_promise = Some f\<rparr> b1, f))"

definition Master_write :: "u64 \<Rightarrow> Buffer \<Rightarrow> 'w bridge \<Rightarrow> ('w bridge \<times> nat) outcome" where
  "Master_write m buffer b =
     (if vector_max_size < unat (bf_size buffer) then Fault LengthError
      else bind_outcome (load_bytes (br_mem b) (bf_data buffer) (unat (bf_size buffer))) (\<lambda>bytes.
        let txn = (new_Transaction True)\<lparr>txn_type := WRITE_REQ, txn_initiator := m,
              txn_address := bf_address buffer, txn_size := bf_size buffer, txn_data := bytes\<rparr>;
            (f, b1) = get_future b
        in Ret (push_txn \<lparr>tx_type = TRANSACTION, tx_buffer = None, tx_txn = txn,
              tx_promise = Some f\<rparr> b1, f)))"

text \<open>Of the transaction only the identifier is used.\<close>

definition Master_terminate :: "u64 \<Rightarrow> 'w bridge \<Rightarrow> 'w bridge" where
  "Master_terminate m b =
     push_txn \<lparr>tx_type = TERMINATION, tx_buffer = None,
       tx_txn = (new_Transaction False)\<lparr>txn_id := m\<rparr>, tx_promise = None\<rparr> b"

section \<open>Bridge\<close>

text \<open>
  \<^verbatim>\<open>disconnect\<close> deletes the slaves and the masters; the requests that wait for a response go with the
  master map, and their futures break. The peers stay.
\<close>

definition txn_promises :: "Txn list \<Rightarrow> nat list" where
  "txn_promises ts = List.map_filter tx_promise ts"

definition waiting_promises :: "(u64 \<times> MasterMd) list \<Rightarrow> nat list" where
  "waiting_promises mm = concat (map (\<lambda>(k, md). txn_promises (map snd (md_txns md))) mm)"

definition Bridge_disconnect :: "'w bridge \<Rightarrow> 'w bridge outcome" where
  "Bridge_disconnect b =
     (let slaves = List.map_filter snd (br_slaveMap b) in
      if distinct slaves \<and> list_all (\<lambda>s. s \<notin> set (br_deleted b)) slaves then
        Ret (b\<lparr>br_client := RouterClient_disconnect (br_client b), br_routerInfo := None,
               br_ipBlocks := [], br_slaveMap := [], br_masterMap := [],
               br_deleted := slaves @ br_deleted b,
               br_futures := break_promises (waiting_promises (br_masterMap b)) (br_futures b)\<rparr>)
      else Fault DoubleFree)"

definition Bridge_connect :: "lib \<Rightarrow> env \<Rightarrow> string \<Rightarrow> 'w bridge \<Rightarrow> ('w bridge \<times> Status) outcome" where
  "Bridge_connect L E uri b =
     bind_outcome (RouterClient_connect L E uri (br_name b) (br_client b)) (\<lambda>(c, info, st).
       let b1 = b\<lparr>br_client := c\<rparr> in
       if isError st then Ret (b1, st) else Ret (b1\<lparr>br_routerInfo := info\<rparr>, status_ok))"

definition Bridge_getRouterInfo :: "'w bridge \<Rightarrow> SystemInfo option" where
  "Bridge_getRouterInfo b = br_routerInfo b"

definition Bridge_registerSlave ::
  "lib \<Rightarrow> ptr \<Rightarrow> IpConfig \<Rightarrow> 'w bridge \<Rightarrow> ('w bridge \<times> Status) outcome" where
  "Bridge_registerSlave L slave config b =
     bind_outcome (RouterClient_registerIp L config (br_client b)) (\<lambda>(c, i, st).
       let b1 = b\<lparr>br_client := c\<rparr> in
       if isError st then Ret (b1, st)
       else Ret (b1\<lparr>br_slaveMap := AList.update i slave (br_slaveMap b1)\<rparr>, status_ok))"

text \<open>\<^verbatim>\<open>masterMap[i]\<close>, which inserts an empty entry if there is none.\<close>

definition masterMap_at :: "u64 \<Rightarrow> 'w bridge \<Rightarrow> MasterMd" where
  "masterMap_at i b = (case map_of (br_masterMap b) i of None \<Rightarrow> new_MasterMd | Some md \<Rightarrow> md)"

definition set_masterMap :: "u64 \<Rightarrow> MasterMd \<Rightarrow> 'w bridge \<Rightarrow> 'w bridge" where
  "set_masterMap i md b = b\<lparr>br_masterMap := AList.update i md (br_masterMap b)\<rparr>"

definition Bridge_registerMaster ::
  "lib \<Rightarrow> string \<Rightarrow> 'w bridge \<Rightarrow> ('w bridge \<times> u64 option \<times> Status) outcome" where
  "Bridge_registerMaster L name b =
     bind_outcome (RouterClient_registerIp L (new_IpConfig\<lparr>ip_name := name, ip_type := MASTER\<rparr>)
         (br_client b)) (\<lambda>(c, i, st).
       let b1 = b\<lparr>br_client := c\<rparr> in
       if isError st then Ret (b1, None, st)
       else Ret (set_masterMap i ((masterMap_at i b1)\<lparr>md_master := Some i\<rparr>) b1, Some i, status_ok))"

definition Bridge_commitIp :: "lib \<Rightarrow> 'w bridge \<Rightarrow> ('w bridge \<times> Status) outcome" where
  "Bridge_commitIp L b =
     bind_outcome (RouterClient_commitIp L (br_client b)) (\<lambda>(c, st). Ret (b\<lparr>br_client := c\<rparr>, st))"

text \<open>
  The two loops of \<^verbatim>\<open>start\<close>, each of which pushes onto a vector of the bridge, and the two threads.
  Assigning to a thread that is still joinable ends the program.
\<close>

definition Bridge_start :: "lib \<Rightarrow> 'w bridge \<Rightarrow> ('w bridge \<times> Status) outcome" where
  "Bridge_start L b =
     bind_outcome (retrieve_all (RouterClient_retrievePeerInfo L) (br_client b) (br_peers b))
       (\<lambda>(c1, ps, st1).
       let b1 = b\<lparr>br_client := c1, br_peers := ps\<rparr> in
       if isError st1 then bind_outcome (Bridge_disconnect b1) (\<lambda>b2. Ret (b2, st1))
       else bind_outcome (retrieve_all (RouterClient_retrieveIpConfig L) c1 (br_ipBlocks b1))
         (\<lambda>(c2, ips, st2).
         let b2 = b1\<lparr>br_client := c2, br_ipBlocks := ips\<rparr> in
         if isError st2 then bind_outcome (Bridge_disconnect b2) (\<lambda>b3. Ret (b3, st2))
         else if br_reader b2 \<noteq> Reader_Absent \<or> br_writer b2 \<noteq> Writer_Absent then Fault Terminate
         else Ret (b2\<lparr>br_reader := Reader_Running, br_writer := Writer_Pop\<rparr>, status_ok)))"

text \<open>
  \<^verbatim>\<open>waitForCompletion\<close> joins both threads. \<open>None\<close>: it is still blocked in a join. Joining a thread
  that is not joinable throws.
\<close>

definition Bridge_waitForCompletion :: "'w bridge \<Rightarrow> ('w bridge \<times> Status) outcome option" where
  "Bridge_waitForCompletion b =
     (if br_reader b = Reader_Absent then Some (Fault SystemError)
      else if br_reader b \<noteq> Reader_Exited then None
      else if br_writer b = Writer_Absent then Some (Fault SystemError)
      else if br_writer b \<noteq> Writer_Exited then None
      else (let b1 = b\<lparr>br_reader := Reader_Absent, br_writer := Writer_Absent\<rparr> in
        Some (Ret (b1,
          if isError (br_readerStatus b1) then br_readerStatus b1
          else if isError (br_writerStatus b1) then br_writerStatus b1
          else status_ok))))"

definition Bridge_enumerateIp :: "'w bridge \<Rightarrow> IpConfig list option \<times> Status" where
  "Bridge_enumerateIp b =
     (if RouterClient_getState (br_client b) \<noteq> STARTED then
        (None, mk_status 1 ''The bridge needs to be started in order to enumerate IPs'')
      else (Some (br_ipBlocks b), status_ok))"

definition Bridge_enumeratePeers :: "'w bridge \<Rightarrow> SystemInfo list option \<times> Status" where
  "Bridge_enumeratePeers b =
     (if RouterClient_getState (br_client b) \<noteq> STARTED then
        (None, mk_status 1 ''The bridge needs to be started in order to enumerate peers'')
      else (Some (br_peers b), status_ok))"

text \<open>
  The destructor: \<^verbatim>\<open>disconnect\<close>, then the members go: a thread that is still joinable ends the
  program, and the promises left in the queue break.
\<close>

definition Bridge_destroy :: "'w bridge \<Rightarrow> 'w bridge outcome" where
  "Bridge_destroy b =
     bind_outcome (Bridge_disconnect b) (\<lambda>b1.
       if br_reader b1 \<noteq> Reader_Absent \<or> br_writer b1 \<noteq> Writer_Absent then Fault Terminate
       else Ret (b1\<lparr>br_futures := break_promises (txn_promises (q_items (br_queue b1)))
           (br_futures b1)\<rparr>))"

section \<open>The reader thread\<close>

text \<open>The three lines that end the reader: a status, \<^verbatim>\<open>queue.finish()\<close> and \<^verbatim>\<open>return\<close>.\<close>

definition stop_reader :: "Status \<Rightarrow> 'w bridge \<Rightarrow> 'w bridge" where
  "stop_reader st b = b\<lparr>br_readerStatus := st, br_queue := q_finish (br_queue b),
     br_reader := Reader_Exited\<rparr>"

text \<open>A response: find the request, take it out, fill the buffer of a read, fulfil the promise.\<close>

definition reader_response :: "Transaction \<Rightarrow> 'w bridge \<Rightarrow> 'w bridge outcome" where
  "reader_response txn b =
     (case map_of (br_masterMap b) (txn_initiator txn) of
        None \<Rightarrow> Ret (stop_reader (mk_status 1 (''Got a response for an unknown master: ''
          @ to_string_nat (unat (txn_initiator txn)))) b)
      | Some md \<Rightarrow>
          (case map_of (md_txns md) (txn_id txn) of
             None \<Rightarrow> Ret (stop_reader (mk_status 1 (''Got a response for an unknown request: ''
               @ to_string_nat (unat (txn_id txn)))) b)
           | Some mTxn \<Rightarrow>
               (let b1 = set_masterMap (txn_initiator txn)
                      (md\<lparr>md_txns := AList.delete (txn_id txn) (md_txns md)\<rparr>) b;
                    st = (if txn_ok txn then status_ok else mk_status 1 (txn_message txn))
                in bind_outcome
                  (if txn_type txn = READ_RESP \<and> txn_ok txn
                   then store_bytes (br_mem b1) (tx_buffer mTxn) (txn_data txn)
                   else Ret (br_mem b1)) (\<lambda>mem.
                  Ret (b1\<lparr>br_mem := mem,
                          br_futures := fulfil (tx_promise mTxn) st (br_futures b1)\<rparr>)))))"

text \<open>
  A request: find the slave, run its handler on a buffer of the transaction's size (of the received
  data for a write), and queue the response.
\<close>

definition reader_request :: "'w slaves \<Rightarrow> Transaction \<Rightarrow> 'w bridge \<Rightarrow> 'w bridge outcome" where
  "reader_request S txn b =
     (case map_of (br_slaveMap b) (txn_target txn) of
        None \<Rightarrow> Ret (stop_reader (mk_status 1 (''Got a request meant for an unknown slave: ''
          @ to_string_nat (unat (txn_target txn)))) b)
      | Some p \<Rightarrow>
          bind_outcome
            (if txn_type txn = WRITE_REQ then
               deref p (\<lambda>s. if s \<in> set (br_deleted b) then Fault UseAfterFree
                 else (let (ret, w) = handleWrite S s (txn_size txn) (txn_address txn) (txn_data txn)
                         (br_world b)
                   in Ret (WRITE_RESP, ret, [], w)))
             else if vector_max_size < unat (txn_size txn) then Fault LengthError
             else deref p (\<lambda>s. if s \<in> set (br_deleted b) then Fault UseAfterFree
                 else (let (ret, data, w) = handleRead S s (txn_size txn) (txn_address txn)
                         (replicate (unat (txn_size txn)) 0) (br_world b)
                   in if length data \<noteq> unat (txn_size txn) then Fault OutOfBounds
                      else Ret (READ_RESP, ret, data, w))))
            (\<lambda>(ty, ret, data, w).
             let resp = (new_Transaction True)\<lparr>txn_type := ty, txn_initiator := txn_initiator txn,
                   txn_target := txn_target txn, txn_id := txn_id txn,
                   txn_address := txn_address txn, txn_size := txn_size txn, txn_data := data\<rparr>;
                 resp' = (if ret \<noteq> 0 then resp\<lparr>txn_data := [], txn_ok := False,
                   txn_message := ''Slave operation failed''\<rparr> else resp)
             in Ret (push_txn \<lparr>tx_type = TRANSACTION, tx_buffer = None, tx_txn = resp',
                  tx_promise = None\<rparr> (b\<lparr>br_world := w\<rparr>))))"

text \<open>One round of the loop of \<^verbatim>\<open>Bridge::reader\<close>.\<close>

definition Bridge_reader :: "lib \<Rightarrow> 'w slaves \<Rightarrow> 'w bridge \<Rightarrow> 'w bridge outcome" where
  "Bridge_reader L S b =
     bind_outcome (RouterClient_receiveTransaction L (br_client b)) (\<lambda>(c, t, st).
       let b1 = b\<lparr>br_client := c\<rparr> in
       if isError st then
         Ret (stop_reader (if getCode st \<noteq> DONE_code then st else status_ok) b1)
       else deref t (\<lambda>txn.
         if txn_type txn = READ_RESP \<or> txn_type txn = WRITE_RESP then reader_response txn b1
         else if txn_type txn = READ_REQ \<or> txn_type txn = WRITE_REQ then reader_request S txn b1
         else Ret b1))"

section \<open>The writer thread\<close>

definition stop_writer :: "Status \<Rightarrow> 'w bridge \<Rightarrow> 'w bridge" where
  "stop_writer st b = b\<lparr>br_writerStatus := st, br_writer := Writer_Exited\<rparr>"

text \<open>
  The critical section in which a request gets its identifier and the master map takes it over. An
  entry it replaces is destroyed, and its promise breaks.
\<close>

definition assign_id :: "Txn \<Rightarrow> 'w bridge \<Rightarrow> 'w bridge" where
  "assign_id t b =
     (let i = txn_initiator (tx_txn t); md = masterMap_at i b; n = md_lastTxnId md;
          txn = (tx_txn t)\<lparr>txn_id := n\<rparr>;
          old = (case map_of (md_txns md) n of None \<Rightarrow> [] | Some t' \<Rightarrow> txn_promises [t'])
      in (set_masterMap i (md\<lparr>md_lastTxnId := n + 1,
             md_txns := AList.update n (t\<lparr>tx_txn := txn\<rparr>) (md_txns md)\<rparr>) b)
         \<lparr>br_futures := break_promises old (br_futures b),
          br_writer := Writer_Send txn (Some (i, n))\<rparr>)"

text \<open>
  \<^verbatim>\<open>sendTransaction(*t)\<close>, where \<^verbatim>\<open>t\<close> points into the element the thread holds or, for a request, into
  the master map: if the entry is gone by then, the pointer dangles.
\<close>

definition writer_send :: "lib \<Rightarrow> Transaction \<Rightarrow> (u64 \<times> u64) option \<Rightarrow> 'w bridge \<Rightarrow> 'w bridge outcome" where
  "writer_send L txn key b =
     (if (case key of None \<Rightarrow> False
          | Some (i, n) \<Rightarrow> map_of (md_txns (masterMap_at i b)) n = None) then Fault UseAfterFree
      else (let (c, st) = RouterClient_sendTransaction L txn (br_client b); b1 = b\<lparr>br_client := c\<rparr>
        in Ret (if isError st then stop_writer st b1 else b1\<lparr>br_writer := Writer_Pop\<rparr>)))"

text \<open>The next stretch of \<^verbatim>\<open>Bridge::writer\<close>.\<close>

definition Bridge_writer :: "lib \<Rightarrow> 'w bridge \<Rightarrow> 'w bridge outcome" where
  "Bridge_writer L b = (case br_writer b of
     Writer_Pop \<Rightarrow> (let (r, q) = q_pop (br_queue b); b1 = b\<lparr>br_queue := q\<rparr> in
       Ret (case r of
          Blocked \<Rightarrow> b1
        | Got t \<Rightarrow> b1\<lparr>br_writer := Writer_Popped t\<rparr>
        | Finished \<Rightarrow> b1\<lparr>br_writer := Writer_Logout\<rparr>))
   | Writer_Logout \<Rightarrow>
       (let (c, st) = RouterClient_sendLogout L (br_client b)
        in Ret (stop_writer st (b\<lparr>br_client := c\<rparr>)))
   | Writer_Popped t \<Rightarrow>
       if tx_type t = TERMINATION then
         (let (c, st) = RouterClient_sendTermination L (txn_id (tx_txn t)) (br_client b);
              b1 = b\<lparr>br_client := c\<rparr>
          in Ret (if isError st then stop_writer st b1 else b1\<lparr>br_writer := Writer_Pop\<rparr>))
       else if txn_type (tx_txn t) = READ_REQ \<or> txn_type (tx_txn t) = WRITE_REQ then
         Ret (assign_id t b)
       else Ret (b\<lparr>br_writer := Writer_Send (tx_txn t) None\<rparr>)
   | Writer_Send txn key \<Rightarrow> writer_send L txn key b
   | Writer_Absent \<Rightarrow> Ret b
   | Writer_Exited \<Rightarrow> Ret b)"

end
