(* ===== verification/Bridge_Threads.thy ===== *)
theory Bridge_Threads
  imports Bridge
begin

text \<open>
  The threads of the bridge as a step relation: the reader, the writer, the deliveries of the
  condition variable and the calls of the user interleave in any order. The invariants: who holds
  each promise, and which request identifiers are in use.
\<close>

section \<open>Steps\<close>

inductive bridge_step :: "lib \<Rightarrow> 'w slaves \<Rightarrow> 'w bridge \<Rightarrow> 'w bridge \<Rightarrow> bool" for L S where
  Step_reader: "br_reader b = Reader_Running \<Longrightarrow> Bridge_reader L S b = Ret b' \<Longrightarrow> bridge_step L S b b'"
| Step_writer: "br_writer b \<noteq> Writer_Absent \<Longrightarrow> br_writer b \<noteq> Writer_Exited \<Longrightarrow>
    Bridge_writer L b = Ret b' \<Longrightarrow> bridge_step L S b b'"
| Step_notify: "e = Notify \<or> e = Spurious \<Longrightarrow>
    bridge_step L S b (b\<lparr>br_queue := q_control e (br_queue b)\<rparr>)"
| Step_read: "Master_read m buffer b = (b', f) \<Longrightarrow> bridge_step L S b b'"
| Step_write: "Master_write m buffer b = Ret (b', f) \<Longrightarrow> bridge_step L S b b'"
| Step_terminate: "bridge_step L S b (Master_terminate m b)"
| Step_memory: "bridge_step L S b (b\<lparr>br_mem := mem\<rparr>)"
| Step_connect: "Bridge_connect L E uri b = Ret (b', st) \<Longrightarrow> bridge_step L S b b'"
| Step_registerSlave: "Bridge_registerSlave L slave config b = Ret (b', st) \<Longrightarrow> bridge_step L S b b'"
| Step_registerMaster: "Bridge_registerMaster L name b = Ret (b', i, st) \<Longrightarrow> bridge_step L S b b'"
| Step_commitIp: "Bridge_commitIp L b = Ret (b', st) \<Longrightarrow> bridge_step L S b b'"
| Step_start: "Bridge_start L b = Ret (b', st) \<Longrightarrow> bridge_step L S b b'"
| Step_wait: "Bridge_waitForCompletion b = Some (Ret (b', st)) \<Longrightarrow> bridge_step L S b b'"
| Step_disconnect: "Bridge_disconnect b = Ret b' \<Longrightarrow> bridge_step L S b b'"

text \<open>\<open>bridge_run L S b0 n b\<close>: \<open>n\<close> steps lead from \<open>b0\<close> to \<open>b\<close>.\<close>

inductive bridge_run :: "lib \<Rightarrow> 'w slaves \<Rightarrow> 'w bridge \<Rightarrow> nat \<Rightarrow> 'w bridge \<Rightarrow> bool" for L S b0 where
  Run_start: "bridge_run L S b0 0 b0"
| Run_step: "bridge_run L S b0 n b \<Longrightarrow> bridge_step L S b b' \<Longrightarrow> bridge_run L S b0 (Suc n) b'"

text \<open>The calls of the user that are a few assignments around one call of the client.\<close>

lemmas bridge_call_defs = Bridge_connect_def Bridge_registerSlave_def Bridge_registerMaster_def
  Bridge_commitIp_def Bridge_waitForCompletion_def Master_read_def Master_write_def
  Master_terminate_def get_future_def bind_outcome_eq_Ret Let_def

text \<open>An invariant holds along a run if it holds at the start and every step keeps it.\<close>

lemma bridge_run_invariant:
  assumes "bridge_run L S b0 n b" and "P 0 b0"
    and "\<And>n b b'. bridge_run L S b0 n b \<Longrightarrow> P n b \<Longrightarrow> bridge_step L S b b' \<Longrightarrow> P (Suc n) b'"
  shows "P n b"
  using assms by (induction rule: bridge_run.induct) blast+

section \<open>The client of a bridge\<close>

text \<open>
  The bridge uses its client only through the client's operations: whatever the bridge does, its
  client is where some run of calls leads.
\<close>

definition client_reach :: "lib \<Rightarrow> client \<Rightarrow> client \<Rightarrow> bool" where
  "client_reach L c c' \<longleftrightarrow> (\<exists>ops. client_run L ops c = Ret c')"

lemma client_reach_refl [simp]: "client_reach L c c"
  unfolding client_reach_def by (rule exI [of _ "[]"]) simp

lemma client_reach_trans: "client_reach L c c' \<Longrightarrow> client_reach L c' c'' \<Longrightarrow> client_reach L c c''"
  unfolding client_reach_def using client_run_append by (metis bind_outcome.simps(1))

lemma client_reach_call: "client_call L op c = Ret (c', st) \<Longrightarrow> client_reach L c c'"
  unfolding client_reach_def by (rule exI [of _ "[op]"]) (simp del: client_call.simps)

lemma client_reach_ops:
  "RouterClient_connect L E uri name c = Ret (c', r1) \<Longrightarrow> client_reach L c c'"
  "RouterClient_registerIp L config c = Ret (c', r2) \<Longrightarrow> client_reach L c c'"
  "RouterClient_commitIp L c = Ret (c', st) \<Longrightarrow> client_reach L c c'"
  "RouterClient_retrievePeerInfo L c = Ret (c', r3) \<Longrightarrow> client_reach L c c'"
  "RouterClient_retrieveIpConfig L c = Ret (c', r4) \<Longrightarrow> client_reach L c c'"
  "RouterClient_receiveTransaction L c = Ret (c', r5) \<Longrightarrow> client_reach L c c'"
  "RouterClient_sendTransaction L txn c = (c', st) \<Longrightarrow> client_reach L c c'"
  "RouterClient_sendTermination L i c = (c', st) \<Longrightarrow> client_reach L c c'"
  "RouterClient_sendLogout L c = (c', st) \<Longrightarrow> client_reach L c c'"
  "client_reach L c (RouterClient_disconnect c)"
proof -
  note call = client_reach_call
  show "RouterClient_connect L E uri name c = Ret (c', r1) \<Longrightarrow> client_reach L c c'"
    by (rule call [of L "Connect E uri name" c c' "snd r1"]) (simp split: prod.split)
  show "RouterClient_registerIp L config c = Ret (c', r2) \<Longrightarrow> client_reach L c c'"
    by (rule call [of L "RegisterIp config" c c' "snd r2"]) (simp split: prod.split)
  show "RouterClient_commitIp L c = Ret (c', st) \<Longrightarrow> client_reach L c c'"
    by (rule call [of L CommitIp]) simp
  show "RouterClient_retrievePeerInfo L c = Ret (c', r3) \<Longrightarrow> client_reach L c c'"
    by (rule call [of L RetrievePeerInfo c c' "snd r3"]) (simp split: prod.split)
  show "RouterClient_retrieveIpConfig L c = Ret (c', r4) \<Longrightarrow> client_reach L c c'"
    by (rule call [of L RetrieveIpConfig c c' "snd r4"]) (simp split: prod.split)
  show "RouterClient_receiveTransaction L c = Ret (c', r5) \<Longrightarrow> client_reach L c c'"
    by (rule call [of L ReceiveTransaction c c' "snd r5"]) (simp split: prod.split)
  show "RouterClient_sendTransaction L txn c = (c', st) \<Longrightarrow> client_reach L c c'"
    by (rule call [of L "SendTransaction txn"]) simp
  show "RouterClient_sendTermination L i c = (c', st) \<Longrightarrow> client_reach L c c'"
    by (rule call [of L "SendTermination i"]) simp
  show "RouterClient_sendLogout L c = (c', st) \<Longrightarrow> client_reach L c c'"
    by (rule call [of L SendLogout]) simp
  show "client_reach L c (RouterClient_disconnect c)"
    by (rule call [of L Disconnect]) simp
qed

lemma client_reach_retrieve_all:
  "retrieve_all (RouterClient_retrievePeerInfo L) c ps = Ret (c', ps', st) \<Longrightarrow> client_reach L c c'"
  "retrieve_all (RouterClient_retrieveIpConfig L) c ips = Ret (c', ips', st) \<Longrightarrow> client_reach L c c'"
proof -
  show "retrieve_all (RouterClient_retrievePeerInfo L) c ps = Ret (c', ps', st) \<Longrightarrow> client_reach L c c'"
    by (rule fr.peers.retrieve_all_preserves [where P = "client_reach L c"])
      (auto intro: client_reach_trans client_reach_ops)
  show "retrieve_all (RouterClient_retrieveIpConfig L) c ips = Ret (c', ips', st) \<Longrightarrow> client_reach L c c'"
    by (rule fr.ips.retrieve_all_preserves [where P = "client_reach L c"])
      (auto intro: client_reach_trans client_reach_ops)
qed

text \<open>What each operation of the bridge does with the client.\<close>

lemma push_txn_simps [simp]:
  "br_client (push_txn t b) = br_client b" "br_masterMap (push_txn t b) = br_masterMap b"
  "br_futures (push_txn t b) = br_futures b" "br_writer (push_txn t b) = br_writer b"
  "br_reader (push_txn t b) = br_reader b" "br_queue (push_txn t b) = q_push t (br_queue b)"
  by (simp_all add: push_txn_def)

lemma stop_reader_simps [simp]:
  "br_client (stop_reader st b) = br_client b" "br_masterMap (stop_reader st b) = br_masterMap b"
  "br_futures (stop_reader st b) = br_futures b" "br_writer (stop_reader st b) = br_writer b"
  "br_queue (stop_reader st b) = q_finish (br_queue b)" "br_readerStatus (stop_reader st b) = st"
  "br_reader (stop_reader st b) = Reader_Exited"
  by (simp_all add: stop_reader_def)

lemma stop_writer_simps [simp]:
  "br_client (stop_writer st b) = br_client b" "br_masterMap (stop_writer st b) = br_masterMap b"
  "br_futures (stop_writer st b) = br_futures b" "br_queue (stop_writer st b) = br_queue b"
  "br_writer (stop_writer st b) = Writer_Exited" "br_writerStatus (stop_writer st b) = st"
  "br_reader (stop_writer st b) = br_reader b"
  by (simp_all add: stop_writer_def)

lemma set_masterMap_simps [simp]:
  "br_client (set_masterMap i md b) = br_client b" "br_queue (set_masterMap i md b) = br_queue b"
  "br_futures (set_masterMap i md b) = br_futures b" "br_writer (set_masterMap i md b) = br_writer b"
  "br_masterMap (set_masterMap i md b) = AList.update i md (br_masterMap b)"
  "br_mem (set_masterMap i md b) = br_mem b" "br_reader (set_masterMap i md b) = br_reader b"
  by (simp_all add: set_masterMap_def)

lemma reader_client:
  "post (\<lambda>b'. br_client b' = br_client b) (reader_response txn b)"
  "post (\<lambda>b'. br_client b' = br_client b) (reader_request S txn b)"
proof -
  show "post (\<lambda>b'. br_client b' = br_client b) (reader_response txn b)"
    by (auto simp: reader_response_def Let_def intro!: post_all split: option.split)
  show "post (\<lambda>b'. br_client b' = br_client b) (reader_request S txn b)"
    unfolding reader_request_def
    by (cases "map_of (br_slaveMap b) (txn_target txn)")
      (simp, simp add: Let_def del: post_deref split del: if_split,
        rule post_all, simp split: prod.split)
qed

lemma Bridge_disconnect_client:
  "Bridge_disconnect b = Ret b' \<Longrightarrow> br_client b' = RouterClient_disconnect (br_client b)"
  by (auto simp: Bridge_disconnect_def Let_def split: if_splits)

lemma Bridge_reader_client:
  assumes "Bridge_reader L S b = Ret b'"
  shows "client_reach L (br_client b) (br_client b')"
proof -
  obtain c t st where r: "RouterClient_receiveTransaction L (br_client b) = Ret (c, t, st)"
    using assms by (auto simp: Bridge_reader_def bind_outcome_eq_Ret)
  have "post (\<lambda>b'. br_client b' = c) (Bridge_reader L S b)"
    using reader_client [of "b\<lparr>br_client := c\<rparr>"] by (auto simp: Bridge_reader_def r Let_def)
  from postD [OF this assms] show ?thesis
    using client_reach_ops(6) [OF r] by simp
qed

lemma Bridge_writer_client:
  assumes "Bridge_writer L b = Ret b'"
  shows "client_reach L (br_client b) (br_client b')"
proof (cases "br_writer b")
  case (Writer_Popped t)
  with assms show ?thesis
    by (auto simp: Bridge_writer_def assign_id_def Let_def intro: client_reach_ops
        split: if_splits prod.splits)
next
  case (Writer_Send txn key)
  obtain c st where "RouterClient_sendTransaction L txn (br_client b) = (c, st)"
    by fastforce
  with Writer_Send assms show ?thesis
    by (auto simp: Bridge_writer_def writer_send_def Let_def intro: client_reach_ops split: if_splits)
next
  case Writer_Pop
  obtain r q where "q_pop (br_queue b) = (r, q)"
    by fastforce
  with Writer_Pop assms show ?thesis
    by (cases r) (auto simp: Bridge_writer_def)
next
  case Writer_Logout
  with assms show ?thesis
    by (auto simp: Bridge_writer_def intro: client_reach_ops split: prod.splits)
qed (use assms in \<open>auto simp: Bridge_writer_def\<close>)

lemma Bridge_start_client:
  assumes "Bridge_start L b = Ret (b', st)"
  shows "client_reach L (br_client b) (br_client b')"
proof -
  obtain c1 ps st1 where r1:
    "retrieve_all (RouterClient_retrievePeerInfo L) (br_client b) (br_peers b) = Ret (c1, ps, st1)"
    using assms by (auto simp: Bridge_start_def bind_outcome_eq_Ret)
  note c1 = client_reach_retrieve_all(1) [OF r1]
  show ?thesis
  proof (cases "isError st1")
    case True
    with assms r1 have "br_client b' = RouterClient_disconnect c1"
      by (auto simp: Bridge_start_def Let_def bind_outcome_eq_Ret Bridge_disconnect_client)
    with c1 show ?thesis
      using client_reach_trans client_reach_ops(10) by metis
  next
    case False
    obtain c2 ips st2 where r2:
      "retrieve_all (RouterClient_retrieveIpConfig L) c1 (br_ipBlocks b) = Ret (c2, ips, st2)"
      using assms r1 False by (auto simp: Bridge_start_def Let_def bind_outcome_eq_Ret)
    have "br_client b' = c2 \<or> br_client b' = RouterClient_disconnect c2"
      using assms r1 r2 False
      by (auto simp: Bridge_start_def Let_def bind_outcome_eq_Ret Bridge_disconnect_client
          split: if_splits)
    then show ?thesis
      using c1 client_reach_retrieve_all(2) [OF r2] client_reach_trans client_reach_ops(10) by metis
  qed
qed

lemma bridge_step_client:
  assumes "bridge_step L S b b'"
  shows "client_reach L (br_client b) (br_client b')"
  using assms
proof cases
  case Step_reader
  then show ?thesis by (blast intro: Bridge_reader_client)
next
  case Step_writer
  then show ?thesis by (blast intro: Bridge_writer_client)
next
  case Step_start
  then show ?thesis by (blast intro: Bridge_start_client)
next
  case Step_disconnect
  then show ?thesis by (auto simp: Bridge_disconnect_client intro: client_reach_ops)
qed (auto simp: bridge_call_defs intro: client_reach_ops split: if_splits)

lemma bridge_run_client:
  assumes "bridge_run L S b0 n b"
  shows "client_reach L (br_client b0) (br_client b)"
  by (rule bridge_run_invariant [OF assms]) (auto intro: client_reach_trans bridge_step_client)

section \<open>Who holds a promise\<close>

text \<open>
  Every promise whose future is pending is held in one place: by an element of the queue, by the
  element the writer has popped, or by a request in the master map. \<open>pend i\<close> counts the promise of
  future \<open>i\<close> in an element, \<open>md_pend i\<close> in an entry of the master map.
\<close>

definition pend :: "nat \<Rightarrow> Txn \<Rightarrow> nat" where
  "pend i t = (if tx_promise t = Some i then 1 else 0)"

definition md_pend :: "nat \<Rightarrow> MasterMd \<Rightarrow> nat" where
  "md_pend i md = val_sum (pend i) (md_txns md)"

fun writer_txns :: "writer \<Rightarrow> Txn list" where
  "writer_txns (Writer_Popped t) = [t]"
| "writer_txns _ = []"

text \<open>Only a request has a promise somebody waits for.\<close>

definition is_request :: "Txn \<Rightarrow> bool" where
  "is_request t \<longleftrightarrow> tx_type t = TRANSACTION
     \<and> (txn_type (tx_txn t) = READ_REQ \<or> txn_type (tx_txn t) = WRITE_REQ)"

definition promises_ok :: "Txn list \<Rightarrow> Txn list \<Rightarrow> (u64 \<times> MasterMd) list \<Rightarrow> future list \<Rightarrow> bool" where
  "promises_ok items ws mm fs \<longleftrightarrow>
     (\<forall>i. sum_list (map (pend i) items) + sum_list (map (pend i) ws) + val_sum (md_pend i) mm
        = (if i < length fs \<and> fs ! i = Pending then 1 else 0))
     \<and> (\<forall>t \<in> set items \<union> set ws. tx_promise t = None \<or> is_request t)
     \<and> distinct (map fst mm)
     \<and> (\<forall>(k, md) \<in> set mm. distinct (map fst (md_txns md)))"

definition bridge_inv :: "'w bridge \<Rightarrow> bool" where
  "bridge_inv b \<longleftrightarrow> promises_ok (q_items (br_queue b)) (writer_txns (br_writer b)) (br_masterMap b)
     (br_futures b)"

definition md_at :: "(u64 \<times> MasterMd) list \<Rightarrow> u64 \<Rightarrow> MasterMd" where
  "md_at mm i = (case map_of mm i of None \<Rightarrow> new_MasterMd | Some md \<Rightarrow> md)"

lemma masterMap_at_md_at: "masterMap_at i b = md_at (br_masterMap b) i"
  by (simp add: masterMap_at_def md_at_def)

lemma set_update_cases: "(k, v) \<in> set (AList.update k' v' al) \<Longrightarrow> v = v' \<or> (k, v) \<in> set al"
  by (induction al) (auto split: if_splits)

lemma md_at_cases: "md_at mm k = new_MasterMd \<or> (k, md_at mm k) \<in> set mm"
  by (auto simp: md_at_def dest: map_of_SomeD split: option.split)

lemma promises_ok_md_at: "promises_ok items ws mm fs \<Longrightarrow> distinct (map fst (md_txns (md_at mm k)))"
  using md_at_cases [of mm k] by (auto simp: promises_ok_def new_MasterMd_def)

lemma md_pend_new [simp]: "md_pend i new_MasterMd = 0"
  by (simp add: md_pend_def new_MasterMd_def)

lemma md_pend_update_masterMap:
  "val_sum (md_pend i) (AList.update k md' mm) + md_pend i (md_at mm k)
   = val_sum (md_pend i) mm + md_pend i md'"
  using val_sum_update [of "md_pend i" k md' mm] by (auto simp: md_at_def split: option.splits)

lemma md_pend_le: "md_pend i (md_at mm k) \<le> val_sum (md_pend i) mm"
  using val_sum_le [of mm k _ "md_pend i"] by (auto simp: md_at_def split: option.split)

lemma promises_ok_update:
  assumes "promises_ok items ws mm fs" and "distinct (map fst (md_txns md'))"
    and "\<forall>t \<in> set items' \<union> set ws'. tx_promise t = None \<or> is_request t"
    and "\<And>i. sum_list (map (pend i) items') + sum_list (map (pend i) ws') + md_pend i md'
        + (if i < length fs \<and> fs ! i = Pending then 1 else 0)
      = sum_list (map (pend i) items) + sum_list (map (pend i) ws) + md_pend i (md_at mm k)
        + (if i < length fs' \<and> fs' ! i = Pending then 1 else 0)"
  shows "promises_ok items' ws' (AList.update k md' mm) fs'"
proof -
  have "sum_list (map (pend i) items') + sum_list (map (pend i) ws')
      + val_sum (md_pend i) (AList.update k md' mm)
    = (if i < length fs' \<and> fs' ! i = Pending then 1 else 0)" for i
  proof -
    have "sum_list (map (pend i) items) + sum_list (map (pend i) ws) + val_sum (md_pend i) mm
        = (if i < length fs \<and> fs ! i = Pending then 1 else 0)"
      using assms(1) by (simp add: promises_ok_def)
    with assms(4) [of i] md_pend_update_masterMap [of i k md' mm] md_pend_le [of i mm k]
    show ?thesis by linarith
  qed
  moreover have "distinct (map fst (AList.update k md' mm))"
    using assms(1) by (simp add: promises_ok_def AList.distinct_update)
  moreover have "\<forall>(k, md) \<in> set (AList.update k md' mm). distinct (map fst (md_txns md))"
    using assms(1,2) by (auto simp: promises_ok_def dest!: set_update_cases)
  ultimately show ?thesis
    using assms(3) by (simp add: promises_ok_def)
qed

lemma length_break_promises [simp]: "length (break_promises is fs) = length fs"
  by (simp add: break_promises_def)

lemma break_promises_nth:
  "i < length fs \<Longrightarrow> break_promises is fs ! i = (if i \<in> set is \<and> fs ! i = Pending then Broken else fs ! i)"
  by (simp add: break_promises_def)

text \<open>The moves of an element.\<close>

lemma promises_ok_push_future:
  assumes "promises_ok items ws mm fs" "is_request t" "tx_promise t = Some (length fs)"
  shows "promises_ok (items @ [t]) ws mm (fs @ [Pending])"
proof -
  have "sum_list (map (pend i) (items @ [t])) + sum_list (map (pend i) ws) + val_sum (md_pend i) mm
    = (if i < length (fs @ [Pending]) \<and> (fs @ [Pending]) ! i = Pending then 1 else 0)" for i
  proof -
    have "sum_list (map (pend i) items) + sum_list (map (pend i) ws) + val_sum (md_pend i) mm
        = (if i < length fs \<and> fs ! i = Pending then 1 else 0)"
      using assms(1) by (simp add: promises_ok_def)
    moreover have "pend i t = (if i = length fs then 1 else 0)"
      using assms(3) by (auto simp: pend_def)
    ultimately show ?thesis
      by (auto simp: nth_append split: if_splits)
  qed
  then show ?thesis
    using assms by (auto simp: promises_ok_def)
qed

lemma promises_ok_push:
  "promises_ok items ws mm fs \<Longrightarrow> tx_promise t = None \<Longrightarrow> promises_ok (items @ [t]) ws mm fs"
  by (auto simp: promises_ok_def pend_def)

lemma promises_ok_pop: "promises_ok (t # items) [] mm fs \<Longrightarrow> promises_ok items [t] mm fs"
  by (auto simp: promises_ok_def ac_simps)

lemma promises_ok_drop:
  assumes "promises_ok items [t] mm fs" "\<not> is_request t"
  shows "promises_ok items [] mm fs"
proof -
  have "tx_promise t = None"
    using assms by (simp add: promises_ok_def)
  then have "pend i t = 0" for i
    by (simp add: pend_def)
  with assms(1) show ?thesis
    by (simp add: promises_ok_def)
qed

lemma promises_ok_assign:
  assumes ok: "promises_ok items [t] mm fs" and "tx_promise t' = tx_promise t"
  shows "promises_ok items []
    (AList.update k ((md_at mm k)\<lparr>md_lastTxnId := m, md_txns := AList.update n t' (md_txns (md_at mm k))\<rparr>) mm)
    (break_promises (case map_of (md_txns (md_at mm k)) n of None \<Rightarrow> [] | Some u \<Rightarrow> txn_promises [u]) fs)"
proof (rule promises_ok_update [OF ok])
  let ?txns = "md_txns (md_at mm k)"
  let ?old = "case map_of ?txns n of None \<Rightarrow> [] | Some u \<Rightarrow> txn_promises [u]"
  show "distinct (map fst (md_txns ((md_at mm k)\<lparr>md_lastTxnId := m, md_txns := AList.update n t' ?txns\<rparr>)))"
    using promises_ok_md_at [OF ok, of k] by (simp add: AList.distinct_update)
  show "\<forall>t \<in> set items \<union> set []. tx_promise t = None \<or> is_request t"
    using ok by (simp add: promises_ok_def)
  fix i
  define o0 where "o0 = (case map_of ?txns n of None \<Rightarrow> 0 | Some u \<Rightarrow> pend i u)"
  have old: "i \<in> set ?old \<longleftrightarrow> o0 = 1" "o0 \<le> 1"
    by (auto simp: o0_def txn_promises_def pend_def map_filter_def split: option.split)
  have "o0 \<le> md_pend i (md_at mm k)"
    using val_sum_le [of ?txns n _ "pend i"] by (auto simp: o0_def md_pend_def split: option.split)
  then have "o0 \<le> val_sum (md_pend i) mm"
    using md_pend_le [of i mm k] by linarith
  then have "o0 = 1 \<Longrightarrow> i < length fs \<and> fs ! i = Pending"
    using ok by (auto simp: promises_ok_def split: if_splits)
  then have "(if i < length fs \<and> fs ! i = Pending then 1 else 0 :: nat)
      = o0 + (if i < length (break_promises ?old fs) \<and> break_promises ?old fs ! i = Pending then 1 else 0)"
    using old by (auto simp: break_promises_nth)
  moreover have "md_pend i ((md_at mm k)\<lparr>md_lastTxnId := m, md_txns := AList.update n t' ?txns\<rparr>) + o0
      = md_pend i (md_at mm k) + pend i t"
    using val_sum_update [of "pend i" n t' ?txns] assms(2) by (simp add: md_pend_def o0_def pend_def)
  ultimately show "sum_list (map (pend i) items) + sum_list (map (pend i) [])
      + md_pend i ((md_at mm k)\<lparr>md_lastTxnId := m, md_txns := AList.update n t' ?txns\<rparr>)
      + (if i < length fs \<and> fs ! i = Pending then 1 else 0)
    = sum_list (map (pend i) items) + sum_list (map (pend i) [t]) + md_pend i (md_at mm k)
      + (if i < length (break_promises ?old fs) \<and> break_promises ?old fs ! i = Pending then 1 else 0)"
    by simp
qed

lemma promises_ok_response:
  assumes ok: "promises_ok items ws mm fs" and "map_of mm k = Some md" "map_of (md_txns md) n = Some t"
  shows "promises_ok items ws (AList.update k (md\<lparr>md_txns := AList.delete n (md_txns md)\<rparr>) mm)
    (fulfil (tx_promise t) st fs)"
proof (rule promises_ok_update [OF ok])
  have md: "md_at mm k = md"
    using assms(2) by (simp add: md_at_def)
  then have dist: "distinct (map fst (md_txns md))"
    using promises_ok_md_at [OF ok, of k] by simp
  then show "distinct (map fst (md_txns (md\<lparr>md_txns := AList.delete n (md_txns md)\<rparr>)))"
    by (simp add: AList.distinct_delete)
  show "\<forall>t \<in> set items \<union> set ws. tx_promise t = None \<or> is_request t"
    using ok by (simp add: promises_ok_def)
  fix i
  have del: "md_pend i (md\<lparr>md_txns := AList.delete n (md_txns md)\<rparr>) + pend i t = md_pend i md"
    using val_sum_delete [OF dist, of "pend i" n] assms(3) by (simp add: md_pend_def)
  then have "pend i t = 1 \<Longrightarrow> i < length fs \<and> fs ! i = Pending"
    using ok md_pend_le [of i mm k] md by (auto simp: promises_ok_def split: if_splits)
  then have "(if i < length fs \<and> fs ! i = Pending then 1 else 0 :: nat)
      = pend i t + (if i < length (fulfil (tx_promise t) st fs)
          \<and> fulfil (tx_promise t) st fs ! i = Pending then 1 else 0)"
    by (auto simp: fulfil_def pend_def nth_list_update split: option.splits if_splits)
  with del md show "sum_list (map (pend i) items) + sum_list (map (pend i) ws)
      + md_pend i (md\<lparr>md_txns := AList.delete n (md_txns md)\<rparr>)
      + (if i < length fs \<and> fs ! i = Pending then 1 else 0)
    = sum_list (map (pend i) items) + sum_list (map (pend i) ws) + md_pend i (md_at mm k)
      + (if i < length (fulfil (tx_promise t) st fs)
          \<and> fulfil (tx_promise t) st fs ! i = Pending then 1 else 0)"
    by simp
qed

lemma promises_ok_master:
  assumes "promises_ok items ws mm fs" "md_txns md' = md_txns (md_at mm k)"
  shows "promises_ok items ws (AList.update k md' mm) fs"
  using assms promises_ok_md_at [OF assms(1), of k]
  by (intro promises_ok_update [OF assms(1)]) (auto simp: promises_ok_def md_pend_def)

text \<open>The promises in a list of entries, by membership and by number.\<close>

lemma txn_promises_pend: "i \<in> set (txn_promises (map snd al)) \<longleftrightarrow> val_sum (pend i) al \<noteq> 0"
  by (induction al) (auto simp: txn_promises_def map_filter_def pend_def)

lemma waiting_promises_pend: "i \<in> set (waiting_promises mm) \<longleftrightarrow> val_sum (md_pend i) mm \<noteq> 0"
  by (induction mm) (auto simp: waiting_promises_def md_pend_def txn_promises_pend)

lemma promises_ok_clear:
  assumes "promises_ok items ws mm fs"
  shows "promises_ok items ws [] (break_promises (waiting_promises mm) fs)"
proof -
  have "sum_list (map (pend i) items) + sum_list (map (pend i) ws)
    = (if i < length fs \<and> break_promises (waiting_promises mm) fs ! i = Pending then 1 else 0)" for i
  proof -
    have "sum_list (map (pend i) items) + sum_list (map (pend i) ws) + val_sum (md_pend i) mm
        = (if i < length fs \<and> fs ! i = Pending then 1 else 0)"
      using assms by (simp add: promises_ok_def)
    then show ?thesis
      by (auto simp: break_promises_nth waiting_promises_pend simp del: sum_list_eq_0_iff
          split: if_splits)
  qed
  then show ?thesis
    using assms by (simp add: promises_ok_def)
qed

section \<open>Every step keeps it\<close>

lemma q_pop_items:
  "q_pop q = (Got t, q') \<Longrightarrow> q_items q = t # q_items q'"
  "q_pop q = (Blocked, q') \<Longrightarrow> q_items q' = q_items q"
  "q_pop q = (Finished, q') \<Longrightarrow> q_items q' = q_items q"
  by (rule sq.pop_Got sq.pop_Blocked sq.pop_Finished, assumption)+

lemma new_Bridge_inv: "bridge_inv (new_Bridge name fds mem w)"
  by (simp add: bridge_inv_def new_Bridge_def q_new_def promises_ok_def)

lemma reader_response_inv:
  assumes "bridge_inv b"
  shows "post bridge_inv (reader_response txn b)"
  using assms
  by (auto simp: reader_response_def bridge_inv_def Let_def intro!: post_all
      intro: promises_ok_response split: option.split)

lemma reader_request_inv:
  assumes "bridge_inv b"
  shows "post bridge_inv (reader_request S txn b)"
  unfolding reader_request_def
  by (cases "map_of (br_slaveMap b) (txn_target txn)")
    (use assms in \<open>simp add: bridge_inv_def\<close>, simp add: Let_def del: post_deref split del: if_split,
      rule post_all, use assms in \<open>auto simp: bridge_inv_def intro!: promises_ok_push split: prod.split\<close>)

lemma Bridge_reader_inv:
  assumes "bridge_inv b" "Bridge_reader L S b = Ret b'"
  shows "bridge_inv b'"
proof -
  obtain c t st where r: "RouterClient_receiveTransaction L (br_client b) = Ret (c, t, st)"
    using assms(2) by (auto simp: Bridge_reader_def bind_outcome_eq_Ret)
  have c: "bridge_inv (b\<lparr>br_client := c\<rparr>)" "bridge_inv (stop_reader st' (b\<lparr>br_client := c\<rparr>))" for st'
    using assms(1) by (simp_all add: bridge_inv_def)
  have "post bridge_inv (Bridge_reader L S b)"
    using c reader_response_inv [OF c(1)] reader_request_inv [OF c(1)]
    by (simp add: Bridge_reader_def r Let_def)
  from postD [OF this assms(2)] show ?thesis .
qed

lemma Bridge_writer_inv:
  assumes "bridge_inv b" "Bridge_writer L b = Ret b'"
  shows "bridge_inv b'"
proof (cases "br_writer b")
  case (Writer_Popped t)
  show ?thesis
  proof (cases "is_request t")
    case True
    with Writer_Popped assms(2) have "b' = assign_id t b"
      by (auto simp: Bridge_writer_def is_request_def)
    then show ?thesis
      using assms(1) Writer_Popped
      by (simp add: bridge_inv_def assign_id_def Let_def masterMap_at_md_at promises_ok_assign)
  next
    case False
    have "promises_ok (q_items (br_queue b)) [] (br_masterMap b) (br_futures b)"
      using assms(1) Writer_Popped False by (auto simp: bridge_inv_def intro: promises_ok_drop)
    with Writer_Popped False assms(2) show ?thesis
      by (cases "tx_type t") (auto simp: Bridge_writer_def bridge_inv_def is_request_def Let_def
          split: if_splits prod.splits)
  qed
next
  case (Writer_Send txn key)
  with assms show ?thesis
    by (auto simp: Bridge_writer_def writer_send_def bridge_inv_def Let_def
        split: if_splits prod.splits)
next
  case Writer_Pop
  obtain r q where "q_pop (br_queue b) = (r, q)"
    by fastforce
  with Writer_Pop assms show ?thesis
    by (cases r) (auto simp: Bridge_writer_def bridge_inv_def q_pop_items intro: promises_ok_pop)
next
  case Writer_Logout
  with assms show ?thesis
    by (auto simp: Bridge_writer_def bridge_inv_def split: prod.splits)
qed (use assms in \<open>auto simp: Bridge_writer_def\<close>)

lemma Bridge_disconnect_inv:
  "bridge_inv b \<Longrightarrow> Bridge_disconnect b = Ret b' \<Longrightarrow> bridge_inv b'"
  by (auto simp: Bridge_disconnect_def bridge_inv_def Let_def promises_ok_clear split: if_splits)

lemma Bridge_start_inv:
  "bridge_inv b \<Longrightarrow> Bridge_start L b = Ret (b', st) \<Longrightarrow> bridge_inv b'"
  by (auto simp: Bridge_start_def bind_outcome_eq_Ret Let_def split: if_splits
      elim!: Bridge_disconnect_inv [rotated]) (auto simp: bridge_inv_def)

lemma bridge_step_inv:
  assumes "bridge_step L S b b'" "bridge_inv b"
  shows "bridge_inv b'"
  using assms
proof cases
  case Step_reader
  with assms(2) show ?thesis by (blast intro: Bridge_reader_inv)
next
  case Step_writer
  with assms(2) show ?thesis by (blast intro: Bridge_writer_inv)
next
  case Step_start
  with assms(2) show ?thesis by (blast intro: Bridge_start_inv)
next
  case Step_disconnect
  with assms(2) show ?thesis by (blast intro: Bridge_disconnect_inv)
next
  case Step_read
  with assms(2) show ?thesis
    by (auto simp: Master_read_def get_future_def Let_def bridge_inv_def is_request_def
        intro!: promises_ok_push_future)
next
  case Step_write
  with assms(2) show ?thesis
    by (auto simp: Master_write_def get_future_def Let_def bridge_inv_def is_request_def
        bind_outcome_eq_Ret intro!: promises_ok_push_future split: if_splits)
next
  case Step_terminate
  with assms(2) show ?thesis
    by (auto simp: Master_terminate_def bridge_inv_def intro!: promises_ok_push)
next
  case Step_registerMaster
  with assms(2) show ?thesis
    by (auto simp: bridge_call_defs bridge_inv_def masterMap_at_md_at intro!: promises_ok_master
        split: if_splits)
qed (use assms(2) in \<open>auto simp: bridge_call_defs bridge_inv_def split: if_splits\<close>)

lemma bridge_run_inv:
  assumes "bridge_run L S b0 n b" "bridge_inv b0"
  shows "bridge_inv b"
  by (rule bridge_run_invariant [OF assms(1)]) (auto intro: assms(2) bridge_step_inv)

section \<open>Identifiers of requests\<close>

text \<open>
  After \<open>n\<close> steps a master has used at most \<open>n\<close> identifiers, and the requests that wait for a response
  carry the number and the master under which they are filed, a number below the next one.
\<close>

definition filed :: "u64 \<Rightarrow> u64 \<Rightarrow> Txn \<Rightarrow> bool" where
  "filed i k t \<longleftrightarrow> is_request t \<and> txn_id (tx_txn t) = k \<and> txn_initiator (tx_txn t) = i"

definition ids_below :: "nat \<Rightarrow> u64 \<Rightarrow> MasterMd \<Rightarrow> bool" where
  "ids_below n i md \<longleftrightarrow> unat (md_lastTxnId md) \<le> n
     \<and> (\<forall>(k, t) \<in> set (md_txns md). k < md_lastTxnId md \<and> filed i k t)"

definition ids_ok :: "nat \<Rightarrow> (u64 \<times> MasterMd) list \<Rightarrow> bool" where
  "ids_ok n mm \<longleftrightarrow> (\<forall>(i, md) \<in> set mm. ids_below n i md)"

lemma ids_below_new: "ids_below n i new_MasterMd"
  by (simp add: ids_below_def new_MasterMd_def)

lemma ids_below_mono: "ids_below n i md \<Longrightarrow> n \<le> m \<Longrightarrow> ids_below m i md"
  by (simp add: ids_below_def)

lemma ids_ok_mono: "ids_ok n mm \<Longrightarrow> n \<le> m \<Longrightarrow> ids_ok m mm"
  by (auto simp: ids_ok_def intro: ids_below_mono)

lemma ids_ok_md_at: "ids_ok n mm \<Longrightarrow> ids_below n i (md_at mm i)"
  using md_at_cases [of mm i] by (auto simp: ids_ok_def ids_below_new)

lemma set_update_key: "(k, v) \<in> set (AList.update k' v' al) \<Longrightarrow> k = k' \<and> v = v' \<or> (k, v) \<in> set al"
  by (induction al) (auto split: if_splits)

lemma ids_ok_update: "ids_ok n mm \<Longrightarrow> ids_below n i md \<Longrightarrow> ids_ok n (AList.update i md mm)"
  by (auto simp: ids_ok_def dest!: set_update_key)

lemma ids_below_assign:
  assumes "ids_below n i md" "Suc n < 2 ^ 64" "filed i (md_lastTxnId md) t"
  shows "ids_below (Suc n) i (md\<lparr>md_lastTxnId := md_lastTxnId md + 1,
    md_txns := AList.update (md_lastTxnId md) t (md_txns md)\<rparr>)"
proof -
  have "unat (md_lastTxnId md) < 2 ^ 64 - 1"
    using assms(1,2) by (simp add: ids_below_def)
  then have inc: "unat (md_lastTxnId md + 1) = Suc (unat (md_lastTxnId md))"
    by (simp add: unat_word_ariths(1) unat_word_ariths)
  then show ?thesis
    using assms(1,3) by (auto simp: ids_below_def word_less_nat_alt dest!: set_update_key)
qed

lemma ids_below_delete:
  "ids_below n i md \<Longrightarrow> ids_below n i (md\<lparr>md_txns := AList.delete k (md_txns md)\<rparr>)"
  by (auto simp: ids_below_def AList.delete_eq)

text \<open>How a step changes the master map.\<close>

definition md_assign :: "Txn \<Rightarrow> MasterMd \<Rightarrow> MasterMd" where
  "md_assign t md = md\<lparr>md_lastTxnId := md_lastTxnId md + 1,
     md_txns := AList.update (md_lastTxnId md)
       (t\<lparr>tx_txn := (tx_txn t)\<lparr>txn_id := md_lastTxnId md\<rparr>\<rparr>) (md_txns md)\<rparr>"

lemma assign_id_masterMap: "br_masterMap (assign_id t b) =
  AList.update (txn_initiator (tx_txn t)) (md_assign t (md_at (br_masterMap b) (txn_initiator (tx_txn t))))
    (br_masterMap b)"
  by (simp add: assign_id_def Let_def md_assign_def masterMap_at_md_at)

inductive masterMap_step :: "writer \<Rightarrow> (u64 \<times> MasterMd) list \<Rightarrow> (u64 \<times> MasterMd) list \<Rightarrow> bool"
  for w mm where
  Keep: "masterMap_step w mm mm"
| Clear: "masterMap_step w mm []"
| Register: "masterMap_step w mm (AList.update i ((md_at mm i)\<lparr>md_master := Some i\<rparr>) mm)"
| Complete: "map_of mm i = Some md \<Longrightarrow>
    masterMap_step w mm (AList.update i (md\<lparr>md_txns := AList.delete k (md_txns md)\<rparr>) mm)"
| Assign: "w = Writer_Popped t \<Longrightarrow> is_request t \<Longrightarrow> i = txn_initiator (tx_txn t) \<Longrightarrow>
    masterMap_step w mm (AList.update i (md_assign t (md_at mm i)) mm)"

lemma masterMap_step_eq: "mm' = mm \<or> mm' = [] \<Longrightarrow> masterMap_step w mm mm'"
  by (auto intro: masterMap_step.intros)

lemma masterMap_step_ids:
  assumes "masterMap_step w mm mm'" "ids_ok n mm" "Suc n < 2 ^ 64"
  shows "ids_ok (Suc n) mm'"
proof -
  have mm: "ids_ok (Suc n) mm"
    using ids_ok_mono [OF assms(2)] by simp
  from assms(1) show ?thesis
  proof cases
    case Keep
    with mm show ?thesis by simp
  next
    case Clear
    then show ?thesis by (simp add: ids_ok_def)
  next
    case (Register i)
    have "ids_below (Suc n) i ((md_at mm i)\<lparr>md_master := Some i\<rparr>)"
      using ids_ok_md_at [OF mm, of i] by (simp add: ids_below_def)
    with mm Register show ?thesis by (simp add: ids_ok_update)
  next
    case (Complete i md k)
    then have "ids_below (Suc n) i md"
      using mm by (auto simp: ids_ok_def dest!: map_of_SomeD)
    with mm Complete show ?thesis by (simp add: ids_ok_update ids_below_delete)
  next
    case (Assign t i)
    have "filed i (md_lastTxnId (md_at mm i)) (t\<lparr>tx_txn := (tx_txn t)\<lparr>txn_id := md_lastTxnId (md_at mm i)\<rparr>\<rparr>)"
      using Assign by (simp add: filed_def is_request_def)
    then have "ids_below (Suc n) i (md_assign t (md_at mm i))"
      unfolding md_assign_def by (rule ids_below_assign [OF ids_ok_md_at [OF assms(2)] assms(3)])
    with mm Assign show ?thesis by (simp add: ids_ok_update)
  qed
qed

lemma reader_masterMap:
  "post (\<lambda>b'. masterMap_step w (br_masterMap b) (br_masterMap b')) (reader_response txn b)"
  "post (\<lambda>b'. br_masterMap b' = br_masterMap b) (reader_request S txn b)"
proof -
  show "post (\<lambda>b'. masterMap_step w (br_masterMap b) (br_masterMap b')) (reader_response txn b)"
    by (auto simp: reader_response_def Let_def intro!: post_all
        intro: masterMap_step.intros split: option.split)
  show "post (\<lambda>b'. br_masterMap b' = br_masterMap b) (reader_request S txn b)"
    unfolding reader_request_def
    by (cases "map_of (br_slaveMap b) (txn_target txn)")
      (simp, simp add: Let_def del: post_deref split del: if_split,
        rule post_all, simp split: prod.split)
qed

lemma Bridge_reader_masterMap:
  assumes "Bridge_reader L S b = Ret b'"
  shows "masterMap_step w (br_masterMap b) (br_masterMap b')"
proof -
  obtain c t st where r: "RouterClient_receiveTransaction L (br_client b) = Ret (c, t, st)"
    using assms by (auto simp: Bridge_reader_def bind_outcome_eq_Ret)
  have "post (\<lambda>b'. masterMap_step w (br_masterMap b) (br_masterMap b'))
      (reader_request S txn (b\<lparr>br_client := c\<rparr>))" for txn
    by (rule post_weaken [OF reader_masterMap(2)]) (simp add: masterMap_step_eq)
  then have "post (\<lambda>b'. masterMap_step w (br_masterMap b) (br_masterMap b')) (Bridge_reader L S b)"
    using reader_masterMap(1) [where b = "b\<lparr>br_client := c\<rparr>" and w = w]
    by (auto simp: Bridge_reader_def r Let_def masterMap_step_eq)
  from postD [OF this assms] show ?thesis .
qed

lemma Bridge_writer_masterMap:
  assumes "Bridge_writer L b = Ret b'"
  shows "masterMap_step (br_writer b) (br_masterMap b) (br_masterMap b')"
proof (cases "br_writer b")
  case (Writer_Popped t)
  show ?thesis
  proof (cases "is_request t")
    case True
    with Writer_Popped assms have "b' = assign_id t b"
      by (auto simp: Bridge_writer_def is_request_def)
    then show ?thesis
      using Writer_Popped True by (auto simp: assign_id_masterMap intro: masterMap_step.Assign)
  next
    case False
    with Writer_Popped assms show ?thesis
      by (cases "tx_type t") (auto simp: Bridge_writer_def is_request_def Let_def
          split: if_splits prod.splits intro: masterMap_step_eq)
  qed
next
  case (Writer_Send txn key)
  with assms show ?thesis
    by (auto simp: Bridge_writer_def writer_send_def Let_def split: if_splits prod.splits
        intro: masterMap_step_eq)
next
  case Writer_Pop
  obtain r q where "q_pop (br_queue b) = (r, q)"
    by fastforce
  with Writer_Pop assms show ?thesis
    by (cases r) (auto simp: Bridge_writer_def intro: masterMap_step_eq)
next
  case Writer_Logout
  with assms show ?thesis
    by (auto simp: Bridge_writer_def split: prod.splits intro: masterMap_step_eq)
qed (use assms in \<open>auto simp: Bridge_writer_def intro: masterMap_step_eq\<close>)

lemma Bridge_disconnect_masterMap: "Bridge_disconnect b = Ret b' \<Longrightarrow> br_masterMap b' = []"
  by (auto simp: Bridge_disconnect_def Let_def split: if_splits)

lemma bridge_step_masterMap:
  assumes "bridge_step L S b b'"
  shows "masterMap_step (br_writer b) (br_masterMap b) (br_masterMap b')"
  using assms
proof cases
  case Step_reader
  then show ?thesis by (blast intro: Bridge_reader_masterMap)
next
  case Step_writer
  then show ?thesis by (blast intro: Bridge_writer_masterMap)
next
  case Step_disconnect
  then show ?thesis by (auto dest!: Bridge_disconnect_masterMap intro: masterMap_step_eq)
next
  case Step_start
  then show ?thesis
    by (auto simp: Bridge_start_def bind_outcome_eq_Ret Let_def dest!: Bridge_disconnect_masterMap
        intro!: masterMap_step_eq split: if_splits)
qed (auto simp: bridge_call_defs masterMap_at_md_at intro: masterMap_step.intros split: if_splits)

lemma bridge_run_ids:
  assumes "bridge_run L S b0 n b" "br_masterMap b0 = []" "n < 2 ^ 64"
  shows "ids_ok n (br_masterMap b)"
proof -
  have "n < 2 ^ 64 \<longrightarrow> ids_ok n (br_masterMap b)"
    by (rule bridge_run_invariant [OF assms(1), where P = "\<lambda>n b. n < 2 ^ 64 \<longrightarrow> ids_ok n (br_masterMap b)"])
      (auto simp: assms(2) ids_ok_def [of 0] intro: masterMap_step_ids bridge_step_masterMap)
  with assms(3) show ?thesis by simp
qed

lemma ids_ok_fresh:
  assumes "ids_ok n mm"
  shows "map_of (md_txns (md_at mm i)) (md_lastTxnId (md_at mm i)) = None"
  using ids_ok_md_at [OF assms, of i]
  by (auto simp: ids_below_def map_of_eq_None_iff)

end
