(* ===== verification/Bridge_Properties.thy ===== *)
theory Bridge_Properties
  imports Bridge_Threads Client_Properties
begin

text \<open>
  The properties of the bridge (\<^verbatim>\<open>src/lib/SwAxi.cc\<close>): the start of the traffic, the completion of
  requests, the service of requests to slaves, and the end of the session.
\<close>

section \<open>Starting\<close>

context client_source
begin

lemma Bridge_start_pending:
  assumes L: "codec L" and st: "c_state (br_client b) = COMMITTED" "c_sock (br_client b) \<noteq> -1"
    and ps: "list_all2 announces_peer pms ps" "wm_type ack1 = Type_ACK"
    and ips: "list_all2 announces_ip ims ips" "wm_type ack2 = Type_ACK"
    and inc: "pending (c_in (br_client b)) (map (lib_encode L) (pms @ ack1 # ims @ ack2 # rest))"
    and thr: "br_reader b = Reader_Absent" "br_writer b = Writer_Absent"
  obtains k where "pending k (map (lib_encode L) rest)"
    "Bridge_start L b = Ret (b\<lparr>br_client := (br_client b)\<lparr>c_state := STARTED, c_in := k\<rparr>,
       br_peers := br_peers b @ ps, br_ipBlocks := br_ipBlocks b @ ips,
       br_reader := Reader_Running, br_writer := Writer_Pop\<rparr>, status_ok)"
proof -
  let ?c = "br_client b"
  have "?c = ?c\<lparr>c_state := COMMITTED, c_in := c_in ?c\<rparr>"
    using st(1) by simp
  then have "listed_on pending L COMMITTED announces_peer (?c, ims @ ack2 # rest) ?c ps"
    using L st(2) ps inc by auto
  from peers.retrieve_all_listed [OF this, of "br_peers b"] obtain c1 where c1:
    "retrieve_all (RouterClient_retrievePeerInfo L) ?c (br_peers b) = Ret (c1, br_peers b @ ps, status_ok)"
    "left_on pending L PEER_INFO_RECEIVED (?c, ims @ ack2 # rest) c1"
    by blast
  then have "listed_on pending L PEER_INFO_RECEIVED announces_ip (?c, rest) c1 ips"
    using L st(2) ips by auto
  from ips.retrieve_all_listed [OF this, of "br_ipBlocks b"] obtain c2 where c2:
    "retrieve_all (RouterClient_retrieveIpConfig L) c1 (br_ipBlocks b) = Ret (c2, br_ipBlocks b @ ips, status_ok)"
    "left_on pending L STARTED (?c, rest) c2"
    by blast
  from c2(2) have eq: "c2 = ?c\<lparr>c_state := STARTED, c_in := c_in c2\<rparr>" and f: "pending (c_in c2) (map (lib_encode L) rest)"
    by simp_all
  have "Bridge_start L b = Ret (b\<lparr>br_client := c2,
       br_peers := br_peers b @ ps, br_ipBlocks := br_ipBlocks b @ ips,
       br_reader := Reader_Running, br_writer := Writer_Pop\<rparr>, status_ok)"
    using thr by (simp add: Bridge_start_def c1(1) c2(1) Let_def)
  with f show ?thesis
    by (intro that [of "c_in c2"]) (simp_all flip: eq)
qed

end

lemmas Bridge_start_incoming = fr.Bridge_start_pending [folded incoming_def]

section \<open>A started bridge for the instances\<close>

definition example_bridge :: "memory \<Rightarrow> nat bridge" where
  "example_bridge mem = new_Bridge ''app'' [] mem 0"

definition example_slaves :: "nat slaves" where
  "example_slaves = \<lparr>handleWrite = (\<lambda>s size address data w. (0, w + 1)),
     handleRead = (\<lambda>s size address data w. (0, replicate (length data) 7, w))\<rparr>"

lemma example_bridge_simps [simp]:
  "br_masterMap (example_bridge mem) = []" "br_futures (example_bridge mem) = []"
  "br_client (example_bridge mem) = new_RouterClient []" "br_queue (example_bridge mem) = q_new"
  "br_reader (example_bridge mem) = Reader_Absent" "br_writer (example_bridge mem) = Writer_Absent"
  "br_peers (example_bridge mem) = []" "br_ipBlocks (example_bridge mem) = []"
  "br_slaveMap (example_bridge mem) = []" "br_deleted (example_bridge mem) = []"
  "br_mem (example_bridge mem) = mem" "br_name (example_bridge mem) = ''app''"
  by (simp_all add: example_bridge_def new_Bridge_def)

text \<open>
  Connect, commit and start against a router with no other peers and no IP: a run of three steps that
  ends with both threads running and the given messages still to come.
\<close>

abbreviation handshake :: "wire_Message list \<Rightarrow> wire_Message list" where
  "handshake ms \<equiv> new_Message Type_ACK # new_Message Type_ACK # new_Message Type_ACK # ms"

lemma example_started:
  assumes ms: "\<forall>m \<in> set ms. length (enc_Message m) \<le> vector_max_size"
  obtains c where "c_state c = STARTED" "c_sock c \<noteq> -1" "wr_script (c_out c) = []"
    "incoming example_lib c ms"
    "bridge_run example_lib S (example_bridge mem) 3 ((example_bridge mem)\<lparr>br_client := c,
       br_routerInfo := Some example_router, br_reader := Reader_Running, br_writer := Writer_Pop\<rparr>)"
proof -
  let ?E = "example_env (example_info # handshake ms)" and ?b0 = "example_bridge mem"
  have E: "e_socket ?E \<noteq> -1" "e_connect ?E (sun_path ''/s'')" "e_wr ?E = []"
    "closed (new_RouterClient [])" "''/s'' \<noteq> ''''" "e_socket ?E = 3"
    by (simp_all add: example_env_def new_RouterClient_def closed_def)
  have f: "framed (e_in ?E) (map (lib_encode example_lib) (example_info # handshake ms))"
    using ms by (simp only: example_env_def env.simps)
      (intro framed_example_messages, simp add: example_info_simps)
  obtain k where k: "RouterClient_connect example_lib ?E (''unix://'' @ ''/s'') ''app'' (new_RouterClient [])
      = Ret ((new_RouterClient [])\<lparr>c_state := CONNECTED, c_uri := ''unix://'' @ ''/s'',
        c_sock := e_socket ?E, c_in := k, c_out := \<lparr>wr_script = [],
          wr_sent = frame (lib_encode example_lib (client_SystemInfo ?E ''app''))\<rparr>,
        c_open := e_socket ?E # c_open (new_RouterClient [])\<rparr>, Some example_router, status_ok)"
    "framed k (map (lib_encode example_lib) (handshake ms))"
    by (rule connect_incoming [OF codec_example_lib E(4,5,1,2,3) f example_info_simps(1,2)])
  define c1 where "c1 = (new_RouterClient [])\<lparr>c_state := CONNECTED, c_uri := ''unix://'' @ ''/s'',
        c_sock := e_socket ?E, c_in := k, c_out := \<lparr>wr_script = [],
          wr_sent = frame (lib_encode example_lib (client_SystemInfo ?E ''app''))\<rparr>,
        c_open := e_socket ?E # c_open (new_RouterClient [])\<rparr>"
  have c1: "c_state c1 = CONNECTED" "c_sock c1 \<noteq> -1" "wr_script (c_out c1) = []"
    "incoming example_lib c1 (handshake ms)"
    using k(2) E(1) by (simp_all add: c1_def incoming_def)
  let ?b1 = "?b0\<lparr>br_client := c1, br_routerInfo := Some example_router\<rparr>"
  have s1: "Bridge_connect example_lib ?E (''unix://'' @ ''/s'') ?b0 = Ret (?b1, status_ok)"
    using k(1) by (simp add: Bridge_connect_def c1_def Let_def)
  have ack: "wm_type (new_Message Type_ACK) = Type_ACK"
    by simp
  obtain k2 where k2: "framed k2 (map (lib_encode example_lib) (new_Message Type_ACK # new_Message Type_ACK # ms))"
    "RouterClient_commitIp example_lib c1 =
       Ret ((sent_more example_lib (new_Message Type_COMMIT) k2 c1)\<lparr>c_state := COMMITTED\<rparr>, status_ok)"
    by (rule commitIp_incoming [OF codec_example_lib c1 ack])
  define c2 where "c2 = (sent_more example_lib (new_Message Type_COMMIT) k2 c1)\<lparr>c_state := COMMITTED\<rparr>"
  have c2: "c_state c2 = COMMITTED" "c_sock c2 \<noteq> -1" "wr_script (c_out c2) = []"
    "incoming example_lib c2 (new_Message Type_ACK # new_Message Type_ACK # ms)"
    using k2(1) c1 by (simp_all add: c2_def sent_more_def incoming_def)
  let ?b2 = "?b1\<lparr>br_client := c2\<rparr>"
  have s2: "Bridge_commitIp example_lib ?b1 = Ret (?b2, status_ok)"
    using k2(2) by (simp add: Bridge_commitIp_def c2_def)
  have start: "c_state (br_client ?b2) = COMMITTED" "c_sock (br_client ?b2) \<noteq> -1"
    "list_all2 announces_peer [] []" "list_all2 announces_ip [] []"
    "br_reader ?b2 = Reader_Absent" "br_writer ?b2 = Writer_Absent"
    "incoming example_lib (br_client ?b2) ([] @ new_Message Type_ACK # [] @ new_Message Type_ACK # ms)"
    using c2 by simp_all
  obtain k3 where k3: "framed k3 (map (lib_encode example_lib) ms)"
    "Bridge_start example_lib ?b2 = Ret (?b2\<lparr>br_client := (br_client ?b2)\<lparr>c_state := STARTED, c_in := k3\<rparr>,
       br_peers := br_peers ?b2 @ [], br_ipBlocks := br_ipBlocks ?b2 @ [],
       br_reader := Reader_Running, br_writer := Writer_Pop\<rparr>, status_ok)"
    by (rule Bridge_start_incoming [OF codec_example_lib start(1,2,3) ack start(4) ack start(7,5,6)])
  let ?c3 = "c2\<lparr>c_state := STARTED, c_in := k3\<rparr>"
  let ?b3 = "?b0\<lparr>br_client := ?c3, br_routerInfo := Some example_router,
       br_reader := Reader_Running, br_writer := Writer_Pop\<rparr>"
  have s3: "Bridge_start example_lib ?b2 = Ret (?b3, status_ok)"
    using k3(2) by (simp add: example_bridge_def new_Bridge_def)
  have "bridge_run example_lib S ?b0 (Suc (Suc (Suc 0))) ?b3"
    using s1 s2 s3 by (blast intro: bridge_run.intros bridge_step.intros)
  moreover have "c_state ?c3 = STARTED" "c_sock ?c3 \<noteq> -1" "wr_script (c_out ?c3) = []"
    "incoming example_lib ?c3 ms"
    using c2 k3(1) by (simp_all add: incoming_def)
  ultimately show ?thesis
    by (intro that [of ?c3]) (simp_all add: numeral_3_eq_3)
qed

section \<open>Runs\<close>

text \<open>The promises held somewhere: in the queue, by the writer, in the master map.\<close>

definition held :: "'w bridge \<Rightarrow> nat list" where
  "held b = txn_promises (q_items (br_queue b)) @ txn_promises (writer_txns (br_writer b))
     @ waiting_promises (br_masterMap b)"

lemma count_txn_promises: "count_list (txn_promises ts) i = sum_list (map (pend i) ts)"
  by (induction ts) (auto simp: txn_promises_def map_filter_def pend_def)

lemma count_waiting_promises: "count_list (waiting_promises mm) i = val_sum (md_pend i) mm"
proof (induction mm)
  case (Cons p mm)
  have "count_list (txn_promises (map snd al)) i = val_sum (pend i) al" for al :: "(u64 \<times> Txn) list"
    by (simp add: count_txn_promises val_sum_def case_prod_unfold comp_def)
  with Cons show ?case
    by (cases p) (simp add: waiting_promises_def md_pend_def)
qed (simp add: waiting_promises_def)

lemma distinct_count: "(\<And>x. count_list xs x \<le> 1) \<Longrightarrow> distinct xs"
proof (induction xs)
  case (Cons y ys)
  have "count_list ys x \<le> 1" for x
    using Cons.prems [of x] by (auto split: if_splits)
  then have "distinct ys"
    by (rule Cons.IH)
  moreover have "count_list ys y = 0"
    using Cons.prems [of y] by simp
  ultimately show ?case
    by (simp add: count_list_0_iff)
qed simp

lemma bridge_inv_held:
  assumes "bridge_inv b"
  shows "distinct (held b) \<and> set (held b) = {i. i < length (br_futures b) \<and> br_futures b ! i = Pending}"
proof -
  have c: "count_list (held b) i = (if i < length (br_futures b) \<and> br_futures b ! i = Pending then 1 else 0)" for i
    using assms by (simp add: held_def count_txn_promises count_waiting_promises bridge_inv_def
        promises_ok_def add.assoc)
  have "i \<in> set (held b) \<longleftrightarrow> i < length (br_futures b) \<and> br_futures b ! i = Pending" for i
    using c [of i] count_list_0_iff [of "held b" i] by (auto split: if_splits)
  moreover have "distinct (held b)"
    using c by (intro distinct_count) simp
  ultimately show ?thesis by auto
qed

text \<open>
  C12: no future is forgotten and none is completed twice: in every state that the threads, the condition
  variable and the calls of the user can lead to, in any interleaving, the promise of each future that
  is pending is held in exactly one place (an element of the queue, the element the writer has popped, a
  request in the master map), and nothing else holds a promise.
\<close>

theorem bridge_futures_held:
  assumes "bridge_run L S (new_Bridge name fds mem w) n b"
  shows "distinct (held b)
    \<and> set (held b) = {i. i < length (br_futures b) \<and> br_futures b ! i = Pending}"
  using bridge_inv_held [OF bridge_run_inv [OF assms new_Bridge_inv]] .

definition example_buffer :: Buffer where
  "example_buffer = \<lparr>bf_data = Some 1, bf_size = 2, bf_address = 0x1000\<rparr>"

definition example_memory :: memory where
  "example_memory = [1 \<mapsto> [0, 0]]"

text \<open>Runs, one step further.\<close>

lemma run_steps:
  assumes "bridge_run L S b0 n b"
  shows "br_reader b = Reader_Running \<Longrightarrow> Bridge_reader L S b = Ret b' \<Longrightarrow> bridge_run L S b0 (Suc n) b'"
    and "br_writer b \<noteq> Writer_Absent \<Longrightarrow> br_writer b \<noteq> Writer_Exited \<Longrightarrow> Bridge_writer L b = Ret b' \<Longrightarrow>
      bridge_run L S b0 (Suc n) b'"
    and "bridge_run L S b0 (Suc n) (b\<lparr>br_queue := q_notify_one (br_queue b)\<rparr>)"
    and "bridge_run L S b0 (Suc n) (fst (Master_read m buffer b))"
proof -
  note step = bridge_run.Run_step [OF assms]
  show "br_reader b = Reader_Running \<Longrightarrow> Bridge_reader L S b = Ret b' \<Longrightarrow> bridge_run L S b0 (Suc n) b'"
    by (rule step, rule Step_reader)
  show "br_writer b \<noteq> Writer_Absent \<Longrightarrow> br_writer b \<noteq> Writer_Exited \<Longrightarrow> Bridge_writer L b = Ret b' \<Longrightarrow>
      bridge_run L S b0 (Suc n) b'"
    by (rule step, rule Step_writer)
  show "bridge_run L S b0 (Suc n) (b\<lparr>br_queue := q_notify_one (br_queue b)\<rparr>)"
    using step [OF Step_notify [of Notify]] by simp
  show "bridge_run L S b0 (Suc n) (fst (Master_read m buffer b))"
    by (rule step, rule Step_read, rule prod.collapse [symmetric])
qed

theorem bridge_futures_held_witness:
  "\<exists>b. bridge_run example_lib example_slaves (example_bridge example_memory) 1 b
     \<and> length (br_futures b) = 1 \<and> distinct (held b)
     \<and> set (held b) = {i. i < length (br_futures b) \<and> br_futures b ! i = Pending}"
proof -
  let ?b = "fst (Master_read 1 example_buffer (example_bridge example_memory))"
  have run: "bridge_run example_lib example_slaves (new_Bridge ''app'' [] example_memory 0) (Suc 0) ?b"
    unfolding example_bridge_def
    by (rule run_steps(4) [OF bridge_run.Run_start])
  have "length (br_futures ?b) = 1"
    by (simp add: Master_read_def get_future_def Let_def)
  moreover have "bridge_run example_lib example_slaves (example_bridge example_memory) 1 ?b"
    using run by (simp only: example_bridge_def One_nat_def)
  ultimately show ?thesis
    using bridge_futures_held [OF run] by blast
qed

text \<open>
  C13: the writer files each request under an identifier that no request of the same master still waits
  with, puts this identifier into the transaction it is about to send, and disturbs no other request
  and no future: in every reachable state in which it has popped a request, within the first 2^64 steps
  of the program.
\<close>

theorem bridge_writer_fresh_id:
  assumes "bridge_run L S (new_Bridge name fds mem w) n b" and "n < 2 ^ 64"
    and "br_writer b = Writer_Popped t" and "is_request t" and "Bridge_writer L b = Ret b'"
  shows "\<exists>k. let i = txn_initiator (tx_txn t); txn = (tx_txn t)\<lparr>txn_id := k\<rparr> in
      map_of (md_txns (masterMap_at i b)) k = None
    \<and> br_writer b' = Writer_Send txn (Some (i, k))
    \<and> map_of (md_txns (masterMap_at i b')) = (map_of (md_txns (masterMap_at i b)))(k \<mapsto> t\<lparr>tx_txn := txn\<rparr>)
    \<and> (\<forall>j. j \<noteq> i \<longrightarrow> map_of (br_masterMap b') j = map_of (br_masterMap b) j)
    \<and> br_futures b' = br_futures b"
proof -
  let ?i = "txn_initiator (tx_txn t)"
  let ?md = "md_at (br_masterMap b) ?i"
  have ids: "ids_ok n (br_masterMap b)"
    by (rule bridge_run_ids [OF assms(1) _ assms(2)]) (simp add: new_Bridge_def)
  have b': "b' = assign_id t b"
    using assms(3-5) by (auto simp: Bridge_writer_def is_request_def)
  have fresh: "map_of (md_txns ?md) (md_lastTxnId ?md) = None"
    by (rule ids_ok_fresh [OF ids])
  let ?txn = "(tx_txn t)\<lparr>txn_id := md_lastTxnId ?md\<rparr>"
  have mm: "map_of (br_masterMap b') = (map_of (br_masterMap b))(?i \<mapsto> md_assign t ?md)"
    by (simp add: b' assign_id_masterMap AList.update_conv')
  then have md': "masterMap_at ?i b' = md_assign t ?md"
    by (simp add: masterMap_at_md_at md_at_def)
  have w: "br_writer b' = Writer_Send ?txn (Some (?i, md_lastTxnId ?md))"
    by (simp add: b' assign_id_def Let_def masterMap_at_md_at)
  have f: "br_futures b' = br_futures b"
    by (simp add: b' assign_id_def Let_def masterMap_at_md_at fresh break_promises_def map_nth)
  have txns: "map_of (md_txns (masterMap_at ?i b')) =
      (map_of (md_txns ?md))(md_lastTxnId ?md \<mapsto> t\<lparr>tx_txn := ?txn\<rparr>)"
    unfolding md' by (simp add: md_assign_def AList.update_conv')
  show ?thesis
    by (rule exI [of _ "md_lastTxnId ?md"]) (simp add: Let_def masterMap_at_md_at [of _ b] fresh w txns mm f)
qed

definition example_request :: Txn where
  "example_request = \<lparr>tx_type = TRANSACTION, tx_buffer = Some 1,
     tx_txn = (new_Transaction True)\<lparr>txn_initiator := 1, txn_address := 0x1000, txn_size := 2\<rparr>,
     tx_promise = Some 0\<rparr>"

lemma example_popped:
  obtains b where "bridge_run example_lib example_slaves (example_bridge example_memory) 5 b"
    "br_writer b = Writer_Popped example_request"
proof -
  obtain c where run: "bridge_run example_lib example_slaves (example_bridge example_memory) 3
      ((example_bridge example_memory)\<lparr>br_client := c, br_routerInfo := Some example_router,
        br_reader := Reader_Running, br_writer := Writer_Pop\<rparr>)" (is "bridge_run _ _ _ _ ?b3")
    by (rule example_started [of "[]"]) simp_all
  let ?b4 = "fst (Master_read 1 example_buffer ?b3)"
  have run4: "bridge_run example_lib example_slaves (example_bridge example_memory) 4 ?b4"
    using run_steps(4) [OF run, of 1 example_buffer] by simp
    have pop: "q_pop (br_queue ?b4) = (Got example_request, (br_queue ?b4)\<lparr>q_items := [], q_popper := Outside\<rparr>)"
    by (simp add: Master_read_def get_future_def Let_def q_pop_def q_take_def q_push_def q_new_def
        push_txn_def example_buffer_def new_Transaction_def example_request_def)
  have "br_writer ?b4 = Writer_Pop"
    by (simp add: Master_read_def get_future_def Let_def)
  then have "\<exists>b5. Bridge_writer example_lib ?b4 = Ret b5 \<and> br_writer b5 = Writer_Popped example_request"
    by (simp add: Bridge_writer_def pop)
  then obtain b5 where "Bridge_writer example_lib ?b4 = Ret b5" "br_writer b5 = Writer_Popped example_request"
    by blast
  moreover from this(1) have "bridge_run example_lib example_slaves (example_bridge example_memory) (Suc 4) b5"
    by (intro run_steps(2) [OF run4]) (simp_all add: \<open>br_writer ?b4 = Writer_Pop\<close>)
  ultimately show ?thesis
    by (intro that [of b5]) simp_all
qed

theorem bridge_writer_fresh_id_witness:
  "\<exists>b b'. bridge_run example_lib example_slaves (example_bridge example_memory) 5 b
    \<and> br_writer b = Writer_Popped example_request \<and> Bridge_writer example_lib b = Ret b'
    \<and> br_futures b' = br_futures b
    \<and> (\<exists>k. map_of (md_txns (masterMap_at 1 b)) k = None \<and>
         map_of (md_txns (masterMap_at 1 b')) k =
           Some (example_request\<lparr>tx_txn := (tx_txn example_request)\<lparr>txn_id := k\<rparr>\<rparr>))"
proof -
  obtain b where b: "bridge_run example_lib example_slaves (example_bridge example_memory) 5 b"
    "br_writer b = Writer_Popped example_request"
    by (rule example_popped)
  have req: "is_request example_request" and i: "txn_initiator (tx_txn example_request) = 1"
    by (simp_all add: is_request_def example_request_def new_Transaction_def)
  have w: "Bridge_writer example_lib b = Ret (assign_id example_request b)"
    using req by (auto simp: Bridge_writer_def b(2) is_request_def)
  have five: "(5 :: nat) < 2 ^ 64"
    by simp
  show ?thesis
    using bridge_writer_fresh_id [OF b(1) [unfolded example_bridge_def] five b(2) req w]
    by - (rule exI [of _ b], rule exI [of _ "assign_id example_request b"],
      use b w in \<open>auto simp: Let_def i\<close>)
qed

text \<open>
  C28: the bridge uses the router client correctly in every interleaving: its client is always in a state
  some sequence of client calls leads to, so it has gone through the stages of the handshake in order,
  and it holds at most one descriptor and leaks none.
\<close>

theorem bridge_client_handshake:
  assumes "bridge_run L S (new_Bridge name fds mem w) n b"
  shows "\<exists>ops. client_run L ops (new_RouterClient fds) = Ret (br_client b)
    \<and> subseq (map Some (stages (c_state (br_client b)))) (map advance ops)
    \<and> c_open (br_client b) = (if c_sock (br_client b) = -1 then fds else c_sock (br_client b) # fds)"
proof -
  have "client_reach L (new_RouterClient fds) (br_client b)"
    using bridge_run_client [OF assms] by (simp add: new_Bridge_def)
  then obtain ops where ops: "client_run L ops (new_RouterClient fds) = Ret (br_client b)"
    by (auto simp: client_reach_def)
  show ?thesis
    using ops client_run_inv [OF ops] by (auto simp: client_inv_def closed_def)
qed

theorem bridge_client_handshake_witness:
  "\<exists>b ops. bridge_run example_lib example_slaves (example_bridge example_memory) 3 b
     \<and> c_state (br_client b) = STARTED
     \<and> client_run example_lib ops (new_RouterClient []) = Ret (br_client b)
     \<and> subseq (map Some [CONNECTED, COMMITTED, PEER_INFO_RECEIVED, STARTED]) (map advance ops)"
proof -
  obtain c where c: "c_state c = STARTED" and run:
    "bridge_run example_lib example_slaves (example_bridge example_memory) 3
      ((example_bridge example_memory)\<lparr>br_client := c, br_routerInfo := Some example_router,
        br_reader := Reader_Running, br_writer := Writer_Pop\<rparr>)" (is "bridge_run _ _ _ _ ?b")
    by (rule example_started [of "[]"]) simp_all
  define b where "b = ?b"
  have st: "c_state (br_client b) = STARTED"
    by (simp add: b_def c)
  note run = run [folded b_def]
  show ?thesis
    using bridge_client_handshake [OF run [unfolded example_bridge_def]] run st by auto
qed

text \<open>
  \<^verbatim>\<open>start\<close>, against a router that lists its peers and its IP, appends exactly these to the two lists of
  the bridge, in order, and ends with the client STARTED and both threads running; what the router sends
  after the lists is left for the reader.
\<close>

theorem Bridge_start_lists:
  assumes "codec L" "c_state (br_client b) = COMMITTED" "c_sock (br_client b) \<noteq> -1"
    and "list_all2 announces_peer pms ps" "wm_type ack1 = Type_ACK"
    and "list_all2 announces_ip ims ips" "wm_type ack2 = Type_ACK"
    and "incoming L (br_client b) (pms @ ack1 # ims @ ack2 # rest)"
    and "br_reader b = Reader_Absent" "br_writer b = Writer_Absent"
  shows "\<exists>b'. Bridge_start L b = Ret (b', status_ok)
    \<and> br_peers b' = br_peers b @ ps \<and> br_ipBlocks b' = br_ipBlocks b @ ips
    \<and> c_state (br_client b') = STARTED \<and> incoming L (br_client b') rest
    \<and> br_reader b' = Reader_Running \<and> br_writer b' = Writer_Pop
    \<and> c_out (br_client b') = c_out (br_client b)"
  by (rule Bridge_start_incoming [OF assms]) (simp add: incoming_def)

definition example_committed :: "wire_Message list \<Rightarrow> nat bridge" where
  "example_committed ms = (example_bridge example_memory)\<lparr>br_client := example_client COMMITTED ms\<rparr>"

theorem Bridge_start_lists_witness:
  "\<exists>b'. Bridge_start example_lib (example_committed
      ([example_info] @ new_Message Type_ACK # [] @ new_Message Type_ACK # []))
      = Ret (b', status_ok) \<and> br_peers b' = [example_router] \<and> br_ipBlocks b' = []
    \<and> c_state (br_client b') = STARTED"
proof -
  let ?ms = "[example_info] @ new_Message Type_ACK # [] @ new_Message Type_ACK # []"
  let ?b = "example_committed ?ms"
  have "\<forall>m \<in> set ?ms. length (enc_Message m) \<le> vector_max_size"
    by (simp add: example_info_simps)
  then have "incoming example_lib (br_client ?b) ?ms"
    using incoming_example_client [of ?ms] by (simp add: example_committed_def)
  moreover have "c_state (br_client ?b) = COMMITTED" "c_sock (br_client ?b) \<noteq> -1"
    "br_reader ?b = Reader_Absent" "br_writer ?b = Writer_Absent" "br_peers ?b = []" "br_ipBlocks ?b = []"
    by (simp_all add: example_committed_def)
  moreover have "list_all2 announces_peer [example_info] [example_router]"
    by (simp add: announces_peer_def example_info_simps)
  ultimately show ?thesis
    using Bridge_start_lists [of example_lib ?b "[example_info]" "[example_router]"
        "new_Message Type_ACK" "[]" "[]" "new_Message Type_ACK" "[]"] codec_example_lib
    by auto
qed

text \<open>
  On a finite stream of bytes neither loop of \<^verbatim>\<open>start\<close> can go on for ever: each entry uses up bytes of
  what has arrived, so \<^verbatim>\<open>start\<close> does not return only where one of its reads does not. Against a router that never
  stops sending entries the loops do go on for ever; the model has no such stream.
\<close>

theorem Bridge_start_loops_end:
  "(\<exists>r. retrieve_loop (RouterClient_retrievePeerInfo L) (br_client b) (br_peers b) = Some r)
   \<and> (\<exists>r. retrieve_loop (RouterClient_retrieveIpConfig L) c (br_ipBlocks b) = Some r)
   \<and> (Bridge_start L b = Hang \<longleftrightarrow>
      retrieve_loop (RouterClient_retrievePeerInfo L) (br_client b) (br_peers b) = Some Hang
    \<or> (\<exists>c' ps st. retrieve_loop (RouterClient_retrievePeerInfo L) (br_client b) (br_peers b)
            = Some (Ret (c', ps, st)) \<and> isOk st
        \<and> retrieve_loop (RouterClient_retrieveIpConfig L) c' (br_ipBlocks b) = Some Hang))"
proof (intro conjI)
  have disc: "Bridge_disconnect b' \<noteq> Hang" for b' :: "'a bridge"
    by (simp add: Bridge_disconnect_def Let_def)
  have bind: "bind_outcome m f = Hang \<longleftrightarrow> m = Hang \<or> (\<exists>x. m = Ret x \<and> f x = Hang)"
    for m :: "'x outcome" and f :: "'x \<Rightarrow> 'y outcome"
    by (cases m) auto
  obtain r1 where r1: "retrieve_loop (RouterClient_retrievePeerInfo L) (br_client b) (br_peers b) = Some r1"
    using fr.peers.retrieve_loop_ends by blast
  show "\<exists>r. retrieve_loop (RouterClient_retrievePeerInfo L) (br_client b) (br_peers b) = Some r"
    using r1 by blast
  have ends: "\<exists>r. retrieve_loop (RouterClient_retrieveIpConfig L) c (br_ipBlocks b) = Some r" for c
    by (rule fr.ips.retrieve_loop_ends)
  then show "\<exists>r. retrieve_loop (RouterClient_retrieveIpConfig L) c (br_ipBlocks b) = Some r" .
  show "Bridge_start L b = Hang \<longleftrightarrow>
      retrieve_loop (RouterClient_retrievePeerInfo L) (br_client b) (br_peers b) = Some Hang
    \<or> (\<exists>c' ps st. retrieve_loop (RouterClient_retrievePeerInfo L) (br_client b) (br_peers b)
            = Some (Ret (c', ps, st)) \<and> isOk st
        \<and> retrieve_loop (RouterClient_retrieveIpConfig L) c' (br_ipBlocks b) = Some Hang)"
  proof (cases r1)
    case (Ret x)
    obtain c1 ps st where x: "x = (c1, ps, st)"
      by (cases x)
    obtain r2 where r2: "retrieve_loop (RouterClient_retrieveIpConfig L) c1 (br_ipBlocks b) = Some r2"
      using ends by blast
    show ?thesis
      by (cases r2) (auto simp: Bridge_start_def retrieve_all_def r1 r2 Ret x bind disc Let_def
          isError_iff_not_isOk split: if_splits)
  qed (simp_all add: Bridge_start_def retrieve_all_def r1)
qed

text \<open>
  \<^verbatim>\<open>start\<close> called too early, or twice, ends the session: unless the client is COMMITTED it returns an
  error, and what is left is a disconnected bridge without slaves and masters whose waiting requests
  have broken futures.
\<close>

theorem Bridge_start_tears_down:
  assumes "bridge_run L S (new_Bridge name fds mem w) n b"
    and "c_state (br_client b) \<noteq> COMMITTED" and "Bridge_start L b = Ret (b', st)"
  shows "getCode st = 1 \<and> c_state (br_client b') = DISCONNECTED \<and> c_open (br_client b') = fds
    \<and> br_slaveMap b' = [] \<and> br_masterMap b' = [] \<and> br_routerInfo b' = None
    \<and> (\<forall>i \<in> set (waiting_promises (br_masterMap b)). br_futures b' ! i = Broken)"
proof -
  obtain ops where ops: "client_run L ops (new_RouterClient fds) = Ret (br_client b)"
    using bridge_run_client [OF assms(1)] by (auto simp: new_Bridge_def client_reach_def)
  have inv: "client_inv fds (br_client b)"
    using client_run_inv [OF ops] by blast
  have "RouterClient_retrievePeerInfo L (br_client b) = Ret (br_client b, None,
      mk_status 1 ''The bridge needs to be COMMITTED in order to start'')"
    using assms(2) by (simp add: RouterClient_retrievePeerInfo_def)
  then have "retrieve_all (RouterClient_retrievePeerInfo L) (br_client b) (br_peers b) =
      Ret (br_client b, br_peers b, mk_status 1 ''The bridge needs to be COMMITTED in order to start'')"
    by (simp add: retrieve_all_def retrieve_loop.simps)
  then have b': "Bridge_disconnect b = Ret b'" "st = mk_status 1 ''The bridge needs to be COMMITTED in order to start''"
    using assms(3) by (auto simp: Bridge_start_def bind_outcome_eq_Ret)
  have broken: "\<forall>i \<in> set (waiting_promises (br_masterMap b)). br_futures b' ! i = Broken"
    using b'(1) bridge_inv_held [OF bridge_run_inv [OF assms(1) new_Bridge_inv]]
    by (auto simp: Bridge_disconnect_def Let_def held_def break_promises_nth split: if_splits)
  have "c_state (br_client b') = DISCONNECTED \<and> c_open (br_client b') = fds"
    using b'(1) inv
    by (auto simp: Bridge_disconnect_def Let_def RouterClient_disconnect_def client_inv_def closed_def
        split: if_splits)
  with b' broken show ?thesis
    by (auto simp: Bridge_disconnect_def Let_def split: if_splits)
qed

theorem Bridge_start_tears_down_witness:
  "\<exists>b b' st. bridge_run example_lib example_slaves (example_bridge example_memory) 3 b
     \<and> c_state (br_client b) = STARTED \<and> Bridge_start example_lib b = Ret (b', st)
     \<and> getCode st = 1 \<and> c_state (br_client b') = DISCONNECTED \<and> c_open (br_client b') = []"
proof -
  obtain c where c: "c_state c = STARTED" and run:
    "bridge_run example_lib example_slaves (example_bridge example_memory) 3
      ((example_bridge example_memory)\<lparr>br_client := c, br_routerInfo := Some example_router,
        br_reader := Reader_Running, br_writer := Writer_Pop\<rparr>)" (is "bridge_run _ _ _ _ ?b")
    by (rule example_started [of "[]"]) simp_all
  define b where "b = ?b"
  note run = run [folded b_def]
  have st: "c_state (br_client b) = STARTED"
    by (simp add: b_def c)
  have "\<exists>b' st. Bridge_start example_lib b = Ret (b', st)"
    by (simp add: Bridge_start_def retrieve_all_def retrieve_loop.simps RouterClient_retrievePeerInfo_def
        st Bridge_disconnect_def b_def c map_filter_def Let_def)
  then obtain b' st' where s: "Bridge_start example_lib b = Ret (b', st')"
    by blast
  have "c_state (br_client b) \<noteq> COMMITTED"
    by (simp add: st)
  from Bridge_start_tears_down [OF run [unfolded example_bridge_def] this s] show ?thesis
    using run st s by blast
qed

section \<open>Traffic\<close>

text \<open>
  C14: what the reader does with a response that says OK to a read. If the data is not longer than the buffer
  the read was given, it replaces that many bytes at the front of the buffer (the rest of the buffer stays as it
  was), the future of the read becomes ready with an OK status and the request is removed from its master's
  map, whose counter stays; the client has taken the message from its socket, and nothing else changes in the
  bridge. If the data is longer, the reader writes past the end of the buffer.
\<close>

theorem Bridge_reader_completes_read:
  assumes "RouterClient_receiveTransaction L (br_client b) = Ret (c, Some txn, status_ok)"
    and "txn_type txn = READ_RESP" "txn_ok txn"
    and "map_of (br_masterMap b) (txn_initiator txn) = Some md"
    and "map_of (md_txns md) (txn_id txn) = Some t"
    and "tx_buffer t = Some a" "br_mem b a = Some buf" "tx_promise t = Some f"
  shows "Bridge_reader L S b =
    (if length (txn_data txn) \<le> length buf
     then Ret (b\<lparr>br_client := c,
       br_mem := (br_mem b)(a \<mapsto> txn_data txn @ drop (length (txn_data txn)) buf),
       br_futures := (br_futures b)[f := Ready status_ok],
       br_masterMap := AList.update (txn_initiator txn)
         (md\<lparr>md_txns := AList.delete (txn_id txn) (md_txns md)\<rparr>) (br_masterMap b)\<rparr>)
     else Fault OutOfBounds)"
proof -
  have "store_bytes (br_mem b) (Some a) (txn_data txn) =
      (if length (txn_data txn) \<le> length buf
       then Ret ((br_mem b)(a \<mapsto> txn_data txn @ drop (length (txn_data txn)) buf)) else Fault OutOfBounds)"
    using assms(7) by (auto simp: store_bytes_def overwrite_def map_upd_triv)
  then show ?thesis
    using assms by (auto simp: Bridge_reader_def reader_response_def fulfil_def set_masterMap_def Let_def)
qed

definition example_response :: "u8 list \<Rightarrow> Transaction" where
  "example_response data = (new_Transaction True)\<lparr>txn_type := READ_RESP, txn_initiator := 1, txn_id := 0,
     txn_address := 0x1000, txn_size := 2, txn_data := data\<rparr>"

text \<open>A bridge that waits for the response to one read, and what the router sends.\<close>

definition example_waiting :: "Transaction \<Rightarrow> u8 \<Rightarrow> nat bridge" where
  "example_waiting txn ty = (example_bridge example_memory)
     \<lparr>br_client := example_client STARTED [Transaction_message txn ty],
      br_masterMap := [(1, \<lparr>md_master = Some 1, md_txns = [(0, example_request)], md_lastTxnId = 1\<rparr>)],
      br_slaveMap := [(5, Some 9)], br_futures := [Pending],
      br_reader := Reader_Running, br_writer := Writer_Pop\<rparr>"

lemma example_receives:
  assumes "wire_of_TransactionType (txn_type txn) = Some ty"
    and "length (enc_Message (Transaction_message txn ty)) \<le> vector_max_size"
  obtains c where "RouterClient_receiveTransaction example_lib
    (example_client STARTED [Transaction_message txn ty]) = Ret (c, Some txn, status_ok)"
proof -
  let ?c = "example_client STARTED [Transaction_message txn ty]"
  have "incoming example_lib ?c [Transaction_message txn ty]"
    using assms(2) by (intro incoming_example_client) simp
  then show ?thesis
    using codec_example_lib assms(1) that
    by (elim receiveTransaction_incoming [rotated 4]) auto
qed

lemma example_response_received:
  assumes "length data < 100"
  obtains c where "RouterClient_receiveTransaction example_lib
    (br_client (example_waiting (example_response data) 2)) = Ret (c, Some (example_response data), status_ok)"
proof -
  have "length (enc_Message (Transaction_message (example_response data) 2)) \<le> vector_max_size"
    using assms by (simp add: enc_sizes Transaction_message_def example_response_def
        new_Transaction_def new_Message_def vector_max_size_def)
  moreover have "wire_of_TransactionType (txn_type (example_response data)) = Some 2"
    by (simp add: example_response_def)
  ultimately show ?thesis
    using that by (elim example_receives [rotated]) (auto simp: example_waiting_def)
qed

theorem Bridge_reader_completes_read_witness:
  "\<exists>b'. Bridge_reader example_lib example_slaves (example_waiting (example_response [8]) 2) = Ret b'
    \<and> br_mem b' 1 = Some [8, 0] \<and> br_futures b' = [Ready status_ok]
    \<and> br_masterMap b' = [(1, \<lparr>md_master = Some 1, md_txns = [], md_lastTxnId = 1\<rparr>)]"
proof -
  obtain c where "RouterClient_receiveTransaction example_lib
    (br_client (example_waiting (example_response [8]) 2)) = Ret (c, Some (example_response [8]), status_ok)"
    by (rule example_response_received [of "[8]"]) simp_all
  from Bridge_reader_completes_read [OF this, of "\<lparr>md_master = Some 1, md_txns = [(0, example_request)],
      md_lastTxnId = 1\<rparr>" example_request 1 "[0, 0]" 0 example_slaves]
  show ?thesis
    by (simp add: example_waiting_def example_response_def example_request_def new_Transaction_def
        example_memory_def)
qed

text \<open>
  The reader trusts the length of the data in a response: one byte more than the buffer of the read
  holds, and it writes past the end of the buffer.
\<close>

theorem Bridge_reader_overflows_buffer:
  assumes "RouterClient_receiveTransaction L (br_client b) = Ret (c, Some txn, status_ok)"
    and "txn_type txn = READ_RESP" "txn_ok txn"
    and "map_of (br_masterMap b) (txn_initiator txn) = Some md"
    and "map_of (md_txns md) (txn_id txn) = Some t"
    and "tx_buffer t = Some a" "br_mem b a = Some buf" "length buf < length (txn_data txn)"
  shows "Bridge_reader L S b = Fault OutOfBounds"
  using assms by (auto simp: Bridge_reader_def reader_response_def store_bytes_def Let_def)

theorem Bridge_reader_overflows_buffer_witness:
  "Bridge_reader example_lib example_slaves (example_waiting (example_response [8, 9, 10]) 2)
    = Fault OutOfBounds"
proof -
  obtain c where "RouterClient_receiveTransaction example_lib
    (br_client (example_waiting (example_response [8, 9, 10]) 2)) = Ret (c, Some (example_response [8, 9, 10]), status_ok)"
    by (rule example_response_received [of "[8, 9, 10]"]) simp_all
  from Bridge_reader_overflows_buffer [OF this, of "\<lparr>md_master = Some 1, md_txns = [(0, example_request)],
      md_lastTxnId = 1\<rparr>" example_request 1 "[0, 0]" example_slaves]
  show ?thesis
    by (simp add: example_waiting_def example_response_def example_request_def new_Transaction_def
        example_memory_def)
qed

text \<open>
  C15: every request to a registered slave is answered by exactly one queued response: of the matching
  type, to the same master, with the same slave, identifier, address and size, carrying what the
  handler has put into the buffer of a read, and marked as failed, without data, exactly if the handler
  has not returned 0. The reader goes on, and the queue keeps what it held.
\<close>

theorem Bridge_reader_answers_request:
  assumes "RouterClient_receiveTransaction L (br_client b) = Ret (c, Some txn, status_ok)"
    and "txn_type txn = READ_REQ \<or> txn_type txn = WRITE_REQ"
    and "map_of (br_slaveMap b) (txn_target txn) = Some (Some s)" and "s \<notin> set (br_deleted b)"
    and "(ret, data, w) = (if txn_type txn = WRITE_REQ
      then (let (r, w') = handleWrite S s (txn_size txn) (txn_address txn) (txn_data txn) (br_world b)
            in (r, [], w'))
      else handleRead S s (txn_size txn) (txn_address txn) (replicate (unat (txn_size txn)) 0) (br_world b))"
    and "txn_type txn = READ_REQ \<longrightarrow>
      unat (txn_size txn) \<le> vector_max_size \<and> length data = unat (txn_size txn)"
  shows "\<exists>b' t. Bridge_reader L S b = Ret b' \<and> br_world b' = w
    \<and> q_items (br_queue b') = q_items (br_queue b) @ [t] \<and> br_reader b' = br_reader b
    \<and> tx_type t = TRANSACTION \<and> tx_promise t = None
    \<and> tx_txn t = \<lparr>txn_type = (if txn_type txn = WRITE_REQ then WRITE_RESP else READ_RESP),
         txn_initiator = txn_initiator txn, txn_target = txn_target txn, txn_id = txn_id txn,
         txn_address = txn_address txn, txn_size = txn_size txn,
         txn_data = (if ret = 0 then data else []), txn_ok = (ret = 0),
         txn_message = (if ret = 0 then '''' else ''Slave operation failed'')\<rparr>"
proof (cases "txn_type txn = WRITE_REQ")
  case True
  obtain r w' where h: "handleWrite S s (txn_size txn) (txn_address txn) (txn_data txn) (br_world b) = (r, w')"
    by fastforce
  have eq: "ret = r" "data = []" "w = w'"
    using assms(5) True h by auto
  show ?thesis
    using assms(1,3,4) True h
    by (simp add: Bridge_reader_def reader_request_def Let_def push_txn_def new_Transaction_def eq)
next
  case False
  then have ty: "txn_type txn = READ_REQ"
    using assms(2) by simp
  then have h: "handleRead S s (txn_size txn) (txn_address txn) (replicate (unat (txn_size txn)) 0) (br_world b)
      = (ret, data, w)"
    using assms(5) by simp
  show ?thesis
    using assms(1,3,4,6) ty h
    by (simp add: Bridge_reader_def reader_request_def Let_def push_txn_def new_Transaction_def)
qed

definition example_read_req :: Transaction where
  "example_read_req = (new_Transaction True)\<lparr>txn_initiator := 2, txn_target := 5, txn_id := 3,
     txn_address := 0x1000, txn_size := 2\<rparr>"

lemma example_read_req_received:
  obtains c where "RouterClient_receiveTransaction example_lib
    (br_client (example_waiting (example_read_req\<lparr>txn_target := i\<rparr>) 0))
      = Ret (c, Some (example_read_req\<lparr>txn_target := i\<rparr>), status_ok)"
proof -
  let ?t = "example_read_req\<lparr>txn_target := i\<rparr>"
  have "length (enc_Message (Transaction_message ?t 0)) \<le> vector_max_size"
    by (simp add: enc_sizes Transaction_message_def example_read_req_def
        new_Transaction_def new_Message_def vector_max_size_def)
  moreover have "wire_of_TransactionType (txn_type ?t) = Some 0"
    by (simp add: example_read_req_def new_Transaction_def)
  ultimately show ?thesis
    using that by (elim example_receives [rotated]) (auto simp: example_waiting_def)
qed

theorem Bridge_reader_answers_request_witness:
  "\<exists>b' t. Bridge_reader example_lib example_slaves
      (example_waiting (example_read_req\<lparr>txn_target := 5\<rparr>) 0) = Ret b'
    \<and> q_items (br_queue b') = [t] \<and> txn_data (tx_txn t) = [7, 7] \<and> txn_id (tx_txn t) = 3"
proof -
  let ?t = "example_read_req\<lparr>txn_target := 5\<rparr>"
  let ?b = "example_waiting ?t 0"
  obtain c where c: "RouterClient_receiveTransaction example_lib (br_client ?b) = Ret (c, Some ?t, status_ok)"
    by (rule example_read_req_received)
  have "txn_type ?t = READ_REQ" "txn_target ?t = 5" "txn_size ?t = 2" "txn_id ?t = 3"
    by (simp_all add: example_read_req_def new_Transaction_def)
  moreover have "map_of (br_slaveMap ?b) 5 = Some (Some 9)" "br_deleted ?b = []" "br_queue ?b = q_new"
    by (simp_all add: example_waiting_def)
  moreover have "handleRead example_slaves 9 2 (txn_address ?t) (replicate 2 0) (br_world ?b)
      = (0, [7, 7], br_world ?b)"
    by (simp add: example_slaves_def numeral_2_eq_2)
  ultimately show ?thesis
    using Bridge_reader_answers_request [OF c, of 9 0 "[7, 7]" "br_world ?b" example_slaves]
    by (auto simp: vector_max_size_def q_new_def)
qed

text \<open>
  C29: a transaction that nobody here is concerned with ends the reader: a response for a master or an
  identifier that does not wait, or a request to a slave that is not registered. The status is an error,
  the queue is finished, and memory, futures, slaves and the waiting requests are as before.
\<close>

theorem Bridge_reader_stops:
  assumes "RouterClient_receiveTransaction L (br_client b) = Ret (c, Some txn, status_ok)"
    and "(txn_type txn = READ_RESP \<or> txn_type txn = WRITE_RESP)
        \<and> map_of (md_txns (masterMap_at (txn_initiator txn) b)) (txn_id txn) = None
      \<or> (txn_type txn = READ_REQ \<or> txn_type txn = WRITE_REQ)
        \<and> map_of (br_slaveMap b) (txn_target txn) = None"
  shows "\<exists>msg. Bridge_reader L S b = Ret (b\<lparr>br_client := c, br_readerStatus := mk_status 1 msg,
      br_queue := q_finish (br_queue b), br_reader := Reader_Exited\<rparr>)"
proof (cases "txn_type txn = READ_RESP \<or> txn_type txn = WRITE_RESP")
  case True
  with assms show ?thesis
    by (cases "map_of (br_masterMap b) (txn_initiator txn)")
      (auto simp: Bridge_reader_def reader_response_def stop_reader_def masterMap_at_def Let_def)
next
  case False
  with assms show ?thesis
    by (auto simp: Bridge_reader_def reader_request_def stop_reader_def Let_def)
qed

theorem Bridge_reader_stops_witness:
  "\<exists>b'. Bridge_reader example_lib example_slaves
      (example_waiting (example_read_req\<lparr>txn_target := 6\<rparr>) 0) = Ret b'
    \<and> br_reader b' = Reader_Exited \<and> isError (br_readerStatus b')"
proof -
  let ?t = "example_read_req\<lparr>txn_target := 6\<rparr>"
  let ?b = "example_waiting ?t 0"
  obtain c where c: "RouterClient_receiveTransaction example_lib (br_client ?b) = Ret (c, Some ?t, status_ok)"
    by (rule example_read_req_received)
  have "txn_type ?t = READ_REQ" "map_of (br_slaveMap ?b) (txn_target ?t) = None"
    by (simp_all add: example_read_req_def new_Transaction_def example_waiting_def)
  with Bridge_reader_stops [OF c, of example_slaves] show ?thesis
    by auto
qed

section \<open>The end of a session\<close>

text \<open>
  An orderly end: if DONE arrives while the writer waits in \<^verbatim>\<open>pop\<close> on an empty queue, then in four
  steps the reader has finished the queue, the writer has woken up, sent DONE and logged out, and
  \<^verbatim>\<open>waitForCompletion\<close> returns OK.
\<close>

theorem Bridge_shutdown_waiting:
  assumes "RouterClient_receiveTransaction L (br_client b) = Ret (c, None, mk_status DONE_code msg)"
    and "c_state c = STARTED" "c_sock c \<noteq> -1" "wr_script (c_out c) = []"
    and "br_reader b = Reader_Running" "br_writer b = Writer_Pop"
    and "q_items (br_queue b) = []" "q_popper (br_queue b) = Waiting"
  shows "\<exists>b1 b2. bridge_run L S b 4 b1 \<and> Bridge_waitForCompletion b1 = Some (Ret (b2, status_ok))
    \<and> c_state (br_client b2) = LOGGED_OUT
    \<and> wr_sent (c_out (br_client b2)) = wr_sent (c_out c) @ frame (lib_encode L (new_Message Type_DONE))"
proof -
  let ?q = "q_finish (br_queue b)"
  let ?b1 = "stop_reader status_ok (b\<lparr>br_client := c\<rparr>)"
  let ?b2 = "?b1\<lparr>br_queue := q_notify_one ?q\<rparr>"
  let ?b3 = "?b2\<lparr>br_queue := (q_notify_one ?q)\<lparr>q_popper := Outside\<rparr>, br_writer := Writer_Logout\<rparr>"
  let ?c = "c\<lparr>c_out := (c_out c)\<lparr>wr_sent := wr_sent (c_out c) @ frame (lib_encode L (new_Message Type_DONE))\<rparr>,
    c_state := LOGGED_OUT\<rparr>"
  let ?b4 = "stop_writer status_ok (?b3\<lparr>br_client := ?c\<rparr>)"
  have "Bridge_reader L S b = Ret ?b1"
    using assms(1) by (simp add: Bridge_reader_def DONE_code_def)
  with assms(5) have r1: "bridge_run L S b (Suc 0) ?b1"
    by (intro run_steps(1) [OF bridge_run.Run_start])
  have r2: "bridge_run L S b (Suc (Suc 0)) ?b2"
    using run_steps(3) [OF r1] by simp
  have "q_pop (br_queue ?b2) = (Finished, (q_notify_one ?q)\<lparr>q_popper := Outside\<rparr>)"
    using assms(8) by (simp add: q_pop_def q_notify_one_def q_finish_def)
  then have "Bridge_writer L ?b2 = Ret ?b3"
    using assms(6) by (simp add: Bridge_writer_def)
  with assms(6) have r3: "bridge_run L S b (Suc (Suc (Suc 0))) ?b3"
    by (intro run_steps(2) [OF r2]) simp_all
  have "RouterClient_sendLogout L c = (?c, status_ok)"
    using assms(2-4) by (simp add: RouterClient_sendLogout_def client_write_accepting)
  then have "Bridge_writer L ?b3 = Ret ?b4"
    by (simp add: Bridge_writer_def)
  then have "bridge_run L S b (Suc (Suc (Suc (Suc 0)))) ?b4"
    by (intro run_steps(2) [OF r3]) simp_all
  moreover have "Bridge_waitForCompletion ?b4 =
      Some (Ret (?b4\<lparr>br_reader := Reader_Absent, br_writer := Writer_Absent\<rparr>, status_ok))"
    by (simp add: Bridge_waitForCompletion_def Let_def stop_writer_def)
  ultimately show ?thesis
    by - (rule exI [of _ ?b4], rule exI [of _ "?b4\<lparr>br_reader := Reader_Absent, br_writer := Writer_Absent\<rparr>"],
      simp add: eval_nat_numeral)
qed

text \<open>A started bridge with an idle queue to which the router says DONE.\<close>

definition example_ending :: "popper \<Rightarrow> nat bridge" where
  "example_ending p = (example_bridge example_memory)
     \<lparr>br_client := example_client STARTED [new_Message Type_DONE],
      br_queue := q_new\<lparr>q_popper := p\<rparr>, br_reader := Reader_Running, br_writer := Writer_Pop\<rparr>"

lemma example_done_received:
  obtains c where "RouterClient_receiveTransaction example_lib (br_client (example_ending p))
      = Ret (c, None, mk_status DONE_code ''Done processing'')"
    "c_state c = STARTED" "c_sock c \<noteq> -1" "wr_script (c_out c) = []"
proof -
  let ?c = "example_client STARTED [new_Message Type_DONE]"
  have "incoming example_lib ?c [new_Message Type_DONE]"
    by (intro incoming_example_client) (simp add: example_info_simps)
  moreover have "c_sock ?c \<noteq> -1"
    by simp
  ultimately obtain k where "client_read example_lib ?c = Ret (?c\<lparr>c_in := k\<rparr>, Some (new_Message Type_DONE))"
    using codec_example_lib by (elim client_read_incoming [rotated 2]) auto
  then show ?thesis
    by (intro that [of "?c\<lparr>c_in := k\<rparr>"]) (simp_all add: example_ending_def RouterClient_receiveTransaction_def)
qed

theorem Bridge_shutdown_waiting_witness:
  "\<exists>b1 b2. bridge_run example_lib example_slaves (example_ending Waiting) 4 b1
    \<and> Bridge_waitForCompletion b1 = Some (Ret (b2, status_ok)) \<and> c_state (br_client b2) = LOGGED_OUT"
proof -
  obtain c where c: "RouterClient_receiveTransaction example_lib (br_client (example_ending Waiting))
      = Ret (c, None, mk_status DONE_code ''Done processing'')"
    "c_state c = STARTED" "c_sock c \<noteq> -1" "wr_script (c_out c) = []"
    by (rule example_done_received)
  have "br_reader (example_ending Waiting) = Reader_Running" "br_writer (example_ending Waiting) = Writer_Pop"
    "q_items (br_queue (example_ending Waiting)) = []" "q_popper (br_queue (example_ending Waiting)) = Waiting"
    by (simp_all add: example_ending_def q_new_def)
  from Bridge_shutdown_waiting [OF c this, of example_slaves] show ?thesis
    by blast
qed

text \<open>
  A shutdown that never ends: if DONE arrives while the writer is between two calls of \<^verbatim>\<open>pop\<close> (for
  example sending the termination of the last master), with an empty queue, then in three steps the
  reader has exited with OK and the writer waits in \<^verbatim>\<open>pop\<close>; no further step of the threads or delivery of
  a notification changes anything, and \<^verbatim>\<open>waitForCompletion\<close> stays blocked.
\<close>

theorem Bridge_shutdown_stuck:
  assumes "RouterClient_receiveTransaction L (br_client b) = Ret (c, None, mk_status DONE_code msg)"
    and "br_reader b = Reader_Running" "br_writer b = Writer_Pop"
    and "q_items (br_queue b) = []" "q_popper (br_queue b) = Outside" "q_notify (br_queue b) = 0"
  shows "\<exists>b1. bridge_run L S b 3 b1
    \<and> br_reader b1 = Reader_Exited \<and> br_readerStatus b1 = status_ok
    \<and> Bridge_writer L b1 = Ret b1 \<and> q_notify_one (br_queue b1) = br_queue b1
    \<and> Bridge_waitForCompletion b1 = None"
proof -
  let ?q = "q_finish (br_queue b)"
  let ?b1 = "stop_reader status_ok (b\<lparr>br_client := c\<rparr>)"
  let ?b2 = "?b1\<lparr>br_queue := q_notify_one ?q\<rparr>"
  let ?b3 = "?b2\<lparr>br_queue := (q_notify_one ?q)\<lparr>q_popper := Waiting\<rparr>\<rparr>"
  have "Bridge_reader L S b = Ret ?b1"
    using assms(1) by (simp add: Bridge_reader_def DONE_code_def)
  with assms(2) have r1: "bridge_run L S b (Suc 0) ?b1"
    by (intro run_steps(1) [OF bridge_run.Run_start])
  have r2: "bridge_run L S b (Suc (Suc 0)) ?b2"
    using run_steps(3) [OF r1] by simp
  have "q_pop (br_queue ?b2) = (Blocked, (q_notify_one ?q)\<lparr>q_popper := Waiting\<rparr>)"
    using assms(4,5) by (simp add: q_pop_def q_take_def q_notify_one_def q_finish_def)
  then have "Bridge_writer L ?b2 = Ret ?b3"
    using assms(3) by (simp add: Bridge_writer_def)
  with assms(3) have r3: "bridge_run L S b (Suc (Suc (Suc 0))) ?b3"
    by (intro run_steps(2) [OF r2]) simp_all
  have "lost (br_queue ?b3)"
    using assms(4-6) by (simp add: lost_def q_notify_one_def q_finish_def)
  then have "Bridge_writer L ?b3 = Ret ?b3" "q_notify_one (br_queue ?b3) = br_queue ?b3"
    using assms(3) lost_pop [of "br_queue ?b3"] lost_notify [of "br_queue ?b3"]
    by (simp_all add: Bridge_writer_def)
  moreover have "Bridge_waitForCompletion ?b3 = None"
    using assms(3) by (simp add: Bridge_waitForCompletion_def)
  ultimately show ?thesis
    using r3 by (intro exI [of _ ?b3]) (simp add: eval_nat_numeral stop_reader_def)
qed

theorem Bridge_shutdown_stuck_witness:
  "\<exists>b1. bridge_run example_lib example_slaves (example_ending Outside) 3 b1
    \<and> br_reader b1 = Reader_Exited \<and> Bridge_writer example_lib b1 = Ret b1
    \<and> Bridge_waitForCompletion b1 = None"
proof -
  obtain c where c: "RouterClient_receiveTransaction example_lib (br_client (example_ending Outside))
      = Ret (c, None, mk_status DONE_code ''Done processing'')"
    by (rule example_done_received)
  have "br_reader (example_ending Outside) = Reader_Running" "br_writer (example_ending Outside) = Writer_Pop"
    "q_items (br_queue (example_ending Outside)) = []" "q_popper (br_queue (example_ending Outside)) = Outside"
    "q_notify (br_queue (example_ending Outside)) = 0"
    by (simp_all add: example_ending_def q_new_def)
  from Bridge_shutdown_stuck [OF c this, of example_slaves] show ?thesis
    by blast
qed

text \<open>
  A bridge cannot be used for a second session: its queue stays finished, so that after another
  \<^verbatim>\<open>start\<close> the first read a master issues wakes the writer up to log out; the request is left in the
  queue and its future pending.
\<close>

theorem Bridge_second_session:
  assumes "q_done (br_queue b)" "q_items (br_queue b) = []" "q_popper (br_queue b) = Outside"
    and "br_writer b = Writer_Pop"
  shows "\<exists>b1. bridge_run L S b 4 b1 \<and> br_writer b1 = Writer_Logout
    \<and> br_futures b1 = br_futures b @ [Pending]
    \<and> (\<exists>t. q_items (br_queue b1) = [t] \<and> tx_promise t = Some (length (br_futures b)))"
proof -
  let ?q = "br_queue b"
  let ?b1 = "b\<lparr>br_queue := ?q\<lparr>q_popper := Waiting\<rparr>\<rparr>"
  let ?b2 = "fst (Master_read m buffer ?b1)"
  let ?b3 = "?b2\<lparr>br_queue := q_notify_one (br_queue ?b2)\<rparr>"
  have "Bridge_writer L b = Ret ?b1"
    using assms by (simp add: Bridge_writer_def q_pop_def q_take_def)
  with assms(4) have r1: "bridge_run L S b (Suc 0) ?b1"
    by (intro run_steps(2) [OF bridge_run.Run_start]) simp_all
  have r2: "bridge_run L S b (Suc (Suc 0)) ?b2"
    by (rule run_steps(4) [OF r1])
  have r3: "bridge_run L S b (Suc (Suc (Suc 0))) ?b3"
    by (rule run_steps(3) [OF r2])
  obtain t where t: "br_queue ?b2 = q_push t (?q\<lparr>q_popper := Waiting\<rparr>)"
    "tx_promise t = Some (length (br_futures b))" "br_futures ?b2 = br_futures b @ [Pending]"
    "br_writer ?b2 = Writer_Pop"
    using assms(4) by (simp add: Master_read_def get_future_def Let_def)
  let ?q4 = "(q_notify_one (br_queue ?b2))\<lparr>q_popper := Outside\<rparr>"
  have "q_pop (br_queue ?b3) = (Finished, ?q4)"
    using assms(1) by (simp add: t(1) q_pop_def q_notify_one_def q_push_def)
  then have "Bridge_writer L ?b3 = Ret (?b3\<lparr>br_queue := ?q4, br_writer := Writer_Logout\<rparr>)"
    by (simp add: Bridge_writer_def t(4))
  then have "bridge_run L S b (Suc (Suc (Suc (Suc 0)))) (?b3\<lparr>br_queue := ?q4, br_writer := Writer_Logout\<rparr>)"
    by (intro run_steps(2) [OF r3]) (simp_all add: t(4))
  then show ?thesis
    using t(2,3) assms(2)
    by (intro exI [of _ "?b3\<lparr>br_queue := ?q4, br_writer := Writer_Logout\<rparr>"]) (simp add: t(1) eval_nat_numeral)
qed

theorem Bridge_second_session_witness:
  "\<exists>b1. bridge_run example_lib example_slaves
       ((example_ending Outside)\<lparr>br_queue := q_new\<lparr>q_done := True\<rparr>\<rparr>) 4 b1
    \<and> br_writer b1 = Writer_Logout \<and> br_futures b1 = [Pending]"
proof -
  let ?b = "(example_ending Outside)\<lparr>br_queue := q_new\<lparr>q_done := True\<rparr>\<rparr>"
  have "q_done (br_queue ?b)" "q_items (br_queue ?b) = []" "q_popper (br_queue ?b) = Outside"
    "br_writer ?b = Writer_Pop" "br_futures ?b = []"
    by (simp_all add: example_ending_def q_new_def)
  from Bridge_second_session [OF this(1-4), of example_lib example_slaves] this(5) show ?thesis
    by auto
qed

end
