(* ===== verification/Sim_Bridge.thy ===== *)
theory Sim_Bridge
  imports Bridge
begin

text \<open>
  The C interface of the simulator's side, \<^verbatim>\<open>src/sim/bridge.cc\<close>, and the conversions of
  \<^verbatim>\<open>src/sim/utils.sv\<close> that use it. The simulator holds handles to C++ objects; the model is the heap of
  these objects. Output parameters are results, and a flag says whether the pointer to write them
  through is not null.
\<close>

section \<open>The heap of handles\<close>

datatype object = OClient client | OStatus Status | OInfo SystemInfo | OConfig IpConfig

text \<open>
  \<open>d_orphans\<close> are the descriptors that were still open in a client when it was deleted:
  \<^verbatim>\<open>RouterClient\<close> has no destructor that closes its socket. \<open>d_lost\<close> counts the objects that the clients that
  have been deleted had lost.
\<close>

record dpi =
  d_heap :: "nat \<Rightarrow> object option"
  d_next :: nat
  d_orphans :: "int list"
  d_lost :: nat

definition dpi_new :: dpi where
  "dpi_new = \<lparr>d_heap = (\<lambda>h. None), d_next = 0, d_orphans = [], d_lost = 0\<rparr>"

definition allocate :: "object \<Rightarrow> dpi \<Rightarrow> ptr \<times> dpi" where
  "allocate ob d = (Some (d_next d), d\<lparr>d_heap := (d_heap d)(d_next d \<mapsto> ob), d_next := Suc (d_next d)\<rparr>)"

definition allocate_opt :: "object option \<Rightarrow> dpi \<Rightarrow> ptr \<times> dpi" where
  "allocate_opt x d = (case x of None \<Rightarrow> (None, d) | Some ob \<Rightarrow> allocate ob d)"

definition put_object :: "nat \<Rightarrow> object \<Rightarrow> dpi \<Rightarrow> dpi" where
  "put_object h ob d = d\<lparr>d_heap := (d_heap d)(h \<mapsto> ob)\<rparr>"

fun as_client :: "object \<Rightarrow> client option" where
  "as_client (OClient c) = Some c"
| "as_client _ = None"

fun as_status :: "object \<Rightarrow> Status option" where
  "as_status (OStatus st) = Some st"
| "as_status _ = None"

fun as_info :: "object \<Rightarrow> SystemInfo option" where
  "as_info (OInfo si) = Some si"
| "as_info _ = None"

fun as_config :: "object \<Rightarrow> IpConfig option" where
  "as_config (OConfig ip) = Some ip"
| "as_config _ = None"

text \<open>
  What every function does first: end the program if a pointer is null, else \<^verbatim>\<open>reinterpret_cast\<close> the
  handle, which must be a live object of that type.
\<close>

definition with_object ::
  "(object \<Rightarrow> 'a option) \<Rightarrow> ptr \<Rightarrow> bool list \<Rightarrow> dpi \<Rightarrow> (nat \<Rightarrow> 'a \<Rightarrow> 'b outcome) \<Rightarrow> 'b outcome" where
  "with_object as p outs d f = (case p of
     None \<Rightarrow> Fault Terminate
   | Some h \<Rightarrow> if False \<in> set outs then Fault Terminate
       else (case d_heap d h of
          None \<Rightarrow> Fault UseAfterFree
        | Some ob \<Rightarrow> (case as ob of None \<Rightarrow> Fault BadCast | Some x \<Rightarrow> f h x)))"

text \<open>\<^verbatim>\<open>delete\<close> through a handle; deleting null does nothing.\<close>

definition delete_object :: "(object \<Rightarrow> 'a option) \<Rightarrow> ptr \<Rightarrow> dpi \<Rightarrow> dpi outcome" where
  "delete_object as p d = (case p of
     None \<Rightarrow> Ret d
   | Some h \<Rightarrow> (case d_heap d h of
        None \<Rightarrow> Fault DoubleFree
      | Some ob \<Rightarrow> if as ob = None then Fault BadCast
          else Ret (d\<lparr>d_heap := (d_heap d)(h := None)\<rparr>)))"

text \<open>What \<^verbatim>\<open>c_str()\<close> shows of a string: the part before the first NUL.\<close>

definition c_str :: "string \<Rightarrow> string" where
  "c_str s = takeWhile (\<lambda>ch. ch \<noteq> CHR 0x00) s"

section \<open>The client\<close>

definition sw_axi_client_new :: "int list \<Rightarrow> dpi \<Rightarrow> ptr \<times> dpi" where
  "sw_axi_client_new fds d = allocate (OClient (new_RouterClient fds)) d"

definition sw_axi_client_delete :: "ptr \<Rightarrow> dpi \<Rightarrow> dpi outcome" where
  "sw_axi_client_delete client d =
     bind_outcome (delete_object as_client client d) (\<lambda>d'.
       Ret (case client of
          None \<Rightarrow> d'
        | Some h \<Rightarrow> (case d_heap d h of
             Some (OClient c) \<Rightarrow>
               (let d1 = d'\<lparr>d_lost := d_lost d' + c_lost c\<rparr>
                in if c_sock c = -1 then d1 else d1\<lparr>d_orphans := c_sock c # d_orphans d1\<rparr>)
           | _ \<Rightarrow> d')))"

definition sw_axi_client_connect ::
  "lib \<Rightarrow> env \<Rightarrow> ptr \<Rightarrow> bool \<Rightarrow> bool \<Rightarrow> string \<Rightarrow> string \<Rightarrow> dpi \<Rightarrow> (dpi \<times> ptr \<times> ptr) outcome" where
  "sw_axi_client_connect L E client status systemInfo uri name d =
     with_object as_client client [status, systemInfo] d (\<lambda>h c.
       bind_outcome (RouterClient_connect L E uri name c) (\<lambda>(c', info, st).
         let (ip, d1) = allocate_opt (map_option OInfo info) (put_object h (OClient c') d);
             (sp, d2) = allocate (OStatus st) d1
         in Ret (d2, sp, ip)))"

definition sw_axi_client_register_slave ::
  "lib \<Rightarrow> ptr \<Rightarrow> bool \<Rightarrow> bool \<Rightarrow> string \<Rightarrow> u64 \<Rightarrow> u64 \<Rightarrow> u16 \<Rightarrow> u16 \<Rightarrow> u32 \<Rightarrow> u32 \<Rightarrow> dpi
    \<Rightarrow> (dpi \<times> ptr \<times> u64) outcome" where
  "sw_axi_client_register_slave L client status i name address sz firstInterrupt numInterrupts type
     implementation d =
     with_object as_client client [status, i] d (\<lambda>h c.
       let cfg = new_IpConfig\<lparr>ip_name := name, ip_address := address, ip_size := sz,
             ip_firstInterrupt := firstInterrupt, ip_numInterrupts := numInterrupts,
             ip_type := IpType_of_int type, ip_implementation := IpImplementation_of_int implementation\<rparr>
       in bind_outcome (RouterClient_registerIp L cfg c) (\<lambda>(c', n, st).
         let (sp, d1) = allocate (OStatus st) (put_object h (OClient c') d)
         in Ret (d1, sp, n)))"

definition sw_axi_client_commit_ip :: "lib \<Rightarrow> ptr \<Rightarrow> bool \<Rightarrow> dpi \<Rightarrow> (dpi \<times> ptr) outcome" where
  "sw_axi_client_commit_ip L client status d =
     with_object as_client client [status] d (\<lambda>h c.
       bind_outcome (RouterClient_commitIp L c) (\<lambda>(c', st).
         let (sp, d1) = allocate (OStatus st) (put_object h (OClient c') d) in Ret (d1, sp)))"

definition sw_axi_client_retrieve_peer_info ::
  "lib \<Rightarrow> ptr \<Rightarrow> bool \<Rightarrow> bool \<Rightarrow> dpi \<Rightarrow> (dpi \<times> ptr \<times> ptr) outcome" where
  "sw_axi_client_retrieve_peer_info L client status systemInfo d =
     with_object as_client client [status, systemInfo] d (\<lambda>h c.
       bind_outcome (RouterClient_retrievePeerInfo L c) (\<lambda>(c', info, st).
         let (ip, d1) = allocate_opt (map_option OInfo info) (put_object h (OClient c') d);
             (sp, d2) = allocate (OStatus st) d1
         in Ret (d2, sp, ip)))"

definition sw_axi_client_retrieve_ip_config ::
  "lib \<Rightarrow> ptr \<Rightarrow> bool \<Rightarrow> bool \<Rightarrow> dpi \<Rightarrow> (dpi \<times> ptr \<times> ptr) outcome" where
  "sw_axi_client_retrieve_ip_config L client status ipConfig d =
     with_object as_client client [status, ipConfig] d (\<lambda>h c.
       bind_outcome (RouterClient_retrieveIpConfig L c) (\<lambda>(c', ip, st).
         let (ipp, d1) = allocate_opt (map_option OConfig ip) (put_object h (OClient c') d);
             (sp, d2) = allocate (OStatus st) d1
         in Ret (d2, sp, ipp)))"

definition sw_axi_client_disconnect :: "ptr \<Rightarrow> dpi \<Rightarrow> dpi outcome" where
  "sw_axi_client_disconnect client d =
     with_object as_client client [] d (\<lambda>h c. Ret (put_object h (OClient (RouterClient_disconnect c)) d))"

section \<open>Status\<close>

definition sw_axi_status_get_msg :: "ptr \<Rightarrow> dpi \<Rightarrow> string outcome" where
  "sw_axi_status_get_msg status d =
     with_object as_status status [] d (\<lambda>h st. Ret (c_str (getMessage st)))"

definition sw_axi_status_get_code :: "ptr \<Rightarrow> dpi \<Rightarrow> u32 outcome" where
  "sw_axi_status_get_code status d = with_object as_status status [] d (\<lambda>h st. Ret (getCode st))"

definition sw_axi_status_delete :: "ptr \<Rightarrow> dpi \<Rightarrow> dpi outcome" where
  "sw_axi_status_delete status d = delete_object as_status status d"

section \<open>System info\<close>

definition sw_axi_system_info_get_name :: "ptr \<Rightarrow> dpi \<Rightarrow> string outcome" where
  "sw_axi_system_info_get_name si d = with_object as_info si [] d (\<lambda>h i. Ret (c_str (si_name i)))"

definition sw_axi_system_info_get_system_name :: "ptr \<Rightarrow> dpi \<Rightarrow> string outcome" where
  "sw_axi_system_info_get_system_name si d =
     with_object as_info si [] d (\<lambda>h i. Ret (c_str (si_systemName i)))"

definition sw_axi_system_info_get_pid :: "ptr \<Rightarrow> dpi \<Rightarrow> u64 outcome" where
  "sw_axi_system_info_get_pid si d = with_object as_info si [] d (\<lambda>h i. Ret (si_pid i))"

definition sw_axi_system_info_get_hostname :: "ptr \<Rightarrow> dpi \<Rightarrow> string outcome" where
  "sw_axi_system_info_get_hostname si d =
     with_object as_info si [] d (\<lambda>h i. Ret (c_str (si_hostname i)))"

definition sw_axi_system_info_delete :: "ptr \<Rightarrow> dpi \<Rightarrow> dpi outcome" where
  "sw_axi_system_info_delete si d = delete_object as_info si d"

section \<open>IP configuration\<close>

definition sw_axi_ip_config_get_name :: "ptr \<Rightarrow> dpi \<Rightarrow> string outcome" where
  "sw_axi_ip_config_get_name ip d = with_object as_config ip [] d (\<lambda>h i. Ret (c_str (ip_name i)))"

definition sw_axi_ip_config_get_address_and_size :: "ptr \<Rightarrow> bool \<Rightarrow> bool \<Rightarrow> dpi \<Rightarrow> (u64 \<times> u64) outcome" where
  "sw_axi_ip_config_get_address_and_size ip addr sz d =
     with_object as_config ip [addr, sz] d (\<lambda>h i. Ret (ip_address i, ip_size i))"

definition sw_axi_ip_config_get_interrupts :: "ptr \<Rightarrow> bool \<Rightarrow> bool \<Rightarrow> dpi \<Rightarrow> (u16 \<times> u16) outcome" where
  "sw_axi_ip_config_get_interrupts ip first num d =
     with_object as_config ip [first, num] d (\<lambda>h i. Ret (ip_firstInterrupt i, ip_numInterrupts i))"

definition sw_axi_ip_config_get_type :: "ptr \<Rightarrow> bool \<Rightarrow> bool \<Rightarrow> dpi \<Rightarrow> (u32 \<times> u32) outcome" where
  "sw_axi_ip_config_get_type ip typ impl d =
     with_object as_config ip [typ, impl] d (\<lambda>h i.
       Ret (int_of_IpType (ip_type i), int_of_IpImplementation (ip_implementation i)))"

definition sw_axi_ip_config_delete :: "ptr \<Rightarrow> dpi \<Rightarrow> dpi outcome" where
  "sw_axi_ip_config_delete ip d = delete_object as_config ip d"

section \<open>The conversions of the simulator\<close>

definition convertStatus :: "ptr \<Rightarrow> dpi \<Rightarrow> (dpi \<times> Status) outcome" where
  "convertStatus st d =
     bind_outcome (sw_axi_status_get_msg st d) (\<lambda>msg.
     bind_outcome (sw_axi_status_get_code st d) (\<lambda>code.
     bind_outcome (sw_axi_status_delete st d) (\<lambda>d'. Ret (d', mk_status code msg))))"

definition convertSystemInfo :: "ptr \<Rightarrow> dpi \<Rightarrow> (dpi \<times> SystemInfo) outcome" where
  "convertSystemInfo si d =
     bind_outcome (sw_axi_system_info_get_name si d) (\<lambda>name.
     bind_outcome (sw_axi_system_info_get_system_name si d) (\<lambda>systemName.
     bind_outcome (sw_axi_system_info_get_pid si d) (\<lambda>pid.
     bind_outcome (sw_axi_system_info_get_hostname si d) (\<lambda>hostname.
     bind_outcome (sw_axi_system_info_delete si d) (\<lambda>d'.
       Ret (d', \<lparr>si_name = name, si_systemName = systemName, si_pid = pid, si_hostname = hostname\<rparr>))))))"

definition convertIpConfig :: "ptr \<Rightarrow> dpi \<Rightarrow> (dpi \<times> IpConfig) outcome" where
  "convertIpConfig ipc d =
     bind_outcome (sw_axi_ip_config_get_name ipc d) (\<lambda>name.
     bind_outcome (sw_axi_ip_config_get_address_and_size ipc True True d) (\<lambda>(address, sz).
     bind_outcome (sw_axi_ip_config_get_interrupts ipc True True d) (\<lambda>(first, num).
     bind_outcome (sw_axi_ip_config_get_type ipc True True d) (\<lambda>(typ, impl).
     bind_outcome (sw_axi_ip_config_delete ipc d) (\<lambda>d'.
       Ret (d', \<lparr>ip_name = name, ip_address = address, ip_size = sz, ip_firstInterrupt = first,
         ip_numInterrupts = num, ip_type = IpType_of_int typ,
         ip_implementation = IpImplementation_of_int impl\<rparr>))))))"

end
