(* ===== verification/Sim_Properties.thy ===== *)
theory Sim_Properties
  imports Sim_Bridge Bridge_Properties
begin

text \<open>
  The properties of the simulator's C interface (\<^verbatim>\<open>src/sim/bridge.cc\<close>): results survive the conversion to the simulator's types, and nothing is leaked by the
  protocol the simulator follows.
\<close>

section \<open>Calls\<close>

inductive dpi_step :: "lib \<Rightarrow> dpi \<Rightarrow> dpi \<Rightarrow> bool" for L where
  New: "sw_axi_client_new fds d = (p, d') \<Longrightarrow> dpi_step L d d'"
| Delete: "sw_axi_client_delete p d = Ret d' \<Longrightarrow> dpi_step L d d'"
| Connect: "sw_axi_client_connect L E p o1 o2 uri name d = Ret (d', r) \<Longrightarrow> dpi_step L d d'"
| Register: "sw_axi_client_register_slave L p o1 o2 name addr sz first num typ impl d = Ret (d', r2) \<Longrightarrow>
    dpi_step L d d'"
| Commit: "sw_axi_client_commit_ip L p o1 d = Ret (d', r3) \<Longrightarrow> dpi_step L d d'"
| Peer_info: "sw_axi_client_retrieve_peer_info L p o1 o2 d = Ret (d', r) \<Longrightarrow> dpi_step L d d'"
| Ip_config: "sw_axi_client_retrieve_ip_config L p o1 o2 d = Ret (d', r) \<Longrightarrow> dpi_step L d d'"
| Disconnect: "sw_axi_client_disconnect p d = Ret d' \<Longrightarrow> dpi_step L d d'"
| Status_delete: "sw_axi_status_delete p d = Ret d' \<Longrightarrow> dpi_step L d d'"
| Info_delete: "sw_axi_system_info_delete p d = Ret d' \<Longrightarrow> dpi_step L d d'"
| Config_delete: "sw_axi_ip_config_delete p d = Ret d' \<Longrightarrow> dpi_step L d d'"

text \<open>
  Handles are below the next one, and every client is where some calls on a new client lead.
\<close>

definition reached :: "lib \<Rightarrow> client \<Rightarrow> bool" where
  "reached L c \<longleftrightarrow> (\<exists>fds. client_reach L (new_RouterClient fds) c)"

definition object_ok :: "lib \<Rightarrow> object \<Rightarrow> bool" where
  "object_ok L ob \<longleftrightarrow> (\<forall>c. ob = OClient c \<longrightarrow> reached L c)"

definition dpi_inv :: "lib \<Rightarrow> dpi \<Rightarrow> bool" where
  "dpi_inv L d \<longleftrightarrow> (\<forall>h ob. d_heap d h = Some ob \<longrightarrow> h < d_next d \<and> object_ok L ob)"

lemma reached_new: "reached L (new_RouterClient fds)"
  unfolding reached_def by (rule exI [of _ fds]) simp

lemma reached_reach: "reached L c \<Longrightarrow> client_reach L c c' \<Longrightarrow> reached L c'"
  by (auto simp: reached_def intro: client_reach_trans)

lemma object_ok_simps [simp]:
  "object_ok L (OClient c) \<longleftrightarrow> reached L c" "object_ok L (OStatus st)" "object_ok L (OInfo si)"
  "object_ok L (OConfig ip)"
  by (simp_all add: object_ok_def)

lemma dpi_inv_new: "dpi_inv L dpi_new"
  by (simp add: dpi_inv_def dpi_new_def)

lemma dpi_inv_allocate:
  "dpi_inv L d \<Longrightarrow> object_ok L ob \<Longrightarrow> allocate ob d = (p, d') \<Longrightarrow> dpi_inv L d'"
  by (fastforce simp: dpi_inv_def allocate_def split: if_splits)

lemma dpi_inv_allocate_opt:
  "dpi_inv L d \<Longrightarrow> (\<And>ob. x = Some ob \<Longrightarrow> object_ok L ob) \<Longrightarrow> allocate_opt x d = (p, d') \<Longrightarrow> dpi_inv L d'"
  by (cases x) (auto simp: allocate_opt_def intro: dpi_inv_allocate)

lemma dpi_inv_put:
  "dpi_inv L d \<Longrightarrow> d_heap d h = Some (OClient c) \<Longrightarrow> client_reach L c c' \<Longrightarrow>
   dpi_inv L (put_object h (OClient c') d)"
  by (fastforce simp: dpi_inv_def put_object_def intro: reached_reach)

lemma dpi_inv_delete:
  "dpi_inv L d \<Longrightarrow> delete_object as p d = Ret d' \<Longrightarrow> dpi_inv L d'"
  by (auto simp: delete_object_def dpi_inv_def split: option.splits if_splits)

lemma with_client:
  assumes "with_object as_client p outs d f = Ret r"
  obtains h c where "p = Some h" "d_heap d h = Some (OClient c)" "f h c = Ret r"
  using assms by (auto simp: with_object_def split: option.splits if_splits elim!: as_client.elims)

text \<open>The common end of the calls: the client, an object perhaps, and a status.\<close>

lemma dpi_inv_result:
  assumes "dpi_inv L d" "d_heap d h = Some (OClient c)" "client_reach L c c'"
    and "\<And>ob. x = Some ob \<Longrightarrow> object_ok L ob"
    and "allocate_opt x (put_object h (OClient c') d) = (ip, d1)" "allocate (OStatus st) d1 = (sp, d2)"
  shows "dpi_inv L d2"
proof -
  have "dpi_inv L d1"
    by (rule dpi_inv_allocate_opt [OF dpi_inv_put [OF assms(1-3)] assms(4,5)])
  from dpi_inv_allocate [OF this _ assms(6)] show ?thesis
    by simp
qed

lemma with_client_post [outcome_intros]:
  "(\<And>h c. d_heap d h = Some (OClient c) \<Longrightarrow> post P (f h c)) \<Longrightarrow> post P (with_object as_client p outs d f)"
  by (auto simp: post_def elim!: with_client)

lemma dpi_ops_inv:
  assumes inv: "dpi_inv L d"
  shows "post (\<lambda>(d', r). dpi_inv L d') (sw_axi_client_connect L E p o1 o2 uri name d)"
    and "post (\<lambda>(d', r). dpi_inv L d')
      (sw_axi_client_register_slave L p o1 o2 name addr sz first num typ impl d)"
    and "post (\<lambda>(d', r). dpi_inv L d') (sw_axi_client_commit_ip L p o1 d)"
    and "post (\<lambda>(d', r). dpi_inv L d') (sw_axi_client_retrieve_peer_info L p o1 o2 d)"
    and "post (\<lambda>(d', r). dpi_inv L d') (sw_axi_client_retrieve_ip_config L p o1 o2 d)"
proof -
  note result = dpi_inv_result [OF inv] and none = allocate_opt_def [of None, simplified]
  show "post (\<lambda>(d', r). dpi_inv L d') (sw_axi_client_connect L E p o1 o2 uri name d)"
    unfolding sw_axi_client_connect_def
    by (intro outcome_intros)
      (auto simp: Let_def split: prod.split elim!: result [OF _ client_reach_ops(1), rotated 3])
  show "post (\<lambda>(d', r). dpi_inv L d')
      (sw_axi_client_register_slave L p o1 o2 name addr sz first num typ impl d)"
    unfolding sw_axi_client_register_slave_def Let_def
    by (intro outcome_intros)
      (auto split: prod.split elim!: result [OF _ client_reach_ops(2) _ none, rotated 3])
  show "post (\<lambda>(d', r). dpi_inv L d') (sw_axi_client_commit_ip L p o1 d)"
    unfolding sw_axi_client_commit_ip_def
    by (intro outcome_intros)
      (auto simp: Let_def split: prod.split elim!: result [OF _ client_reach_ops(3) _ none, rotated 3])
  show "post (\<lambda>(d', r). dpi_inv L d') (sw_axi_client_retrieve_peer_info L p o1 o2 d)"
    unfolding sw_axi_client_retrieve_peer_info_def
    by (intro outcome_intros)
      (auto simp: Let_def split: prod.split elim!: result [OF _ client_reach_ops(4), rotated 3])
  show "post (\<lambda>(d', r). dpi_inv L d') (sw_axi_client_retrieve_ip_config L p o1 o2 d)"
    unfolding sw_axi_client_retrieve_ip_config_def
    by (intro outcome_intros)
      (auto simp: Let_def split: prod.split elim!: result [OF _ client_reach_ops(5), rotated 3])
qed

lemma sw_axi_client_delete_cases:
  assumes "sw_axi_client_delete p d = Ret d'"
  obtains "p = None" "d' = d"
  | h c where "p = Some h" "d_heap d h = Some (OClient c)"
    "d' = d\<lparr>d_heap := (d_heap d)(h := None),
      d_orphans := (if c_sock c = -1 then [] else [c_sock c]) @ d_orphans d, d_lost := d_lost d + c_lost c\<rparr>"
proof (cases p)
  case None
  with assms that(1) show ?thesis
    by (simp add: sw_axi_client_delete_def delete_object_def)
next
  case (Some h)
  then obtain ob where ob: "d_heap d h = Some ob" "as_client ob \<noteq> None"
    using assms by (auto simp: sw_axi_client_delete_def delete_object_def bind_outcome_eq_Ret
        split: option.splits if_splits)
  then obtain c where "ob = OClient c"
    by (cases ob) simp_all
  with Some ob assms that(2) show ?thesis
    by (auto simp: sw_axi_client_delete_def delete_object_def Let_def split: if_splits)
qed

lemma dpi_step_inv:
  assumes "dpi_step L d d'" "dpi_inv L d"
  shows "dpi_inv L d'"
  using assms(1)
proof cases
  case (New fds p)
  then have "allocate (OClient (new_RouterClient fds)) d = (p, d')"
    by (simp add: sw_axi_client_new_def)
  from dpi_inv_allocate [OF assms(2) _ this] show ?thesis
    by (simp add: reached_new)
next
  case (Delete p)
  then show ?thesis
    using assms(2) by (cases rule: sw_axi_client_delete_cases) (auto simp: dpi_inv_def)
next
  case Connect
  from postD [OF dpi_ops_inv(1) [OF assms(2)] this] show ?thesis by simp
next
  case Register
  from postD [OF dpi_ops_inv(2) [OF assms(2)] this] show ?thesis by simp
next
  case Commit
  from postD [OF dpi_ops_inv(3) [OF assms(2)] this] show ?thesis by simp
next
  case Peer_info
  from postD [OF dpi_ops_inv(4) [OF assms(2)] this] show ?thesis by simp
next
  case Ip_config
  from postD [OF dpi_ops_inv(5) [OF assms(2)] this] show ?thesis by simp
next
  case (Disconnect p)
  then show ?thesis
    using assms(2) by (auto simp: sw_axi_client_disconnect_def elim!: with_client
        intro: dpi_inv_put client_reach_ops)
qed (use assms(2) in \<open>auto simp: sw_axi_status_delete_def sw_axi_system_info_delete_def
    sw_axi_ip_config_delete_def intro: dpi_inv_delete\<close>)

lemma dpi_run_inv: "rtranclp (dpi_step L) dpi_new d \<Longrightarrow> dpi_inv L d"
  by (induction rule: rtranclp_induct) (auto intro: dpi_inv_new dpi_step_inv)

section \<open>Properties\<close>

definition example_dpi :: dpi where
  "example_dpi = snd (sw_axi_client_new [] dpi_new)"

lemma example_dpi_run: "rtranclp (dpi_step L) dpi_new example_dpi"
  unfolding example_dpi_def by (rule r_into_rtranclp, rule dpi_step.New, rule prod.collapse [symmetric])

lemma example_dpi_heap: "d_heap example_dpi 0 = Some (OClient (new_RouterClient []))" "d_next example_dpi = 1"
  by (simp_all add: example_dpi_def sw_axi_client_new_def allocate_def dpi_new_def)

text \<open>No handle is given out twice; so it is in every run.\<close>

definition handles_below :: "dpi \<Rightarrow> bool" where
  "handles_below d \<longleftrightarrow> (\<forall>h ob. d_heap d h = Some ob \<longrightarrow> h < d_next d)"

lemma dpi_run_handles_below: "rtranclp (dpi_step L) dpi_new d \<Longrightarrow> handles_below d"
  using dpi_run_inv by (fastforce simp: handles_below_def dpi_inv_def)

lemma fresh_handle: "handles_below d \<Longrightarrow> d_next d \<le> h \<Longrightarrow> d_heap d h = None"
  by (cases "d_heap d h") (fastforce simp: handles_below_def)+

text \<open>
  The simulator sees the result of \<^verbatim>\<open>commitIp\<close> exactly: the status that the conversion returns has the
  code of the client's status and its message up to the first NUL, and afterwards the heap holds the same
  objects as before, with the client advanced.
\<close>

theorem dpi_commit_status:
  assumes "handles_below d" "d_heap d h = Some (OClient c)"
    and "RouterClient_commitIp L c = Ret (c', st)"
  shows "\<exists>d1 sp d2. sw_axi_client_commit_ip L (Some h) True d = Ret (d1, sp)
    \<and> convertStatus sp d1 = Ret (d2, mk_status (getCode st) (c_str (getMessage st)))
    \<and> d_heap d2 = (d_heap d)(h \<mapsto> OClient c') \<and> d_orphans d2 = d_orphans d"
proof -
  have h: "h \<noteq> d_next d" "d_heap d (d_next d) = None"
    using assms(2) fresh_handle [OF assms(1)] by auto
  then have "(d_heap d)(h \<mapsto> OClient c', d_next d := None) = (d_heap d)(h \<mapsto> OClient c')"
    by (auto simp: fun_eq_iff)
  then show ?thesis
    using assms(2,3)
    by (simp add: sw_axi_client_commit_ip_def with_object_def allocate_def put_object_def
        convertStatus_def sw_axi_status_get_msg_def sw_axi_status_get_code_def
        sw_axi_status_delete_def delete_object_def)
qed

theorem dpi_commit_status_witness:
  "\<exists>d1 sp d2 msg. sw_axi_client_commit_ip example_lib (Some 0) True example_dpi = Ret (d1, sp)
    \<and> convertStatus sp d1 = Ret (d2, mk_status 1 msg)
    \<and> d_heap d2 = (d_heap example_dpi)(0 \<mapsto> OClient (new_RouterClient []))"
proof -
  have "RouterClient_commitIp example_lib (new_RouterClient []) =
      Ret (new_RouterClient [], mk_status 1 ''Can commit slaves only in CONNECTED mode'')"
    by (simp add: RouterClient_commitIp_def new_RouterClient_def)
  from dpi_commit_status [OF dpi_run_handles_below [OF example_dpi_run] example_dpi_heap(1) this] show ?thesis
    by auto
qed

lemma retrieved_named:
  assumes "RouterClient_retrieveIpConfig L c = Ret (c', Some ip, st)"
  shows "named_IpType (ip_type ip)" "named_IpImplementation (ip_implementation ip)"
proof -
  have named: "IpConfig_of_message m = Ret (Inr ip) \<Longrightarrow>
      named_IpType (ip_type ip) \<and> named_IpImplementation (ip_implementation ip)" for m
    by (auto simp: IpConfig_of_message_def deref_eq_Ret IpType_of_wire_def IpImplementation_of_wire_def
        split: option.splits if_splits)
  have "post (\<lambda>(c', x, st). \<forall>ip. x = Some ip \<longrightarrow> (\<exists>m. IpConfig_of_message m = Ret (Inr ip)))
      (RouterClient_retrieveIpConfig L c)"
    unfolding RouterClient_retrieveIpConfig_def
    by (auto simp del: post_simps(4) intro!: outcome_intros split: option.split sum.split) blast
  from postD [OF this assms] have "\<exists>m. IpConfig_of_message m = Ret (Inr ip)"
    by simp
  with named show "named_IpType (ip_type ip)" "named_IpImplementation (ip_implementation ip)"
    by blast+
qed

text \<open>
  C38: an IP configuration the client retrieves reaches the simulator with every field as it is, the name
  up to the first NUL, the two enumerations through their integers; the conversions of the
  configuration and of the status free what the call allocated.
\<close>

theorem dpi_ip_config_roundtrip:
  assumes "handles_below d" "d_heap d h = Some (OClient c)"
    and "RouterClient_retrieveIpConfig L c = Ret (c', Some ip, st)"
  shows "\<exists>d1 sp ipp d2 d3. sw_axi_client_retrieve_ip_config L (Some h) True True d = Ret (d1, sp, ipp)
    \<and> convertStatus sp d1 = Ret (d2, mk_status (getCode st) (c_str (getMessage st)))
    \<and> convertIpConfig ipp d2 = Ret (d3, ip\<lparr>ip_name := c_str (ip_name ip)\<rparr>)
    \<and> d_heap d3 = (d_heap d)(h \<mapsto> OClient c')"
proof -
  have h: "h < d_next d" and n: "d_heap d (d_next d) = None" and n': "d_heap d (Suc (d_next d)) = None"
    using assms(1,2) fresh_handle [OF assms(1)] by (auto simp: handles_below_def)
  have named: "named_IpType (ip_type ip)" "named_IpImplementation (ip_implementation ip)"
    using retrieved_named [OF assms(3)] by simp_all
  have heap: "(d_heap d)(h \<mapsto> OClient c', d_next d := None, Suc (d_next d) := None) = (d_heap d)(h \<mapsto> OClient c')"
    using h n n' by (auto simp: fun_eq_iff)
  have d3: "((d_heap d)(h \<mapsto> OClient c', d_next d \<mapsto> OConfig ip, Suc (d_next d) := None))(d_next d := None)
      = (d_heap d)(h \<mapsto> OClient c')"
    using heap by (simp add: fun_upd_twist)
  let ?d0 = "put_object h (OClient c') d"
  let ?d1 = "snd (allocate (OConfig ip) ?d0)"
  let ?d2 = "snd (allocate (OStatus st) ?d1)"
  let ?d3 = "?d2\<lparr>d_heap := (d_heap ?d2)(Suc (d_next d) := None)\<rparr>"
  let ?d4 = "?d3\<lparr>d_heap := (d_heap ?d3)(d_next d := None)\<rparr>"
  have call: "sw_axi_client_retrieve_ip_config L (Some h) True True d
      = Ret (?d2, Some (Suc (d_next d)), Some (d_next d))"
    using assms(2,3) by (simp add: sw_axi_client_retrieve_ip_config_def with_object_def allocate_opt_def
        allocate_def put_object_def)
  have status: "convertStatus (Some (Suc (d_next d))) ?d2
      = Ret (?d3, mk_status (getCode st) (c_str (getMessage st)))"
    by (simp add: convertStatus_def sw_axi_status_get_msg_def sw_axi_status_get_code_def
        sw_axi_status_delete_def delete_object_def with_object_def allocate_def put_object_def)
  have config: "convertIpConfig (Some (d_next d)) ?d3 = Ret (?d4, ip\<lparr>ip_name := c_str (ip_name ip)\<rparr>)"
    using named
    by (simp add: convertIpConfig_def sw_axi_ip_config_get_name_def
        sw_axi_ip_config_get_address_and_size_def sw_axi_ip_config_get_interrupts_def
        sw_axi_ip_config_get_type_def sw_axi_ip_config_delete_def delete_object_def with_object_def
        allocate_def put_object_def)
  have "d_heap ?d4 = (d_heap d)(h \<mapsto> OClient c')"
    using d3 by (simp add: allocate_def put_object_def)
  with call status config show ?thesis
    by blast
qed

definition example_ip :: IpConfig where
  "example_ip = new_IpConfig\<lparr>ip_name := ''ram'', ip_address := 0x1000, ip_size := 0x100\<rparr>"

theorem dpi_ip_config_roundtrip_witness:
  "\<exists>c d1 sp ipp d2 d3. sw_axi_client_retrieve_ip_config example_lib (Some 0) True True
       (example_dpi\<lparr>d_heap := [0 \<mapsto> OClient c]\<rparr>) = Ret (d1, sp, ipp)
    \<and> convertStatus sp d1 = Ret (d2, mk_status 0 '''') \<and> convertIpConfig ipp d2 = Ret (d3, example_ip)"
proof -
  let ?m = "registerIp_message example_ip 0"
  let ?c = "example_client PEER_INFO_RECEIVED [?m]"
  have ip: "IpConfig_of_message ?m = Ret (Inr example_ip)" "wm_type ?m = Type_IP_INFO"
    using IpConfig_of_registerIp_message [of example_ip 0]
    by (simp_all add: example_ip_def new_IpConfig_def registerIp_message_def)
  have "length (enc_Message ?m) \<le> vector_max_size"
    by (simp add: enc_sizes registerIp_message_def example_ip_def new_IpConfig_def new_Message_def
        vector_max_size_def)
  then have "incoming example_lib ?c [?m]"
    by (intro incoming_example_client) simp
  moreover have "c_sock ?c \<noteq> -1"
    by simp
  ultimately obtain k where "client_read example_lib ?c = Ret (?c\<lparr>c_in := k\<rparr>, Some ?m)"
    using codec_example_lib by (elim client_read_incoming [rotated 2]) auto
  then have call: "RouterClient_retrieveIpConfig example_lib ?c = Ret (?c\<lparr>c_in := k\<rparr>, Some example_ip, status_ok)"
    using ip by (simp add: RouterClient_retrieveIpConfig_def)
  have "handles_below (example_dpi\<lparr>d_heap := [0 \<mapsto> OClient ?c]\<rparr>)"
    "d_heap (example_dpi\<lparr>d_heap := [0 \<mapsto> OClient ?c]\<rparr>) 0 = Some (OClient ?c)"
    by (simp_all add: handles_below_def example_dpi_heap(2))
  moreover have "getCode status_ok = 0" "c_str (getMessage status_ok) = ''''"
    "example_ip\<lparr>ip_name := c_str (ip_name example_ip)\<rparr> = example_ip"
    by (simp_all add: getCode_def getMessage_def status_ok_def c_str_def example_ip_def new_IpConfig_def)
  ultimately show ?thesis
    using dpi_ip_config_roundtrip [OF _ _ call] by metis
qed

text \<open>
  A client is deleted without a trace exactly if it was disconnected before: \<^verbatim>\<open>sw_axi_client_delete\<close> on
  a client that is not DISCONNECTED leaves its descriptor open with nobody to close it; after
  \<^verbatim>\<open>sw_axi_client_disconnect\<close> it leaves none.
\<close>

theorem dpi_delete_orphans:
  assumes "rtranclp (dpi_step L) dpi_new d" "d_heap d h = Some (OClient c)"
  shows "(\<exists>d1. sw_axi_client_delete (Some h) d = Ret d1 \<and> d_heap d1 h = None
      \<and> d_orphans d1 = (if c_state c = DISCONNECTED then [] else [c_sock c]) @ d_orphans d)
    \<and> (\<exists>d1 d2. sw_axi_client_disconnect (Some h) d = Ret d1 \<and> sw_axi_client_delete (Some h) d1 = Ret d2
      \<and> d_heap d2 = (d_heap d)(h := None) \<and> d_orphans d2 = d_orphans d)"
proof
  have "reached L c"
    using dpi_run_inv [OF assms(1)] assms(2) unfolding dpi_inv_def by fastforce
  then obtain fds ops where "client_run L ops (new_RouterClient fds) = Ret c"
    by (auto simp: reached_def client_reach_def)
  then have sock: "c_sock c = -1 \<longleftrightarrow> c_state c = DISCONNECTED"
    using client_run_inv by (fastforce simp: client_inv_def closed_def)
  then show "\<exists>d1. sw_axi_client_delete (Some h) d = Ret d1 \<and> d_heap d1 h = None
      \<and> d_orphans d1 = (if c_state c = DISCONNECTED then [] else [c_sock c]) @ d_orphans d"
    using assms(2) by (simp add: sw_axi_client_delete_def delete_object_def Let_def)
  show "\<exists>d1 d2. sw_axi_client_disconnect (Some h) d = Ret d1 \<and> sw_axi_client_delete (Some h) d1 = Ret d2
      \<and> d_heap d2 = (d_heap d)(h := None) \<and> d_orphans d2 = d_orphans d"
    using assms(2) by (simp add: sw_axi_client_disconnect_def with_object_def sw_axi_client_delete_def
        delete_object_def put_object_def RouterClient_disconnect_def Let_def)
qed

theorem dpi_delete_orphans_witness:
  "(\<exists>d1. sw_axi_client_delete (Some 0) example_dpi = Ret d1 \<and> d_heap d1 0 = None \<and> d_orphans d1 = d_orphans example_dpi)
   \<and> (\<exists>d1 d2. sw_axi_client_disconnect (Some 0) example_dpi = Ret d1
      \<and> sw_axi_client_delete (Some 0) d1 = Ret d2 \<and> d_orphans d2 = d_orphans example_dpi)"
  using dpi_delete_orphans [OF example_dpi_run [of example_lib] example_dpi_heap(1)]
  by (auto simp: new_RouterClient_def)

end
