(* ===== verification/Sim_Calls.thy ===== *)
theory Sim_Calls
  imports Sim_Properties
begin

text \<open>
  Runs of the simulator's C interface, as lists of the calls that are made: what each call does to the client it
  is made on, and that it leaves all other clients alone.
\<close>

section \<open>Calls and runs\<close>

datatype dpi_call =
  Dpi_new "int list"
| Dpi_delete ptr
| Dpi_connect env ptr bool bool string string
| Dpi_register_slave ptr bool bool string u64 u64 u16 u16 u32 u32
| Dpi_commit_ip ptr bool
| Dpi_retrieve_peer_info ptr bool bool
| Dpi_retrieve_ip_config ptr bool bool
| Dpi_disconnect ptr
| Dpi_status_delete ptr
| Dpi_system_info_delete ptr
| Dpi_ip_config_delete ptr

text \<open>A call gives the heap after it and the handle of the status, if it has one.\<close>

fun dpi_do :: "lib \<Rightarrow> dpi_call \<Rightarrow> dpi \<Rightarrow> (dpi \<times> ptr) outcome" where
  "dpi_do L (Dpi_new fds) d = Ret (snd (sw_axi_client_new fds d), None)"
| "dpi_do L (Dpi_delete p) d = bind_outcome (sw_axi_client_delete p d) (\<lambda>d'. Ret (d', None))"
| "dpi_do L (Dpi_connect E p o1 o2 uri name) d =
     bind_outcome (sw_axi_client_connect L E p o1 o2 uri name d) (\<lambda>(d', st, _). Ret (d', st))"
| "dpi_do L (Dpi_register_slave p o1 o2 name addr sz first num typ impl) d =
     bind_outcome (sw_axi_client_register_slave L p o1 o2 name addr sz first num typ impl d) (\<lambda>(d', st, _). Ret (d', st))"
| "dpi_do L (Dpi_commit_ip p o1) d = sw_axi_client_commit_ip L p o1 d"
| "dpi_do L (Dpi_retrieve_peer_info p o1 o2) d =
     bind_outcome (sw_axi_client_retrieve_peer_info L p o1 o2 d) (\<lambda>(d', st, _). Ret (d', st))"
| "dpi_do L (Dpi_retrieve_ip_config p o1 o2) d =
     bind_outcome (sw_axi_client_retrieve_ip_config L p o1 o2 d) (\<lambda>(d', st, _). Ret (d', st))"
| "dpi_do L (Dpi_disconnect p) d = bind_outcome (sw_axi_client_disconnect p d) (\<lambda>d'. Ret (d', None))"
| "dpi_do L (Dpi_status_delete p) d = bind_outcome (sw_axi_status_delete p d) (\<lambda>d'. Ret (d', None))"
| "dpi_do L (Dpi_system_info_delete p) d = bind_outcome (sw_axi_system_info_delete p d) (\<lambda>d'. Ret (d', None))"
| "dpi_do L (Dpi_ip_config_delete p) d = bind_outcome (sw_axi_ip_config_delete p d) (\<lambda>d'. Ret (d', None))"

fun dpi_run :: "lib \<Rightarrow> dpi_call list \<Rightarrow> dpi \<Rightarrow> dpi outcome" where
  "dpi_run L [] d = Ret d"
| "dpi_run L (a # as) d = bind_outcome (dpi_do L a d) (\<lambda>(d', _). dpi_run L as d')"

text \<open>The client call that a call of the interface stands for, on the client with a given handle.\<close>

fun op_of :: "dpi_call \<Rightarrow> (ptr \<times> client_op) option" where
  "op_of (Dpi_connect E p o1 o2 uri name) = Some (p, Connect E uri name)"
| "op_of (Dpi_register_slave p o1 o2 name addr sz first num typ impl) = Some (p, RegisterIp
     \<lparr>ip_name = name, ip_address = addr, ip_size = sz, ip_firstInterrupt = first, ip_numInterrupts = num,
      ip_type = IpType_of_int typ, ip_implementation = IpImplementation_of_int impl\<rparr>)"
| "op_of (Dpi_commit_ip p o1) = Some (p, CommitIp)"
| "op_of (Dpi_retrieve_peer_info p o1 o2) = Some (p, RetrievePeerInfo)"
| "op_of (Dpi_retrieve_ip_config p o1 o2) = Some (p, RetrieveIpConfig)"
| "op_of (Dpi_disconnect p) = Some (p, Disconnect)"
| "op_of _ = None"

definition op_on :: "nat \<Rightarrow> dpi_call \<Rightarrow> client_op option" where
  "op_on h a = (case op_of a of None \<Rightarrow> None | Some (p, op) \<Rightarrow> if p = Some h then Some op else None)"

definition client_at :: "dpi \<Rightarrow> nat \<Rightarrow> client option" where
  "client_at d h = Option.bind (d_heap d h) as_client"

lemma client_at_Some: "client_at d h = Some c \<longleftrightarrow> d_heap d h = Some (OClient c)"
  unfolding client_at_def by (cases "d_heap d h"; simp) (rename_tac ob, case_tac ob; simp)

section \<open>One call\<close>

lemma below_fresh: "handles_below d \<Longrightarrow> d_heap d h = Some ob \<Longrightarrow> h \<noteq> d_next d \<and> h < d_next d"
  by (auto simp: handles_below_def)

definition status_at :: "dpi \<Rightarrow> ptr \<Rightarrow> Status \<Rightarrow> bool" where
  "status_at d p st \<longleftrightarrow> (\<exists>k. p = Some k \<and> d_heap d k = Some (OStatus st))"

lemma call_result:
  assumes d: "handles_below d" "d_heap d h = Some (OClient c)" and x: "\<forall>ob. x = Some ob \<longrightarrow> as_client ob = None"
    and result: "allocate_opt x (put_object h (OClient c') d) = (ip, d1)" "allocate (OStatus st) d1 = (sp, d2)"
  shows "client_at d2 = (client_at d)(h \<mapsto> c')" "status_at d2 sp st" "handles_below d2" "d_next d \<le> d_next d2"
proof -
  note fresh = below_fresh [OF d]
  have free: "d_heap d k = None" if "d_next d \<le> k" for k
    using d(1) that by (rule fresh_handle)
  show "client_at d2 = (client_at d)(h \<mapsto> c')"
    using result x fresh free
    by (cases x) (auto simp: fun_eq_iff client_at_def allocate_opt_def allocate_def put_object_def)
  show "status_at d2 sp st" "d_next d \<le> d_next d2"
    using result by (cases x; auto simp: status_at_def allocate_opt_def allocate_def put_object_def)+
  show "handles_below d2"
    using result d(1) fresh
    by (cases x) (auto simp: handles_below_def allocate_opt_def allocate_def put_object_def less_Suc_eq split: if_splits)
qed

lemma deleted_object:
  assumes "delete_object as p d = Ret d'" "handles_below d"
  shows "handles_below d'" "d_next d' = d_next d" "client_at d' h = Some c \<Longrightarrow> client_at d h = Some c"
  using assms by (auto simp: delete_object_def handles_below_def client_at_def split: option.splits if_splits)

text \<open>
  A call is made on a client, and does there what the call of the client does; or it makes a new client; or it
  does nothing to a client but perhaps delete it.
\<close>

definition does :: "lib \<Rightarrow> dpi_call \<Rightarrow> dpi \<Rightarrow> dpi \<Rightarrow> ptr \<Rightarrow> bool" where
  "does L a d d' sp \<longleftrightarrow> (case op_of a of
     Some (p, op) \<Rightarrow> (\<exists>h c c' st. p = Some h \<and> client_at d h = Some c \<and> client_call L op c = Ret (c', st)
       \<and> client_at d' = (client_at d)(h \<mapsto> c') \<and> (if op = Disconnect then sp = None else status_at d' sp st))
   | None \<Rightarrow> (\<forall>h c. client_at d' h = Some c \<longrightarrow> client_at d h = Some c
       \<or> (\<exists>fds. a = Dpi_new fds \<and> h = d_next d \<and> c = new_RouterClient fds)))"

lemma Ret_with_client:
  assumes "with_object as_client p outs d f = Ret r"
  obtains h c where "p = Some h" "client_at d h = Some c" "d_heap d h = Some (OClient c)" "f h c = Ret r"
  using assms by (rule with_client) (simp add: client_at_Some)

text \<open>The five functions that answer with a status end in the same way.\<close>

definition answered :: "object option \<Rightarrow> nat \<Rightarrow> client \<Rightarrow> Status \<Rightarrow> dpi \<Rightarrow> dpi \<times> ptr" where
  "answered x h c st d = (case allocate_opt x (put_object h (OClient c) d) of (ip, d1) \<Rightarrow>
     (case allocate (OStatus st) d1 of (sp, d2) \<Rightarrow> (d2, sp)))"

lemma bind_outcome_Ret: "bind_outcome m Ret = m"
  by (cases m) simp_all

lemma bind_with_object:
  "bind_outcome (with_object as p outs d f) g = with_object as p outs d (\<lambda>h c. bind_outcome (f h c) g)"
  by (simp add: with_object_def split: option.split)

lemma dpi_do_calls:
  "dpi_do L (Dpi_connect E p o1 o2 uri name) d = with_object as_client p [o1, o2] d (\<lambda>h c.
     bind_outcome (RouterClient_connect L E uri name c) (\<lambda>(c', x, st). Ret (answered (map_option OInfo x) h c' st d)))"
  "dpi_do L (Dpi_register_slave p o1 o2 name addr sz first num typ impl) d = with_object as_client p [o1, o2] d (\<lambda>h c.
     bind_outcome (RouterClient_registerIp L \<lparr>ip_name = name, ip_address = addr, ip_size = sz, ip_firstInterrupt = first,
         ip_numInterrupts = num, ip_type = IpType_of_int typ, ip_implementation = IpImplementation_of_int impl\<rparr> c)
       (\<lambda>(c', x, st). Ret (answered None h c' st d)))"
  "dpi_do L (Dpi_retrieve_peer_info p o1 o2) d = with_object as_client p [o1, o2] d (\<lambda>h c.
     bind_outcome (RouterClient_retrievePeerInfo L c) (\<lambda>(c', x, st). Ret (answered (map_option OInfo x) h c' st d)))"
  "dpi_do L (Dpi_retrieve_ip_config p o1 o2) d = with_object as_client p [o1, o2] d (\<lambda>h c.
     bind_outcome (RouterClient_retrieveIpConfig L c) (\<lambda>(c', x, st). Ret (answered (map_option OConfig x) h c' st d)))"
  "dpi_do L (Dpi_commit_ip p o1) d = with_object as_client p [o1] d (\<lambda>h c.
     bind_outcome (bind_outcome (RouterClient_commitIp L c) (\<lambda>(c', st). Ret (c', (), st)))
       (\<lambda>(c', x, st). Ret (answered None h c' st d)))"
  by (simp_all add: sw_axi_client_connect_def sw_axi_client_register_slave_def sw_axi_client_retrieve_peer_info_def
      sw_axi_client_retrieve_ip_config_def sw_axi_client_commit_ip_def bind_with_object bind_outcome_assoc answered_def
      Let_def case_prod_beta' new_IpConfig_def allocate_opt_def [of None])

lemma does_call:
  assumes d: "handles_below d" and a: "op_of a = Some (p, op)" "op \<noteq> Disconnect"
    and call: "with_object as_client p outs d (\<lambda>h c. bind_outcome (client_result c) (\<lambda>(c', x, st).
        Ret (answered (as_object x) h c' st d))) = Ret (d', sp)"
    and client: "client_call L op = (\<lambda>c. bind_outcome (client_result c) (\<lambda>(c', x, st). Ret (c', st)))"
    and no_client: "\<And>x ob. as_object x = Some ob \<Longrightarrow> as_client ob = None"
  shows "does L a d d' sp \<and> handles_below d' \<and> d_next d \<le> d_next d'"
proof -
  obtain h c where h: "p = Some h" "client_at d h = Some c" "d_heap d h = Some (OClient c)"
    "bind_outcome (client_result c) (\<lambda>(c', x, st). Ret (answered (as_object x) h c' st d)) = Ret (d', sp)"
    using call by (rule Ret_with_client)
  then obtain c' x st where r: "client_result c = Ret (c', x, st)" "answered (as_object x) h c' st d = (d', sp)"
    by (auto simp: bind_outcome_eq_Ret)
  obtain ip d1 where result: "allocate_opt (as_object x) (put_object h (OClient c') d) = (ip, d1)"
    "allocate (OStatus st) d1 = (sp, d')"
    using r(2) by (auto simp: answered_def split: prod.splits)
  have "client_call L op c = Ret (c', st)"
    using r(1) by (simp add: client)
  moreover have "\<forall>ob. as_object x = Some ob \<longrightarrow> as_client ob = None"
    using no_client by blast
  note call_result [OF d h(3) this result]
  ultimately show ?thesis
    using h(1,2) a by (auto simp: does_def)
qed

lemma dpi_do_does:
  assumes d: "handles_below d" and call: "dpi_do L a d = Ret (d', sp)"
  shows "does L a d d' sp \<and> handles_below d' \<and> d_next d \<le> d_next d'"
proof (cases a)
  case (Dpi_new fds)
  have "d_heap d (d_next d) = None"
    using d by (rule fresh_handle) simp
  with Dpi_new d call show ?thesis
    by (auto simp: does_def client_at_Some sw_axi_client_new_def allocate_def handles_below_def less_Suc_eq split: if_splits)
next
  case (Dpi_delete p)
  with call have "sw_axi_client_delete p d = Ret d'"
    by (auto simp: bind_outcome_eq_Ret)
  then show ?thesis
    using d by (cases rule: sw_axi_client_delete_cases)
      (auto simp: Dpi_delete does_def client_at_Some handles_below_def split: if_splits)
next
  case Dpi_connect
  show ?thesis
    by (rule does_call [OF d _ _ call [unfolded Dpi_connect dpi_do_calls]]) (auto simp: Dpi_connect fun_eq_iff)
next
  case Dpi_register_slave
  show ?thesis
    by (rule does_call [OF d _ _ call [unfolded Dpi_register_slave dpi_do_calls]]) (auto simp: Dpi_register_slave fun_eq_iff)
next
  case Dpi_commit_ip
  show ?thesis
    by (rule does_call [OF d _ _ call [unfolded Dpi_commit_ip dpi_do_calls]])
      (auto simp: Dpi_commit_ip fun_eq_iff bind_outcome_assoc case_prod_beta' bind_outcome_Ret)
next
  case Dpi_retrieve_peer_info
  show ?thesis
    by (rule does_call [OF d _ _ call [unfolded Dpi_retrieve_peer_info dpi_do_calls]])
      (auto simp: Dpi_retrieve_peer_info fun_eq_iff)
next
  case Dpi_retrieve_ip_config
  show ?thesis
    by (rule does_call [OF d _ _ call [unfolded Dpi_retrieve_ip_config dpi_do_calls]])
      (auto simp: Dpi_retrieve_ip_config fun_eq_iff)
next
  case (Dpi_disconnect p)
  with call obtain h c where h: "p = Some h" "client_at d h = Some c" "d_heap d h = Some (OClient c)"
    "d' = put_object h (OClient (RouterClient_disconnect c)) d" "sp = None"
    by (auto simp: bind_outcome_eq_Ret sw_axi_client_disconnect_def elim!: Ret_with_client)
  with d show ?thesis
    by (auto simp: Dpi_disconnect does_def put_object_def client_at_def fun_eq_iff handles_below_def)
next
  case (Dpi_status_delete p)
  with call have "delete_object as_status p d = Ret d'"
    by (auto simp: bind_outcome_eq_Ret sw_axi_status_delete_def)
  with deleted_object [OF this d] show ?thesis
    by (simp add: Dpi_status_delete does_def)
next
  case (Dpi_system_info_delete p)
  with call have "delete_object as_info p d = Ret d'"
    by (auto simp: bind_outcome_eq_Ret sw_axi_system_info_delete_def)
  with deleted_object [OF this d] show ?thesis
    by (simp add: Dpi_system_info_delete does_def)
next
  case (Dpi_ip_config_delete p)
  with call have "delete_object as_config p d = Ret d'"
    by (auto simp: bind_outcome_eq_Ret sw_axi_ip_config_delete_def)
  with deleted_object [OF this d] show ?thesis
    by (simp add: Dpi_ip_config_delete does_def)
qed

section \<open>Runs\<close>

lemma op_on_of: "op_on h a = Some op \<longleftrightarrow> op_of a = Some (Some h, op)"
  by (auto simp: op_on_def split: option.split)

lemma does_op_on:
  assumes "does L a d d' sp" "op_on h a = Some op"
  obtains c c' st where "client_at d h = Some c" "client_call L op c = Ret (c', st)" "client_at d' h = Some c'"
    "if op = Disconnect then sp = None else status_at d' sp st"
  using assms by (auto simp: does_def op_on_of)

lemma does_other:
  assumes "does L a d d' sp" "op_on h a = None" "client_at d' h = Some c"
  obtains "client_at d h = Some c" | fds where "a = Dpi_new fds" "h = d_next d" "c = new_RouterClient fds"
  using assms by (auto simp: does_def op_on_def split: option.splits if_splits)

abbreviation ops_on :: "nat \<Rightarrow> dpi_call list \<Rightarrow> client_op list" where
  "ops_on h as \<equiv> List.map_filter (op_on h) as"

text \<open>No call is made on a handle that has not been given out.\<close>

lemma does_above:
  assumes "does L a d d' sp" "handles_below d" "d_next d \<le> h"
  shows "op_on h a = None"
proof (rule ccontr)
  assume "op_on h a \<noteq> None"
  then obtain op where "op_on h a = Some op"
    by blast
  with assms(1) obtain c where "client_at d h = Some c"
    by (rule does_op_on)
  then show False
    using fresh_handle [OF assms(2,3)] by (simp add: client_at_def)
qed

lemma dpi_run_clients:
  assumes "dpi_run L as d = Ret d'" "handles_below d"
  shows "handles_below d'"
    and "client_at d' h = Some c \<Longrightarrow>
      (\<exists>c0. client_at d h = Some c0 \<and> client_run L (ops_on h as) c0 = Ret c)
      \<or> (d_next d \<le> h \<and> (\<exists>fds. Dpi_new fds \<in> set as \<and> client_run L (ops_on h as) (new_RouterClient fds) = Ret c))"
  using assms
proof (induction as arbitrary: d)
  case Nil
  { case 1 then show ?case by simp }
  { case 2 then show ?case by (simp add: List.map_filter_def) }
next
  case (Cons a as)
  have step: "\<exists>d1 sp. does L a d d1 sp \<and> handles_below d1 \<and> d_next d \<le> d_next d1 \<and> dpi_run L as d1 = Ret d'"
    if "dpi_run L (a # as) d = Ret d'" "handles_below d" for d
    using that dpi_do_does [OF that(2)] by (fastforce simp: bind_outcome_eq_Ret)
  { case 1
    then show ?case using step Cons.IH(1) by blast }
  { case 2
    obtain d1 sp where s: "does L a d d1 sp" "handles_below d1" "d_next d \<le> d_next d1" "dpi_run L as d1 = Ret d'"
      using step [OF 2(2,3)] by blast
    from Cons.IH(2) [OF 2(1) s(4,2)] show ?case
    proof (elim disjE conjE exE)
      fix c1
      assume c1: "client_at d1 h = Some c1" "client_run L (ops_on h as) c1 = Ret c"
      show ?case
      proof (cases "op_on h a")
        case None
        show ?thesis
          using s(1) None c1(1) by (rule does_other) (use c1(2) None in auto)
      next
        case (Some op)
        obtain c0 st where "client_at d h = Some c0" "client_call L op c0 = Ret (c1, st)"
          using s(1) Some by (rule does_op_on) (simp add: c1)
        then show ?thesis
          using c1 by (simp add: Some)
      qed
    next
      fix fds
      assume new: "d_next d1 \<le> h" "Dpi_new fds \<in> set as" "client_run L (ops_on h as) (new_RouterClient fds) = Ret c"
      have "op_on h a = None"
        by (rule does_above [OF s(1) 2(3)]) (use s(3) new(1) in simp)
      with new s(3) show ?thesis
        by (auto simp: \<open>op_on h a = None\<close>)
    qed }
qed

lemma handles_below_new: "handles_below dpi_new"
  by (simp add: handles_below_def dpi_new_def)

text \<open>
  C37: the clients of the simulator are driven by the calls made on their handles, and by nothing else. Whatever
  calls of the interface have been made, a client that is on the heap is exactly what the same calls of
  \<^verbatim>\<open>RouterClient\<close>, with the same arguments (an IP configuration is put together from its parts) and in the same order,
  make of a new client; calls on other handles, deletions and the making of other clients do not touch it. And
  whatever call is made next on a handle: if it returns, the handle is that of a client, the call of
  \<^verbatim>\<open>RouterClient\<close> returns, the client is what that leaves, and the status that the simulator is handed is the one
  that it returned.
\<close>

theorem dpi_clients_as_called:
  assumes "dpi_run L as dpi_new = Ret d"
  shows "(\<forall>h c. d_heap d h = Some (OClient c) \<longrightarrow>
      (\<exists>fds. Dpi_new fds \<in> set as \<and> client_run L (ops_on h as) (new_RouterClient fds) = Ret c))
    \<and> (\<forall>a h op d' sp. op_on h a = Some op \<and> dpi_do L a d = Ret (d', sp) \<longrightarrow>
      (\<exists>c c' st. d_heap d h = Some (OClient c) \<and> client_call L op c = Ret (c', st) \<and> d_heap d' h = Some (OClient c')
        \<and> (if op = Disconnect then sp = None else status_at d' sp st)))"
proof (intro conjI allI impI)
  fix h c
  assume "d_heap d h = Some (OClient c)"
  then have "client_at d h = Some c"
    by (simp add: client_at_Some)
  from dpi_run_clients(2) [OF assms handles_below_new this]
  show "\<exists>fds. Dpi_new fds \<in> set as \<and> client_run L (ops_on h as) (new_RouterClient fds) = Ret c"
    by (auto simp: client_at_def dpi_new_def)
next
  fix a h op d' sp
  assume a: "op_on h a = Some op \<and> dpi_do L a d = Ret (d', sp)"
  have "does L a d d' sp"
    using dpi_do_does [OF dpi_run_clients(1) [OF assms handles_below_new]] a by blast
  then obtain c c' st where "client_at d h = Some c" "client_call L op c = Ret (c', st)" "client_at d' h = Some c'"
      "if op = Disconnect then sp = None else status_at d' sp st"
    using a by (blast elim: does_op_on)
  then show "\<exists>c c' st. d_heap d h = Some (OClient c) \<and> client_call L op c = Ret (c', st) \<and> d_heap d' h = Some (OClient c')
      \<and> (if op = Disconnect then sp = None else status_at d' sp st)"
    unfolding client_at_Some by blast
qed

text \<open>Two clients, of which the first connects and is then told to commit.\<close>

theorem dpi_clients_as_called_witness:
  "\<exists>d c. dpi_run example_lib [Dpi_new [], Dpi_new [],
       Dpi_connect (example_env [example_info]) (Some 0) True True (''unix://'' @ ''/tmp/sw-axi'') ''app'',
       Dpi_disconnect (Some 1)] dpi_new = Ret d
    \<and> d_heap d 0 = Some (OClient c) \<and> c_state c = CONNECTED
    \<and> client_run example_lib [example_connect []] (new_RouterClient []) = Ret c"
proof -
  let ?as = "[Dpi_new [], Dpi_new [],
       Dpi_connect (example_env [example_info]) (Some 0) True True (''unix://'' @ ''/tmp/sw-axi'') ''app'', Dpi_disconnect (Some 1)]"
  obtain c where c: "client_run example_lib [example_connect []] (new_RouterClient []) = Ret c" "c_state c = CONNECTED"
    by (rule example_connected [of "[]"]) simp_all
  then obtain x st where "RouterClient_connect example_lib (example_env [example_info]) (''unix://'' @ ''/tmp/sw-axi'') ''app''
      (new_RouterClient []) = Ret (c, x, st)"
    by (auto simp: bind_outcome_eq_Ret)
  then obtain d where d: "dpi_run example_lib ?as dpi_new = Ret d" "d_heap d 0 = Some (OClient c)"
    by (cases x) (auto simp: dpi_do_calls answered_def with_object_def sw_axi_client_new_def sw_axi_client_disconnect_def
        allocate_def allocate_opt_def put_object_def dpi_new_def simp del: dpi_do.simps(3))
  have ops: "ops_on 0 ?as = [example_connect []]"
    by (simp add: List.map_filter_def op_on_def)
  have "\<exists>fds. Dpi_new fds \<in> set ?as \<and> client_run example_lib (ops_on 0 ?as) (new_RouterClient fds) = Ret c"
    using dpi_clients_as_called [OF d(1)] d(2) by blast
  then show ?thesis
    using d c(2) unfolding ops by auto
qed

end
