(* ===== verification/Sv_Bridge.thy ===== *)
theory Sv_Bridge
  imports Sim_Properties
begin

text \<open>
  The bridge of a simulation, the class \<^verbatim>\<open>Bridge\<close> of \<^verbatim>\<open>src/sim/bridge.sv\<close>, over the C interface of
  \<open>Sim_Bridge\<close>. It has no transactions: it connects, registers slaves, commits, fetches the two lists and
  disconnects. Its fetching loops are compared with those of the C++ bridge.
\<close>

section \<open>State and operations\<close>

record 's sv_bridge =
  sv_client :: ptr
  sv_name :: string
  sv_routerInfo :: SystemInfo
  sv_peers :: "SystemInfo list"
  sv_ipBlocks :: "IpConfig list"
  sv_slaveMap :: "(u64 \<times> 's) list"

definition sv_new :: "string \<Rightarrow> 's sv_bridge" where
  "sv_new name = \<lparr>sv_client = None, sv_name = name,
     sv_routerInfo = \<lparr>si_name = '''', si_systemName = '''', si_pid = 0, si_hostname = ''''\<rparr>,
     sv_peers = [], sv_ipBlocks = [], sv_slaveMap = []\<rparr>"

definition sv_connect ::
  "lib \<Rightarrow> env \<Rightarrow> int list \<Rightarrow> string \<Rightarrow> 's sv_bridge \<Rightarrow> dpi \<Rightarrow> (dpi \<times> 's sv_bridge \<times> Status) outcome" where
  "sv_connect L E fds uri s d =
     (let (client, d1) = sw_axi_client_new fds d; s1 = s\<lparr>sv_client := client\<rparr> in
      bind_outcome (sw_axi_client_connect L E client True True uri (sv_name s1) d1) (\<lambda>(d2, st, si).
      bind_outcome (if si \<noteq> None
          then bind_outcome (convertSystemInfo si d2) (\<lambda>(d3, info). Ret (d3, s1\<lparr>sv_routerInfo := info\<rparr>))
          else Ret (d2, s1)) (\<lambda>(d3, s2).
      bind_outcome (convertStatus st d3) (\<lambda>(d4, status). Ret (d4, s2, status)))))"

definition sv_registerSlave ::
  "lib \<Rightarrow> 's \<Rightarrow> IpConfig \<Rightarrow> 's sv_bridge \<Rightarrow> dpi \<Rightarrow> (dpi \<times> 's sv_bridge \<times> Status) outcome" where
  "sv_registerSlave L slave cfg s d =
     bind_outcome (sw_axi_client_register_slave L (sv_client s) True True (ip_name cfg) (ip_address cfg)
         (ip_size cfg) (ip_firstInterrupt cfg) (ip_numInterrupts cfg) (int_of_IpType (ip_type cfg))
         (int_of_IpImplementation (ip_implementation cfg)) d) (\<lambda>(d1, st, i).
     bind_outcome (convertStatus st d1) (\<lambda>(d2, status).
       Ret (d2, if isOk status then s\<lparr>sv_slaveMap := AList.update i slave (sv_slaveMap s)\<rparr> else s, status)))"

definition sv_commitIp :: "lib \<Rightarrow> 's sv_bridge \<Rightarrow> dpi \<Rightarrow> (dpi \<times> 's sv_bridge \<times> Status) outcome" where
  "sv_commitIp L s d =
     bind_outcome (sw_axi_client_commit_ip L (sv_client s) True d) (\<lambda>(d1, st).
     bind_outcome (convertStatus st d1) (\<lambda>(d2, status). Ret (d2, s, status)))"

text \<open>
  The two loops of \<^verbatim>\<open>start\<close> differ in the call and in the conversion of what it returns. The value of the
  loop is what has been pushed, and the status of its last round.
\<close>

definition sv_entry ::
  "(dpi \<Rightarrow> (dpi \<times> ptr \<times> ptr) outcome) \<Rightarrow> (ptr \<Rightarrow> dpi \<Rightarrow> (dpi \<times> 'a) outcome)
    \<Rightarrow> dpi \<Rightarrow> (dpi \<times> 'a option \<times> Status) outcome" where
  "sv_entry call convert d =
     bind_outcome (call d) (\<lambda>(d1, st, data).
     bind_outcome (convertStatus st d1) (\<lambda>(d2, status).
       if isError status \<or> data = None then Ret (d2, None, status)
       else bind_outcome (convert data d2) (\<lambda>(d3, x). Ret (d3, Some x, status))))"

partial_function (option) sv_loop ::
  "(dpi \<Rightarrow> (dpi \<times> 'a option \<times> Status) outcome) \<Rightarrow> dpi \<Rightarrow> 'a list
    \<Rightarrow> (dpi \<times> 'a list \<times> Status) outcome option" where
  "sv_loop entry d acc =
     (case entry d of
        Hang \<Rightarrow> Some Hang
      | Fault e \<Rightarrow> Some (Fault e)
      | Ret (d', x, status) \<Rightarrow>
          if isError status then Some (Ret (d', acc, status))
          else (case x of
              None \<Rightarrow> Some (Ret (d', acc, status))
            | Some y \<Rightarrow> sv_loop entry d' (acc @ [y])))"

definition sv_while ::
  "(dpi \<Rightarrow> (dpi \<times> 'a option \<times> Status) outcome) \<Rightarrow> dpi \<Rightarrow> 'a list \<Rightarrow> (dpi \<times> 'a list \<times> Status) outcome" where
  "sv_while entry d acc = (case sv_loop entry d acc of None \<Rightarrow> Hang | Some r \<Rightarrow> r)"

definition sv_start :: "lib \<Rightarrow> 's sv_bridge \<Rightarrow> dpi \<Rightarrow> (dpi \<times> 's sv_bridge \<times> Status) outcome" where
  "sv_start L s d =
     bind_outcome (sv_while (sv_entry (sw_axi_client_retrieve_peer_info L (sv_client s) True True)
         convertSystemInfo) d (sv_peers s)) (\<lambda>(d1, ps, st1).
       let s1 = s\<lparr>sv_peers := ps\<rparr> in
       if isError st1 then Ret (d1, s1, st1)
       else bind_outcome (sv_while (sv_entry (sw_axi_client_retrieve_ip_config L (sv_client s) True True)
           convertIpConfig) d1 (sv_ipBlocks s1)) (\<lambda>(d2, ips, st2).
         Ret (d2, s1\<lparr>sv_ipBlocks := ips\<rparr>, st2)))"

definition sv_disconnect :: "'s sv_bridge \<Rightarrow> dpi \<Rightarrow> (dpi \<times> 's sv_bridge) outcome" where
  "sv_disconnect s d =
     bind_outcome (sw_axi_client_disconnect (sv_client s) d) (\<lambda>d1.
     bind_outcome (sw_axi_client_delete (sv_client s) d1) (\<lambda>d2. Ret (d2, s\<lparr>sv_client := None\<rparr>)))"

section \<open>Conversions of live objects\<close>

text \<open>What the simulator sees of a status, of a system and of a configuration.\<close>

definition clean_status :: "Status \<Rightarrow> Status" where
  "clean_status st = mk_status (getCode st) (c_str (getMessage st))"

definition clean_info :: "SystemInfo \<Rightarrow> SystemInfo" where
  "clean_info si = \<lparr>si_name = c_str (si_name si), si_systemName = c_str (si_systemName si),
     si_pid = si_pid si, si_hostname = c_str (si_hostname si)\<rparr>"

definition clean_config :: "IpConfig \<Rightarrow> IpConfig" where
  "clean_config ip = ip\<lparr>ip_name := c_str (ip_name ip)\<rparr>"

lemma clean_status_simps [simp]:
  "isError (clean_status st) = isError st" "isOk (clean_status st) = isOk st" "clean_status status_ok = status_ok"
  by (simp_all add: clean_status_def isError_def isOk_def mk_status_def getCode_def getMessage_def
      status_ok_def c_str_def)

definition freed :: "nat \<Rightarrow> dpi \<Rightarrow> dpi" where
  "freed n d = d\<lparr>d_heap := (d_heap d)(n := None)\<rparr>"

lemma convertStatus_live:
  "d_heap d n = Some (OStatus st) \<Longrightarrow> convertStatus (Some n) d = Ret (freed n d, clean_status st)"
  by (simp add: convertStatus_def sw_axi_status_get_msg_def sw_axi_status_get_code_def
      sw_axi_status_delete_def delete_object_def with_object_def clean_status_def freed_def)

lemma convertSystemInfo_live:
  "d_heap d n = Some (OInfo si) \<Longrightarrow> convertSystemInfo (Some n) d = Ret (freed n d, clean_info si)"
  by (simp add: convertSystemInfo_def sw_axi_system_info_get_name_def sw_axi_system_info_get_system_name_def
      sw_axi_system_info_get_pid_def sw_axi_system_info_get_hostname_def sw_axi_system_info_delete_def
      delete_object_def with_object_def clean_info_def freed_def)

lemma convertIpConfig_live:
  "d_heap d n = Some (OConfig ip) \<Longrightarrow> named_IpType (ip_type ip) \<Longrightarrow> named_IpImplementation (ip_implementation ip) \<Longrightarrow>
   convertIpConfig (Some n) d = Ret (freed n d, clean_config ip)"
  by (simp add: convertIpConfig_def sw_axi_ip_config_get_name_def sw_axi_ip_config_get_address_and_size_def
      sw_axi_ip_config_get_interrupts_def sw_axi_ip_config_get_type_def sw_axi_ip_config_delete_def
      delete_object_def with_object_def clean_config_def freed_def)

section \<open>The contract of a call that fetches an entry\<close>

text \<open>
  \<open>moved h c d d'\<close>: the heap is as before, with the client at \<open>h\<close> now \<open>c\<close>; nothing was allocated that is
  still there. \<open>mirrored h d m n\<close>: the call \<open>n\<close> of the simulator, made on the heap \<open>d\<close>, does what the call
  \<open>m\<close> of the C++ client does and returns the same.
\<close>

definition moved :: "nat \<Rightarrow> client \<Rightarrow> dpi \<Rightarrow> dpi \<Rightarrow> bool" where
  "moved h c d d' \<longleftrightarrow> handles_below d' \<and> d_heap d' = (d_heap d)(h \<mapsto> OClient c) \<and> d_orphans d' = d_orphans d
    \<and> d_lost d' = d_lost d"

definition mirrored :: "nat \<Rightarrow> dpi \<Rightarrow> (client \<times> 'x) outcome \<Rightarrow> (dpi \<times> 'x) outcome \<Rightarrow> bool" where
  "mirrored h d m n = (case m of
     Hang \<Rightarrow> n = Hang
   | Fault e \<Rightarrow> n = Fault e
   | Ret (c, x) \<Rightarrow> \<exists>d'. n = Ret (d', x) \<and> moved h c d d')"

lemma not_isError_ok: "\<not> isError status_ok"
  by (simp add: isError_def status_ok_def)

lemma mirrored_simps [simp]:
  "mirrored h d Hang n \<longleftrightarrow> n = Hang"
  "mirrored h d (Fault e) n \<longleftrightarrow> n = Fault e"
  "mirrored h d (Ret (c, x)) n \<longleftrightarrow> (\<exists>d'. n = Ret (d', x) \<and> moved h c d d')"
  by (simp_all add: mirrored_def)

lemma moved_client: "moved h c d d' \<Longrightarrow> d_heap d' h = Some (OClient c)" "moved h c d d' \<Longrightarrow> handles_below d'"
  by (simp_all add: moved_def)

lemma moved_trans: "moved h c1 d d1 \<Longrightarrow> moved h c2 d1 d2 \<Longrightarrow> moved h c2 d d2"
  by (simp add: moved_def)

lemma mirrored_moved: "moved h c d d1 \<Longrightarrow> mirrored h d1 m n \<Longrightarrow> mirrored h d m n"
  by (auto simp: mirrored_def split: outcome.splits intro: moved_trans)

lemma mirrored_bind:
  assumes "mirrored h d m n"
    and "\<And>c x d'. m = Ret (c, x) \<Longrightarrow> moved h c d d' \<Longrightarrow> mirrored h d' (f (c, x)) (g (d', x))"
  shows "mirrored h d (bind_outcome m f) (bind_outcome n g)"
proof (cases m)
  case (Ret r)
  then obtain c x d' where "r = (c, x)" "n = Ret (d', x)" "moved h c d d'"
    using assms(1) by (cases r) auto
  with Ret show ?thesis
    using mirrored_moved [OF _ assms(2)] by simp
qed (use assms(1) in auto)

lemma moved_freed:
  assumes d: "handles_below d" and h: "d_heap d h = Some ob"
  shows "moved h c d (freed (d_next d) (snd (allocate ob1 (put_object h (OClient c) d))))" (is ?one)
    and "moved h c d (freed (d_next d) (freed (Suc (d_next d))
      (snd (allocate ob2 (snd (allocate ob1 (put_object h (OClient c) d)))))))" (is ?two)
proof -
  let ?n = "d_next d"
  have lt: "h < ?n"
    using d h by (simp add: handles_below_def)
  have free: "d_heap d ?n = None" "d_heap d (Suc ?n) = None"
    using fresh_handle [OF d] by simp_all
  have upd: "(d_heap d)(h \<mapsto> OClient c, ?n := None) = (d_heap d)(h \<mapsto> OClient c)"
    "((d_heap d)(h \<mapsto> OClient c))(Suc ?n := None) = (d_heap d)(h \<mapsto> OClient c)"
    using lt free by (simp_all add: fun_eq_iff)
  have below: "d_heap d k = Some ob' \<Longrightarrow> k < m" if "?n \<le> m" for k ob' m
    using d that by (fastforce simp: handles_below_def)
  show ?one
    by (simp add: moved_def handles_below_def freed_def allocate_def put_object_def upd)
      (use lt below in \<open>auto simp: less_SucI\<close>)
  have "d_heap (freed ?n (freed (Suc ?n) (snd (allocate ob2 (snd (allocate ob1 (put_object h (OClient c) d)))))))
      = (d_heap d)(h \<mapsto> OClient c)"
    by (simp add: freed_def allocate_def put_object_def fun_upd_twist [of "Suc ?n" ?n] upd)
  then show ?two
    unfolding moved_def handles_below_def
    by (simp add: freed_def allocate_def put_object_def) (use lt below in \<open>auto simp: less_SucI\<close>)
qed

locale dpi_listing =
  fixes retrieve :: "client \<Rightarrow> (client \<times> 'a option \<times> Status) outcome"
    and call :: "nat \<Rightarrow> dpi \<Rightarrow> (dpi \<times> ptr \<times> ptr) outcome"
    and wrap :: "'a \<Rightarrow> object"
    and convert :: "ptr \<Rightarrow> dpi \<Rightarrow> (dpi \<times> 'a) outcome"
    and clean :: "'a \<Rightarrow> 'a"
    and weight :: "client \<Rightarrow> nat"
  assumes call: "d_heap d h = Some (OClient c) \<Longrightarrow>
      call h d = bind_outcome (retrieve c) (\<lambda>(c', e, st).
        let (ip, d1) = allocate_opt (map_option wrap e) (put_object h (OClient c') d);
            (sp, d2) = allocate (OStatus st) d1
        in Ret (d2, sp, ip))"
    and convert: "retrieve c = Ret (c', Some x, st) \<Longrightarrow> d_heap d n = Some (wrap x) \<Longrightarrow>
      convert (Some n) d = Ret (freed n d, clean x)"
    and status: "retrieve c = Ret (c', e, st) \<Longrightarrow> st = status_ok \<or> isError st \<and> e = None"
    and progress: "retrieve c = Ret (c', Some x, st) \<Longrightarrow> weight c' < weight c"
begin

lemma entry_mirrored:
  assumes d: "handles_below d" and h: "d_heap d h = Some (OClient c)"
  shows "mirrored h d
    (bind_outcome (retrieve c) (\<lambda>(c', x, st). Ret (c', map_option clean x, clean_status st)))
    (sv_entry (call h) convert d)"
proof (cases "retrieve c")
  case (Ret r)
  obtain c' x st where r: "r = (c', x, st)"
    by (cases r)
  let ?d0 = "put_object h (OClient c') d"
  show ?thesis
  proof (cases x)
    case None
    let ?d2 = "snd (allocate (OStatus st) ?d0)"
    have "sv_entry (call h) convert d = Ret (freed (d_next d) ?d2, None, clean_status st)"
      using Ret None by (simp add: sv_entry_def call [OF h] r allocate_opt_def allocate_def put_object_def
          convertStatus_live)
    moreover have "moved h c' d (freed (d_next d) ?d2)"
      by (rule moved_freed [OF d h])
    ultimately show ?thesis
      using Ret None r by simp
  next
    case (Some y)
    let ?d2 = "snd (allocate (OStatus st) (snd (allocate (wrap y) ?d0)))"
    let ?d3 = "freed (Suc (d_next d)) ?d2"
    have ok: "st = status_ok"
      using status [of c c' x st] Ret Some r by auto
    have heap: "d_heap ?d3 (d_next d) = Some (wrap y)"
      by (simp add: freed_def allocate_def put_object_def)
    have conv: "convert (Some (d_next d)) ?d3 = Ret (freed (d_next d) ?d3, clean y)"
      using convert [OF _ heap] Ret Some r by simp
    have "call h d = Ret (?d2, Some (Suc (d_next d)), Some (d_next d))"
      using Ret Some by (simp add: call [OF h] r allocate_opt_def allocate_def put_object_def)
    moreover have "convertStatus (Some (Suc (d_next d))) ?d2 = Ret (?d3, clean_status st)"
      by (rule convertStatus_live) (simp add: allocate_def put_object_def)
    ultimately have "sv_entry (call h) convert d = Ret (freed (d_next d) ?d3, Some (clean y), clean_status st)"
      using conv by (simp add: sv_entry_def ok not_isError_ok)
    moreover have "moved h c' d (freed (d_next d) ?d3)"
      by (rule moved_freed [OF d h])
    ultimately show ?thesis
      using Ret Some r by simp
  qed
qed (simp_all add: sv_entry_def call [OF h])

lemma while_mirrored:
  assumes "handles_below d" "d_heap d h = Some (OClient c)"
  shows "mirrored h d
    (bind_outcome (retrieve_all retrieve c acc) (\<lambda>(c', xs, st). Ret (c', pre @ map clean xs, clean_status st)))
    (sv_while (sv_entry (call h) convert) d (pre @ map clean acc))"
  using assms
proof (induction "weight c" arbitrary: c d acc rule: less_induct)
  case less
  note entry = entry_mirrored [OF less.prems]
  show ?case
  proof (cases "retrieve c")
    case (Ret r)
    obtain c' x st where r: "r = (c', x, st)"
      by (cases r)
    obtain d' where d': "sv_entry (call h) convert d = Ret (d', map_option clean x, clean_status st)"
        and mv: "moved h c' d d'"
      using entry Ret r by auto
    show ?thesis
    proof (cases "isError st \<or> x = None")
      case True
      then show ?thesis
        using d' mv Ret r status [of c c' x st]
        by (auto simp: retrieve_all_def sv_while_def retrieve_loop.simps [of retrieve c]
            sv_loop.simps [of _ d] isError_def status_ok_def)
    next
      case False
      then obtain y where y: "x = Some y" and st: "\<not> isError st"
        by auto
      have "retrieve_all retrieve c acc = retrieve_all retrieve c' (acc @ [y])"
        using Ret r y st by (simp add: retrieve_all_def retrieve_loop.simps [of retrieve c])
      moreover have "sv_while (sv_entry (call h) convert) d (pre @ map clean acc)
          = sv_while (sv_entry (call h) convert) d' (pre @ map clean (acc @ [y]))"
        using d' y st by (simp add: sv_while_def sv_loop.simps [of _ d])
      moreover have "weight c' < weight c"
        using progress Ret r y by simp
      then have "mirrored h d'
          (bind_outcome (retrieve_all retrieve c' (acc @ [y]))
            (\<lambda>(c', xs, st). Ret (c', pre @ map clean xs, clean_status st)))
          (sv_while (sv_entry (call h) convert) d' (pre @ map clean (acc @ [y])))"
        by (rule less.hyps [OF _ moved_client(2) [OF mv] moved_client(1) [OF mv]])
      ultimately show ?thesis
        using mirrored_moved [OF mv] by simp
    qed
  qed (use entry in \<open>simp_all add: retrieve_all_def sv_while_def retrieve_loop.simps [of retrieve c]
        sv_loop.simps [of _ d]\<close>)
qed

end

section \<open>The two lists\<close>

lemma retrievePeerInfo_status:
  assumes "RouterClient_retrievePeerInfo L c = Ret (c', e, st)"
  shows "st = status_ok \<or> isError st \<and> e = None"
proof -
  have "post (\<lambda>(c', e, st). st = status_ok \<or> isError st \<and> e = None) (RouterClient_retrievePeerInfo L c)"
    unfolding RouterClient_retrievePeerInfo_def
    by (auto simp del: post_simps(4) simp: isError_def mk_status_def intro!: outcome_intros split: option.split)
  from postD [OF this assms] show ?thesis by simp
qed

lemma retrieveIpConfig_status:
  assumes "RouterClient_retrieveIpConfig L c = Ret (c', e, st)"
  shows "st = status_ok \<or> isError st \<and> e = None"
proof -
  have "post (\<lambda>(c', e, st). st = status_ok \<or> isError st \<and> e = None) (RouterClient_retrieveIpConfig L c)"
    unfolding RouterClient_retrieveIpConfig_def
    by (auto simp del: post_simps(4) simp: isError_def mk_status_def intro!: outcome_intros
        split: option.split sum.split)
  from postD [OF this assms] show ?thesis by simp
qed

interpretation sv_peer_list: dpi_listing "RouterClient_retrievePeerInfo L"
  "\<lambda>h. sw_axi_client_retrieve_peer_info L (Some h) True True" OInfo convertSystemInfo clean_info
  "\<lambda>c. length (kbytes (c_in c))" for L
proof unfold_locales
  fix d :: dpi and h c
  assume "d_heap d h = Some (OClient c)"
  then show "sw_axi_client_retrieve_peer_info L (Some h) True True d
      = bind_outcome (RouterClient_retrievePeerInfo L c) (\<lambda>(c', e, st).
          let (ip, d1) = allocate_opt (map_option OInfo e) (put_object h (OClient c') d);
              (sp, d2) = allocate (OStatus st) d1
          in Ret (d2, sp, ip))"
    by (simp add: sw_axi_client_retrieve_peer_info_def with_object_def)
qed (rule convertSystemInfo_live, assumption, erule retrievePeerInfo_status, erule retrievePeerInfo_progress)

interpretation sv_ip_list: dpi_listing "RouterClient_retrieveIpConfig L"
  "\<lambda>h. sw_axi_client_retrieve_ip_config L (Some h) True True" OConfig convertIpConfig clean_config
  "\<lambda>c. length (kbytes (c_in c))" for L
proof unfold_locales
  fix d :: dpi and h c
  assume "d_heap d h = Some (OClient c)"
  then show "sw_axi_client_retrieve_ip_config L (Some h) True True d
      = bind_outcome (RouterClient_retrieveIpConfig L c) (\<lambda>(c', e, st).
          let (ip, d1) = allocate_opt (map_option OConfig e) (put_object h (OClient c') d);
              (sp, d2) = allocate (OStatus st) d1
          in Ret (d2, sp, ip))"
    by (simp add: sw_axi_client_retrieve_ip_config_def with_object_def)
next
  fix c c' ip st n and d :: dpi
  assume "RouterClient_retrieveIpConfig L c = Ret (c', Some ip, st)" "d_heap d n = Some (OConfig ip)"
  then show "convertIpConfig (Some n) d = Ret (freed n d, clean_config ip)"
    using retrieved_named convertIpConfig_live by blast
qed (erule retrieveIpConfig_status, erule retrieveIpConfig_progress)

text \<open>The listing of the C++ client, with the results as the simulator sees them.\<close>

definition listings :: "lib \<Rightarrow> 's sv_bridge \<Rightarrow> client \<Rightarrow> (client \<times> 's sv_bridge \<times> Status) outcome" where
  "listings L s c =
     bind_outcome (retrieve_all (RouterClient_retrievePeerInfo L) c []) (\<lambda>(c1, ps, st1).
       let s1 = s\<lparr>sv_peers := sv_peers s @ map clean_info ps\<rparr> in
       if isError st1 then Ret (c1, s1, clean_status st1)
       else bind_outcome (retrieve_all (RouterClient_retrieveIpConfig L) c1 []) (\<lambda>(c2, ips, st2).
         Ret (c2, s1\<lparr>sv_ipBlocks := sv_ipBlocks s @ map clean_config ips\<rparr>, clean_status st2)))"

definition after_peers ::
  "'s sv_bridge \<Rightarrow> ('c \<Rightarrow> ('c \<times> IpConfig list \<times> Status) outcome) \<Rightarrow> 'c \<times> SystemInfo list \<times> Status
    \<Rightarrow> ('c \<times> 's sv_bridge \<times> Status) outcome" where
  "after_peers s ips = (\<lambda>(c1, ps, st1).
     if isError st1 then Ret (c1, s\<lparr>sv_peers := ps\<rparr>, st1)
     else bind_outcome (ips c1) (\<lambda>(c2, xs, st2). Ret (c2, s\<lparr>sv_peers := ps, sv_ipBlocks := xs\<rparr>, st2)))"

lemma after_peers_mirrored:
  assumes "mirrored h d (ips c) (ips' d)" "moved h c d d"
  shows "mirrored h d (after_peers s ips (c, x)) (after_peers s ips' (d, x))"
proof (cases x)
  case (Pair ps st)
  have "mirrored h d (bind_outcome (ips c) (\<lambda>(c2, xs, st2). Ret (c2, s\<lparr>sv_peers := ps, sv_ipBlocks := xs\<rparr>, st2)))
      (bind_outcome (ips' d) (\<lambda>(c2, xs, st2). Ret (c2, s\<lparr>sv_peers := ps, sv_ipBlocks := xs\<rparr>, st2)))"
  proof (rule mirrored_bind [OF assms(1)])
    fix c1 y d1
    assume "moved h c1 d d1"
    then have "moved h c1 d1 d1"
      by (simp add: moved_def)
    then show "mirrored h d1 ((\<lambda>(c2, xs, st2). Ret (c2, s\<lparr>sv_peers := ps, sv_ipBlocks := xs\<rparr>, st2)) (c1, y))
        ((\<lambda>(c2, xs, st2). Ret (c2, s\<lparr>sv_peers := ps, sv_ipBlocks := xs\<rparr>, st2)) (d1, y))"
      by (simp add: split_def)
  qed
  with Pair assms(2) show ?thesis
    by (simp add: after_peers_def)
qed

lemma sv_start_mirrored:
  assumes "handles_below d" "d_heap d h = Some (OClient c)" "sv_client s = Some h"
  shows "mirrored h d (listings L s c) (sv_start L s d)"
proof -
  let ?peers = "bind_outcome (retrieve_all (RouterClient_retrievePeerInfo L) c [])
      (\<lambda>(c', xs, st). Ret (c', sv_peers s @ map clean_info xs, clean_status st))"
  let ?ips = "\<lambda>c1. bind_outcome (retrieve_all (RouterClient_retrieveIpConfig L) c1 [])
      (\<lambda>(c', xs, st). Ret (c', sv_ipBlocks s @ map clean_config xs, clean_status st))"
  let ?sv_peers = "sv_while (sv_entry (sw_axi_client_retrieve_peer_info L (Some h) True True) convertSystemInfo)
      d (sv_peers s)"
  let ?sv_ips = "\<lambda>d1. sv_while (sv_entry (sw_axi_client_retrieve_ip_config L (Some h) True True) convertIpConfig)
      d1 (sv_ipBlocks s)"
  have "listings L s c = bind_outcome ?peers (after_peers s ?ips)"
    unfolding listings_def bind_outcome_assoc
    by (rule arg_cong [where f = "bind_outcome _"])
      (simp add: fun_eq_iff Let_def bind_outcome_assoc split_def after_peers_def)
  moreover have "sv_start L s d = bind_outcome ?sv_peers (after_peers s ?sv_ips)"
    unfolding sv_start_def assms(3)
    by (rule arg_cong [where f = "bind_outcome _"]) (simp add: fun_eq_iff Let_def split_def after_peers_def)
  moreover have "mirrored h d (bind_outcome ?peers (after_peers s ?ips))
      (bind_outcome ?sv_peers (after_peers s ?sv_ips))"
  proof (rule mirrored_bind)
    show "mirrored h d ?peers ?sv_peers"
      using sv_peer_list.while_mirrored [OF assms(1,2), where acc = "[]" and pre = "sv_peers s"] by simp
  next
    fix c1 x d1
    assume mv: "moved h c1 d d1"
    have "mirrored h d1 (?ips c1) (?sv_ips d1)"
      using sv_ip_list.while_mirrored [OF moved_client(2) [OF mv] moved_client(1) [OF mv], where acc = "[]" and pre = "sv_ipBlocks s"]
      by simp
    moreover have "moved h c1 d1 d1"
      using mv by (auto simp: moved_def)
    ultimately show "mirrored h d1 (after_peers s ?ips (c1, x)) (after_peers s ?sv_ips (d1, x))"
      by (rule after_peers_mirrored)
  qed
  ultimately show ?thesis
    by simp
qed

section \<open>What calls lose\<close>

text \<open>Only the call that fetches an IP configuration loses an object, and it does so once, with an error.\<close>

lemma c_lost_disconnect [simp]: "c_lost (RouterClient_disconnect c) = c_lost c"
  by (simp add: RouterClient_disconnect_def)

lemma c_lost_write: "client_write L c m = (ok, c') \<Longrightarrow> c_lost c' = c_lost c"
  by (rule client_write_cases [of L c m]) auto

lemma c_lost_read: "client_read L c = Ret (c', m) \<Longrightarrow> c_lost c' = c_lost c"
  by (auto simp: client_read_def bind_outcome_eq_Ret Let_def split: if_splits option.splits)

lemma keeps_lost:
  "RouterClient_connect L E uri name c = Ret (c', e, st) \<Longrightarrow> c_lost c' = c_lost c"
  "RouterClient_registerIp L config c = Ret (c', i, st) \<Longrightarrow> c_lost c' = c_lost c"
  "RouterClient_commitIp L c = Ret (c', st) \<Longrightarrow> c_lost c' = c_lost c"
  "RouterClient_retrievePeerInfo L c = Ret (c', e, st) \<Longrightarrow> c_lost c' = c_lost c"
proof -
  have "post (\<lambda>(c', e, st). c_lost c' = c_lost c) (RouterClient_connect L E uri name c)"
    unfolding RouterClient_connect_def Let_def
    apply (rule client_write_cases [of L "c\<lparr>c_sock := e_socket E, c_open := e_socket E # c_open c, c_uri := uri, c_in := e_in E, c_out := \<lparr>wr_script = e_wr E, wr_sent = []\<rparr>\<rparr>" "client_SystemInfo E name"])
    by (auto simp del: post_simps(4) dest!: c_lost_read intro!: outcome_intros split: option.split bool.split)
  then show "RouterClient_connect L E uri name c = Ret (c', e, st) \<Longrightarrow> c_lost c' = c_lost c"
    by (auto dest: postD)
  have "post (\<lambda>(c', e, st). c_lost c' = c_lost c) (RouterClient_registerIp L config c)"
    unfolding RouterClient_registerIp_def
    by (auto simp del: post_simps(4) simp: c_lost_write dest!: c_lost_read intro!: outcome_intros split: option.split bool.split prod.split)
  then show "RouterClient_registerIp L config c = Ret (c', i, st) \<Longrightarrow> c_lost c' = c_lost c"
    by (auto dest: postD)
  have "post (\<lambda>(c', st). c_lost c' = c_lost c) (RouterClient_commitIp L c)"
    unfolding RouterClient_commitIp_def
    by (auto simp del: post_simps(4) simp: c_lost_write dest!: c_lost_read intro!: outcome_intros split: option.split bool.split prod.split)
  then show "RouterClient_commitIp L c = Ret (c', st) \<Longrightarrow> c_lost c' = c_lost c"
    by (auto dest: postD)
  have "post (\<lambda>(c', e, st). c_lost c' = c_lost c) (RouterClient_retrievePeerInfo L c)"
    unfolding RouterClient_retrievePeerInfo_def
    by (auto simp del: post_simps(4) dest!: c_lost_read intro!: outcome_intros split: option.split)
  then show "RouterClient_retrievePeerInfo L c = Ret (c', e, st) \<Longrightarrow> c_lost c' = c_lost c"
    by (auto dest: postD)
qed

lemma retrieveIpConfig_lost:
  assumes "RouterClient_retrieveIpConfig L c = Ret (c', e, st)"
  shows "c_lost c' = c_lost c \<or> c_lost c' = Suc (c_lost c) \<and> isError st \<and> e = None"
proof -
  have "post (\<lambda>(c', e, st). c_lost c' = c_lost c \<or> c_lost c' = Suc (c_lost c) \<and> isError st \<and> e = None)
      (RouterClient_retrieveIpConfig L c)"
    unfolding RouterClient_retrieveIpConfig_def
    by (auto simp del: post_simps(4) simp: isError_def mk_status_def dest!: c_lost_read intro!: outcome_intros
        split: option.split sum.split)
  from postD [OF this assms] show ?thesis by simp
qed

lemma retrieve_loop_lost:
  "retrieve_loop r c acc = Some y \<Longrightarrow> y = Ret z \<Longrightarrow>
   \<forall>c c' e st. r c = Ret (c', e, st) \<longrightarrow> c_lost c' = c_lost c \<or> c_lost c' = Suc (c_lost c) \<and> isError st \<Longrightarrow>
   c_lost (fst z) = c_lost c \<or> c_lost (fst z) = Suc (c_lost c) \<and> isError (snd (snd z))"
proof (induction rule: retrieve_loop.raw_induct [rotated, consumes 1])
  case (1 loop r c acc y)
  show ?case
  proof (cases "r c")
    case (Ret t)
    obtain c1 e st where t: "t = (c1, e, st)"
      by (cases t)
    have step: "c_lost c1 = c_lost c \<or> c_lost c1 = Suc (c_lost c) \<and> isError st"
      using 1(4) Ret t by blast
    show ?thesis
    proof (cases "isError st \<or> e = None")
      case True
      then have "z = (c1, acc, if isError st then st else status_ok)"
        using 1(2,3) Ret t by (auto split: option.splits if_splits)
      then show ?thesis
        using step by auto
    next
      case False
      then obtain x where x: "e = Some x" "\<not> isError st"
        by auto
      then have "loop r c1 (acc @ [x]) = Some y"
        using 1(2) Ret t by simp
      from 1(1) [OF this 1(3,4)] show ?thesis
        using step x(2) by simp
    qed
  qed (use 1(2,3) in auto)
qed

lemma retrieve_all_lost:
  assumes "\<And>c c' e st. r c = Ret (c', e, st) \<Longrightarrow> c_lost c' = c_lost c \<or> c_lost c' = Suc (c_lost c) \<and> isError st"
    and "retrieve_all r c acc = Ret (c', xs, st)"
  shows "c_lost c' = c_lost c \<or> c_lost c' = Suc (c_lost c) \<and> isError st"
  using retrieve_loop_lost [of r c acc "Ret (c', xs, st)" "(c', xs, st)"] assms
  by (auto simp: retrieve_all_def split: option.splits)

lemma retrieve_ips_lost:
  "retrieve_all (RouterClient_retrieveIpConfig L) c acc = Ret (c', xs, st) \<Longrightarrow> c_lost c' \<le> Suc (c_lost c)"
  using retrieve_all_lost [of "RouterClient_retrieveIpConfig L"] retrieveIpConfig_lost
  by (metis le_SucI order_refl)

lemma retrieve_loop_keeps:
  "retrieve_loop r c acc = Some y \<Longrightarrow> y = Ret z \<Longrightarrow>
   \<forall>c c' e st. r c = Ret (c', e, st) \<longrightarrow> c_lost c' = c_lost c \<Longrightarrow> c_lost (fst z) = c_lost c"
proof (induction rule: retrieve_loop.raw_induct [rotated, consumes 1])
  case (1 loop r c acc y)
  show ?case
  proof (cases "r c")
    case (Ret t)
    obtain c1 e st where t: "t = (c1, e, st)"
      by (cases t)
    have step: "c_lost c1 = c_lost c"
      using 1(4) Ret t by blast
    show ?thesis
    proof (cases "isError st \<or> e = None")
      case True
      then show ?thesis
        using 1(2,3) Ret t step by (auto split: option.splits if_splits)
    next
      case False
      then obtain x where x: "e = Some x" "\<not> isError st"
        by auto
      then have "loop r c1 (acc @ [x]) = Some y"
        using 1(2) Ret t by simp
      from 1(1) [OF this 1(3,4)] show ?thesis
        using step by simp
    qed
  qed (use 1(2,3) in auto)
qed

lemma retrieve_peers_lost:
  "retrieve_all (RouterClient_retrievePeerInfo L) c acc = Ret (c', xs, st) \<Longrightarrow> c_lost c' = c_lost c"
  using retrieve_loop_keeps [of "RouterClient_retrievePeerInfo L" c acc "Ret (c', xs, st)" "(c', xs, st)"]
    keeps_lost(4) by (auto simp: retrieve_all_def split: option.splits)

lemma listings_lost:
  assumes "listings L s c = Ret (c', s', st)"
  shows "c_lost c' \<le> Suc (c_lost c)"
  using assms by (auto simp: listings_def bind_outcome_eq_Ret Let_def split: if_splits
      dest!: retrieve_ips_lost retrieve_peers_lost)

section \<open>The other calls\<close>

lemma after_status:
  fixes d d1 :: dpi and st :: Status and c' :: client
  assumes "handles_below d" "d_heap d h = Some (OClient c)"
  defines "d1 \<equiv> snd (allocate (OStatus st) (put_object h (OClient c') d))"
  shows "convertStatus (Some (d_next d)) d1 = Ret (freed (d_next d) d1, clean_status st)"
    and "moved h c' d (freed (d_next d) d1)"
proof -
  have "d_heap d1 (d_next d) = Some (OStatus st)"
    by (simp add: d1_def allocate_def put_object_def)
  then show "convertStatus (Some (d_next d)) d1 = Ret (freed (d_next d) d1, clean_status st)"
    by (rule convertStatus_live)
  show "moved h c' d (freed (d_next d) d1)"
    unfolding d1_def by (rule moved_freed [OF assms(1,2)])
qed

lemma sv_commit_mirrored:
  assumes "handles_below d" "d_heap d h = Some (OClient c)" "sv_client s = Some h"
  shows "mirrored h d
    (bind_outcome (RouterClient_commitIp L c) (\<lambda>(c', st). Ret (c', s, clean_status st))) (sv_commitIp L s d)"
proof (cases "RouterClient_commitIp L c")
  case (Ret r)
  obtain c' st where r: "r = (c', st)"
    by (cases r)
  let ?d1 = "snd (allocate (OStatus st) (put_object h (OClient c') d))"
  note after = after_status [OF assms(1,2), where st = st and c' = c']
  have "sw_axi_client_commit_ip L (Some h) True d = Ret (?d1, Some (d_next d))"
    using assms(2) Ret r by (simp add: sw_axi_client_commit_ip_def with_object_def allocate_def put_object_def)
  then have "sv_commitIp L s d = Ret (freed (d_next d) ?d1, s, clean_status st)"
    by (simp add: sv_commitIp_def assms(3) after(1))
  then show ?thesis
    using Ret r after(2) by simp
qed (use assms in \<open>simp_all add: sv_commitIp_def sw_axi_client_commit_ip_def with_object_def\<close>)

text \<open>The configuration after its enumerations have gone through an integer.\<close>

definition through_int :: "IpConfig \<Rightarrow> IpConfig" where
  "through_int cfg = cfg\<lparr>ip_type := IpType_of_int (int_of_IpType (ip_type cfg)),
     ip_implementation := IpImplementation_of_int (int_of_IpImplementation (ip_implementation cfg))\<rparr>"

lemma through_int_named:
  "named_IpType (ip_type cfg) \<Longrightarrow> named_IpImplementation (ip_implementation cfg) \<Longrightarrow> through_int cfg = cfg"
  by (simp add: through_int_def)

lemma sv_register_mirrored:
  assumes "handles_below d" "d_heap d h = Some (OClient c)" "sv_client s = Some h"
  shows "mirrored h d
    (bind_outcome (RouterClient_registerIp L (through_int cfg) c) (\<lambda>(c', i, st).
       Ret (c', if isOk st then s\<lparr>sv_slaveMap := AList.update i slave (sv_slaveMap s)\<rparr> else s, clean_status st)))
    (sv_registerSlave L slave cfg s d)"
proof -
  have cfg: "new_IpConfig\<lparr>ip_name := ip_name cfg, ip_address := ip_address cfg, ip_size := ip_size cfg,
      ip_firstInterrupt := ip_firstInterrupt cfg, ip_numInterrupts := ip_numInterrupts cfg,
      ip_type := IpType_of_int (int_of_IpType (ip_type cfg)),
      ip_implementation := IpImplementation_of_int (int_of_IpImplementation (ip_implementation cfg))\<rparr>
      = through_int cfg"
    by (simp add: through_int_def)
  have call: "sw_axi_client_register_slave L (Some h) True True (ip_name cfg) (ip_address cfg) (ip_size cfg)
      (ip_firstInterrupt cfg) (ip_numInterrupts cfg) (int_of_IpType (ip_type cfg))
      (int_of_IpImplementation (ip_implementation cfg)) d
    = bind_outcome (RouterClient_registerIp L (through_int cfg) c) (\<lambda>(c', n, st).
        let (sp, d1) = allocate (OStatus st) (put_object h (OClient c') d) in Ret (d1, sp, n))"
    using assms(2) by (simp add: sw_axi_client_register_slave_def with_object_def cfg Let_def)
  show ?thesis
  proof (cases "RouterClient_registerIp L (through_int cfg) c")
    case (Ret r)
    obtain c' i st where r: "r = (c', i, st)"
      by (cases r)
    let ?d1 = "snd (allocate (OStatus st) (put_object h (OClient c') d))"
    note after = after_status [OF assms(1,2), where st = st and c' = c']
    have "sv_registerSlave L slave cfg s d = Ret (freed (d_next d) ?d1,
        if isOk st then s\<lparr>sv_slaveMap := AList.update i slave (sv_slaveMap s)\<rparr> else s, clean_status st)"
      using after(1) by (simp add: sv_registerSlave_def assms(3) call Ret r allocate_def put_object_def)
    then show ?thesis
      using Ret r after(2) by simp
  qed (simp_all add: sv_registerSlave_def assms(3) call)
qed

lemma sv_disconnect_heap:
  assumes "d_heap d h = Some (OClient c)" "sv_client s = Some h"
  shows "\<exists>d'. sv_disconnect s d = Ret (d', s\<lparr>sv_client := None\<rparr>) \<and> d_heap d' = (d_heap d)(h := None)
    \<and> d_next d' = d_next d \<and> d_orphans d' = d_orphans d \<and> d_lost d' = d_lost d + c_lost c"
  using assms by (simp add: sv_disconnect_def sw_axi_client_disconnect_def with_object_def
      sw_axi_client_delete_def delete_object_def put_object_def RouterClient_disconnect_def Let_def)

lemma freed_twist: "m \<noteq> n \<Longrightarrow> freed m (freed n d) = freed n (freed m d)"
  by (simp add: freed_def fun_upd_twist)

lemma sv_connect_heap:
  assumes d: "handles_below d" and run: "sv_connect L E fds uri s d = Ret (d', s', st)"
  shows "\<exists>c. handles_below d' \<and> d_heap d' = (d_heap d)(d_next d \<mapsto> OClient c) \<and> d_orphans d' = d_orphans d
    \<and> sv_client s' = Some (d_next d) \<and> d_lost d' = d_lost d \<and> c_lost c = 0"
proof -
  let ?h = "d_next d" and ?c = "new_RouterClient fds"
  define d1 where "d1 = snd (sw_axi_client_new fds d)"
  have d1: "handles_below d1" "d_heap d1 ?h = Some (OClient ?c)" "d_next d1 = Suc ?h"
      "d_heap d1 = (d_heap d)(?h \<mapsto> OClient ?c)" "d_orphans d1 = d_orphans d" "d_lost d1 = d_lost d"
    using d by (auto simp: d1_def sw_axi_client_new_def allocate_def handles_below_def less_SucI)
  have new: "sw_axi_client_new fds d = (Some ?h, d1)"
    by (simp add: d1_def sw_axi_client_new_def allocate_def)
  show ?thesis
  proof (cases "RouterClient_connect L E uri (sv_name s) ?c")
    case (Ret r)
    obtain c' e st1 where r: "r = (c', e, st1)"
      by (cases r)
    have "\<exists>s2. sv_client s2 = Some ?h \<and> (d', s', st) = (d', s2, st) \<and> moved ?h c' d1 d'"
    proof (cases e)
      case None
      let ?d2 = "snd (allocate (OStatus st1) (put_object ?h (OClient c') d1))"
      note after = after_status [OF d1(1,2), where st = st1 and c' = c']
      have "sw_axi_client_connect L E (Some ?h) True True uri (sv_name s) d1
          = Ret (?d2, Some (d_next d1), None)"
        using d1(2) Ret r None by (simp add: sw_axi_client_connect_def with_object_def allocate_opt_def
            allocate_def put_object_def)
      then show ?thesis
        using run after by (auto simp: sv_connect_def new)
    next
      case (Some y)
      let ?d2 = "snd (allocate (OStatus st1) (snd (allocate (OInfo y) (put_object ?h (OClient c') d1))))"
      let ?n = "d_next d1"
      have "sw_axi_client_connect L E (Some ?h) True True uri (sv_name s) d1
          = Ret (?d2, Some (Suc ?n), Some ?n)"
        using d1(2) Ret r Some by (simp add: sw_axi_client_connect_def with_object_def allocate_opt_def
            allocate_def put_object_def)
      moreover have "convertSystemInfo (Some ?n) ?d2 = Ret (freed ?n ?d2, clean_info y)"
        by (rule convertSystemInfo_live) (simp add: allocate_def put_object_def)
      moreover have "convertStatus (Some (Suc ?n)) (freed ?n ?d2)
          = Ret (freed (Suc ?n) (freed ?n ?d2), clean_status st1)"
        by (rule convertStatus_live) (simp add: freed_def allocate_def put_object_def)
      moreover have "moved ?h c' d1 (freed (Suc ?n) (freed ?n ?d2))"
        unfolding freed_twist [of "Suc ?n" ?n, simplified] by (rule moved_freed [OF d1(1,2)])
      ultimately show ?thesis
        using run by (auto simp: sv_connect_def new)
    qed
    then show ?thesis
      using d1(4-6) keeps_lost(1) [of L E uri "sv_name s" ?c c' e st1] Ret r by (auto simp: moved_def new_RouterClient_def)
  qed (use run d1(2) in \<open>simp_all add: sv_connect_def new sw_axi_client_connect_def with_object_def\<close>)
qed

section \<open>A life of a bridge\<close>

datatype 's sv_call = Sv_Connect env "int list" string | Sv_Register 's IpConfig | Sv_Commit | Sv_Start
  | Sv_Disconnect

fun sv_do :: "lib \<Rightarrow> 's sv_call \<Rightarrow> dpi \<times> 's sv_bridge \<Rightarrow> (dpi \<times> 's sv_bridge) outcome" where
  "sv_do L (Sv_Connect E fds uri) (d, s) = bind_outcome (sv_connect L E fds uri s d) (\<lambda>(d', s', _). Ret (d', s'))"
| "sv_do L (Sv_Register slave cfg) (d, s) = bind_outcome (sv_registerSlave L slave cfg s d) (\<lambda>(d', s', _). Ret (d', s'))"
| "sv_do L Sv_Commit (d, s) = bind_outcome (sv_commitIp L s d) (\<lambda>(d', s', _). Ret (d', s'))"
| "sv_do L Sv_Start (d, s) = bind_outcome (sv_start L s d) (\<lambda>(d', s', _). Ret (d', s'))"
| "sv_do L Sv_Disconnect (d, s) = sv_disconnect s d"

fun sv_run :: "lib \<Rightarrow> 's sv_call list \<Rightarrow> dpi \<times> 's sv_bridge \<Rightarrow> (dpi \<times> 's sv_bridge) outcome" where
  "sv_run L [] x = Ret x"
| "sv_run L (a # as) x = bind_outcome (sv_do L a x) (sv_run L as)"

fun is_connect :: "'s sv_call \<Rightarrow> bool" where
  "is_connect (Sv_Connect E fds uri) = True"
| "is_connect _ = False"

fun is_disconnect :: "'s sv_call \<Rightarrow> bool" where
  "is_disconnect Sv_Disconnect = True"
| "is_disconnect _ = False"

text \<open>
  \<open>sv_inv n x\<close>: nothing but \<open>n\<close> clients is on the heap, one of them the bridge's, if it has one; and no
  client was deleted with its descriptor open.
\<close>

definition sv_inv :: "nat \<Rightarrow> dpi \<times> 's sv_bridge \<Rightarrow> bool" where
  "sv_inv n x \<longleftrightarrow> handles_below (fst x) \<and> (\<forall>h ob. d_heap (fst x) h = Some ob \<longrightarrow> as_client ob \<noteq> None)
    \<and> card (dom (d_heap (fst x))) = n \<and> d_orphans (fst x) = []
    \<and> (\<forall>h. sv_client (snd x) = Some h \<longrightarrow> d_heap (fst x) h \<noteq> None)"

lemma handles_below_finite: "handles_below d \<Longrightarrow> finite (dom (d_heap d))"
  by (rule finite_subset [of _ "{..<d_next d}"]) (auto simp: handles_below_def)

lemma sv_inv_client:
  assumes "sv_inv n (d, s)" "sv_client s = Some h"
  obtains c where "d_heap d h = Some (OClient c)"
proof -
  obtain ob where ob: "d_heap d h = Some ob"
    using assms by (auto simp: sv_inv_def)
  then have "as_client ob \<noteq> None"
    using assms(1) by (simp add: sv_inv_def)
  with ob that show ?thesis
    by (cases ob) simp_all
qed

lemma sv_inv_moved:
  assumes inv: "sv_inv n (d, s)" and h: "d_heap d h = Some (OClient c)" and mv: "moved h c' d d'"
    and s': "sv_client s' = sv_client s"
  shows "sv_inv n (d', s')"
proof -
  have "dom (d_heap d') = dom (d_heap d)"
    using mv h by (auto simp: moved_def)
  moreover have "as_client ob \<noteq> None" if "d_heap d' k = Some ob" for k ob
    using that inv mv by (cases "k = h") (auto simp: sv_inv_def moved_def)
  moreover have "d_heap d' k \<noteq> None" if "d_heap d k \<noteq> None" for k
    using that mv by (simp add: moved_def)
  ultimately show ?thesis
    using inv mv s' by (simp add: sv_inv_def moved_def)
qed

lemma sv_call_needs_client:
  "sv_client s = None \<Longrightarrow> sv_registerSlave L slave cfg s d = Fault Terminate"
  "sv_client s = None \<Longrightarrow> sv_commitIp L s d = Fault Terminate"
  "sv_client s = None \<Longrightarrow> sv_start L s d = Fault Terminate"
  "sv_client s = None \<Longrightarrow> sv_disconnect s d = Fault Terminate"
  by (simp_all add: sv_registerSlave_def sw_axi_client_register_slave_def sv_commitIp_def
      sw_axi_client_commit_ip_def sv_start_def sv_while_def sv_entry_def sv_loop.simps
      sw_axi_client_retrieve_peer_info_def sv_disconnect_def sw_axi_client_disconnect_def with_object_def)

lemma mirrored_sv_inv:
  assumes inv: "sv_inv n (d, s)" and h: "d_heap d h = Some (OClient c)"
    and m: "mirrored h d m (Ret (d', s', st))"
    and s': "\<And>c1 s1 st1. m = Ret (c1, s1, st1) \<Longrightarrow> sv_client s1 = sv_client s"
  shows "sv_inv n (d', s')"
proof -
  obtain c1 where "m = Ret (c1, s', st)" "moved h c1 d d'"
    using m by (cases m) (auto simp: mirrored_def)
  then show ?thesis
    using sv_inv_moved [OF inv h] s' by blast
qed

lemma listings_client: "listings L s c = Ret (c1, s1, st1) \<Longrightarrow> sv_client s1 = sv_client s"
  by (auto simp: listings_def bind_outcome_eq_Ret Let_def split: if_splits)

lemma sv_connect_inv:
  assumes inv: "sv_inv n (d, s)" and run: "sv_connect L E fds uri s d = Ret (d', s', st)"
  shows "sv_inv (Suc n) (d', s')"
proof -
  have d: "handles_below d" "card (dom (d_heap d)) = n" "d_orphans d = []"
      "d_heap d k = Some ob \<Longrightarrow> as_client ob \<noteq> None" for k ob
    using inv by (simp_all add: sv_inv_def)
  obtain c where c: "handles_below d'" "d_heap d' = (d_heap d)(d_next d \<mapsto> OClient c)"
      "d_orphans d' = d_orphans d" "sv_client s' = Some (d_next d)"
    using sv_connect_heap [OF d(1) run] by blast
  have "d_heap d (d_next d) = None"
    using fresh_handle [OF d(1)] by simp
  then have "card (dom (d_heap d')) = Suc n"
    using d(2) handles_below_finite [OF d(1)] by (simp add: c(2) card_insert_if domIff)
  moreover have "as_client ob \<noteq> None" if "d_heap d' k = Some ob" for k ob
    using that d(4) by (cases "k = d_next d") (simp_all add: c(2), auto)
  ultimately show ?thesis
    using c d(3) by (simp add: sv_inv_def)
qed

lemma sv_disconnect_inv:
  assumes inv: "sv_inv n (d, s)" and run: "sv_disconnect s d = Ret (d', s')"
  shows "\<exists>m. n = Suc m \<and> sv_inv m (d', s')"
proof -
  obtain h where h: "sv_client s = Some h"
    using run by (cases "sv_client s") (auto simp: sv_call_needs_client)
  obtain c where c: "d_heap d h = Some (OClient c)"
    using sv_inv_client [OF inv h] .
  have d: "handles_below d" "card (dom (d_heap d)) = n" "d_orphans d = []"
      "d_heap d k = Some ob \<Longrightarrow> as_client ob \<noteq> None" for k ob
    using inv by (simp_all add: sv_inv_def)
  have d': "s' = s\<lparr>sv_client := None\<rparr>" "d_heap d' = (d_heap d)(h := None)" "d_next d' = d_next d"
      "d_orphans d' = d_orphans d"
    using sv_disconnect_heap [OF c h] run by auto
  have "n = Suc (card (dom (d_heap d) - {h}))"
    using card.remove [OF handles_below_finite [OF d(1)], of h] c d(2) by (simp add: domIff)
  moreover have "handles_below d'"
    using d(1) by (simp add: handles_below_def d'(2,3))
  moreover have "as_client ob \<noteq> None" if "d_heap d' k = Some ob" for k ob
    using that d(4) by (cases "k = h") (simp_all add: d'(2))
  ultimately show ?thesis
    using d(3) by (simp add: sv_inv_def d')
qed

lemma sv_do_mirrored:
  assumes inv: "sv_inv n (d, s)" and run: "sv_do L a (d, s) = Ret (d', s')"
    and a: "\<not> is_connect a" "\<not> is_disconnect a"
  shows "sv_inv n (d', s')"
proof -
  obtain h where h: "sv_client s = Some h"
    using run a by (cases "sv_client s"; cases a) (simp_all add: sv_call_needs_client)
  obtain c where c: "d_heap d h = Some (OClient c)"
    using sv_inv_client [OF inv h] .
  have d: "handles_below d"
    using inv by (simp add: sv_inv_def)
  note rule = mirrored_sv_inv [OF inv c]
  show ?thesis
  proof (cases a)
    case (Sv_Register slave cfg)
    then obtain st where ret: "sv_registerSlave L slave cfg s d = Ret (d', s', st)"
      using run by (auto simp: bind_outcome_eq_Ret)
    show ?thesis
      by (rule rule [OF sv_register_mirrored [OF d c h, of L cfg slave, unfolded ret]])
        (auto simp: bind_outcome_eq_Ret split: if_splits)
  next
    case Sv_Commit
    then obtain st where ret: "sv_commitIp L s d = Ret (d', s', st)"
      using run by (auto simp: bind_outcome_eq_Ret)
    show ?thesis
      by (rule rule [OF sv_commit_mirrored [OF d c h, of L, unfolded ret]])
        (auto simp: bind_outcome_eq_Ret)
  next
    case Sv_Start
    then obtain st where "sv_start L s d = Ret (d', s', st)"
      using run by (auto simp: bind_outcome_eq_Ret)
    with sv_start_mirrored [OF d c h, of L] have "mirrored h d (listings L s c) (Ret (d', s', st))"
      by simp
    then show ?thesis
      by (rule rule) (rule listings_client)
  qed (use a in simp_all)
qed

lemma sv_run_inv:
  "sv_inv n (d, s) \<Longrightarrow> sv_run L as (d, s) = Ret (d', s') \<Longrightarrow>
   \<exists>m. n + length (filter is_connect as) = m + length (filter is_disconnect as) \<and> sv_inv m (d', s')"
proof (induction as arbitrary: n d s)
  case (Cons a as)
  obtain d1 s1 where a: "sv_do L a (d, s) = Ret (d1, s1)" and as: "sv_run L as (d1, s1) = Ret (d', s')"
    using Cons.prems(2) by (auto simp: bind_outcome_eq_Ret)
  have "\<exists>k. n + of_bool (is_connect a) = k + of_bool (is_disconnect a) \<and> sv_inv k (d1, s1)"
  proof (cases a)
    case (Sv_Connect E fds uri)
    then show ?thesis
      using sv_connect_inv [OF Cons.prems(1)] a by (auto simp: bind_outcome_eq_Ret)
  next
    case Sv_Disconnect
    then show ?thesis
      using sv_disconnect_inv [OF Cons.prems(1)] a by auto
  qed (use sv_do_mirrored [OF Cons.prems(1) a] in simp_all)
  then obtain k where k: "n + of_bool (is_connect a) = k + of_bool (is_disconnect a)" "sv_inv k (d1, s1)"
    by blast
  obtain m where "k + length (filter is_connect as) = m + length (filter is_disconnect as)" "sv_inv m (d', s')"
    using Cons.IH [OF k(2) as] by blast
  with k(1) show ?case
    by (intro exI [of _ m]) (auto split: if_splits)
qed auto

section \<open>What a run loses\<close>

text \<open>
  The objects that nothing will free: those counted by the clients on the heap and by those that were deleted.
\<close>

definition lost_at :: "object option \<Rightarrow> nat" where
  "lost_at x = (case x of Some (OClient c) \<Rightarrow> c_lost c | _ \<Rightarrow> 0)"

definition lost_objects :: "dpi \<Rightarrow> nat" where
  "lost_objects d = d_lost d + (\<Sum>h \<in> dom (d_heap d). lost_at (d_heap d h))"

fun is_start :: "'s sv_call \<Rightarrow> bool" where
  "is_start Sv_Start = True"
| "is_start _ = False"

lemma lost_at_simps [simp]: "lost_at (Some (OClient c)) = c_lost c" "lost_at None = 0"
  by (simp_all add: lost_at_def)

lemma sum_heap_update:
  fixes m :: "nat \<Rightarrow> object option"
  assumes "finite (dom m)"
  shows "(\<Sum>k \<in> dom (m(h := v)). lost_at ((m(h := v)) k)) + lost_at (m h) = (\<Sum>k \<in> dom m. lost_at (m k)) + lost_at v"
proof -
  let ?A = "insert h (dom m)"
  have all: "(\<Sum>k \<in> dom n. lost_at (n k)) = (\<Sum>k \<in> ?A. lost_at (n k))" if "dom n \<subseteq> ?A" for n
    using that assms by (intro sum.mono_neutral_left) (auto simp: domIff)
  have "dom (m(h := v)) \<subseteq> ?A" "dom m \<subseteq> ?A"
    by (auto split: if_splits)
  then have "(\<Sum>k \<in> dom (m(h := v)). lost_at ((m(h := v)) k)) = lost_at v + (\<Sum>k \<in> ?A - {h}. lost_at (m k))"
    "(\<Sum>k \<in> dom m. lost_at (m k)) = lost_at (m h) + (\<Sum>k \<in> ?A - {h}. lost_at (m k))"
    using assms sum.remove [of ?A h "\<lambda>k. lost_at ((m(h := v)) k)"] sum.remove [of ?A h "\<lambda>k. lost_at (m k)"]
      all [of "m(h := v)"] all [of m] \<open>dom (m(h := v)) \<subseteq> ?A\<close>
    by (simp_all del: dom_fun_upd)
  then show ?thesis
    by simp
qed

lemma lost_moved:
  assumes "handles_below d" "d_heap d h = Some (OClient c)" "moved h c' d d'"
  shows "lost_objects d' + c_lost c = lost_objects d + c_lost c'"
  using sum_heap_update [OF handles_below_finite [OF assms(1)], of h "Some (OClient c')"] assms(2,3)
  by (simp add: lost_objects_def moved_def del: dom_fun_upd)

lemma sv_do_lost:
  assumes inv: "sv_inv n (d, s)" and run: "sv_do L a (d, s) = Ret (d', s')"
  shows "lost_objects d' \<le> lost_objects d + of_bool (is_start a)"
proof (cases "is_connect a")
  case True
  then obtain E fds uri st where ret: "sv_connect L E fds uri s d = Ret (d', s', st)"
    using run by (cases a) (auto simp: bind_outcome_eq_Ret)
  have d: "handles_below d"
    using inv by (simp add: sv_inv_def)
  obtain c where "d_heap d' = (d_heap d)(d_next d \<mapsto> OClient c)" "d_lost d' = d_lost d" "c_lost c = 0"
    using sv_connect_heap [OF d ret] by blast
  then show ?thesis
    using sum_heap_update [OF handles_below_finite [OF d], of "d_next d" "Some (OClient c)"] fresh_handle [OF d]
    by (simp add: lost_objects_def del: dom_fun_upd)
next
  case connect: False
  then obtain h where h: "sv_client s = Some h"
    using run by (cases "sv_client s"; cases a) (simp_all add: sv_call_needs_client)
  obtain c where c: "d_heap d h = Some (OClient c)"
    using sv_inv_client [OF inv h] .
  have d: "handles_below d"
    using inv by (simp add: sv_inv_def)
  show ?thesis
  proof (cases a)
    case Sv_Disconnect
    then have "d_heap d' = (d_heap d)(h := None)" "d_lost d' = d_lost d + c_lost c"
      using sv_disconnect_heap [OF c h] run by auto
    then show ?thesis
      using sum_heap_update [OF handles_below_finite [OF d], of h None] c
      by (simp add: lost_objects_def del: dom_fun_upd)
  next
    case (Sv_Register slave cfg)
    then obtain st where ret: "sv_registerSlave L slave cfg s d = Ret (d', s', st)"
      using run by (auto simp: bind_outcome_eq_Ret)
    obtain c1 i st1 where "RouterClient_registerIp L (through_int cfg) c = Ret (c1, i, st1)" "moved h c1 d d'"
      using sv_register_mirrored [OF d c h, of L cfg slave, unfolded ret]
      by (cases "RouterClient_registerIp L (through_int cfg) c") (auto split: prod.splits)
    then show ?thesis
      using keeps_lost(2) lost_moved [OF d c] by fastforce
  next
    case Sv_Commit
    then obtain st where ret: "sv_commitIp L s d = Ret (d', s', st)"
      using run by (auto simp: bind_outcome_eq_Ret)
    obtain c1 st1 where "RouterClient_commitIp L c = Ret (c1, st1)" "moved h c1 d d'"
      using sv_commit_mirrored [OF d c h, of L, unfolded ret]
      by (cases "RouterClient_commitIp L c") (auto split: prod.splits)
    then show ?thesis
      using keeps_lost(3) lost_moved [OF d c] by fastforce
  next
    case Sv_Start
    then obtain st where ret: "sv_start L s d = Ret (d', s', st)"
      using run by (auto simp: bind_outcome_eq_Ret)
    obtain c1 s1 st1 where "listings L s c = Ret (c1, s1, st1)" "moved h c1 d d'"
      using sv_start_mirrored [OF d c h, of L, unfolded ret]
      by (cases "listings L s c") auto
    then show ?thesis
      using listings_lost [of L s c c1 s1 st1] lost_moved [OF d c, of c1 d'] Sv_Start by simp
  qed (use connect in simp_all)
qed

text \<open>Every call of \<^verbatim>\<open>start\<close> loses at most one object, the other calls none.\<close>

lemma sv_run_lost:
  "sv_inv n (d, s) \<Longrightarrow> sv_run L as (d, s) = Ret (d', s') \<Longrightarrow> lost_objects d' \<le> lost_objects d + length (filter is_start as)"
proof (induction as arbitrary: n d s)
  case (Cons a as)
  obtain d1 s1 where a: "sv_do L a (d, s) = Ret (d1, s1)" and as: "sv_run L as (d1, s1) = Ret (d', s')"
    using Cons.prems(2) by (auto simp: bind_outcome_eq_Ret)
  have "sv_run L [a] (d, s) = Ret (d1, s1)"
    using a by simp
  then obtain m where "sv_inv m (d1, s1)"
    using sv_run_inv [OF Cons.prems(1)] by blast
  from Cons.IH [OF this as] sv_do_lost [OF Cons.prems(1) a] show ?case
    by (cases "is_start a") simp_all
qed auto

section \<open>Properties\<close>







text \<open>
  C21: whatever calls the simulation makes on its bridge, no status, system info or IP configuration that the
  library has handed out is left on the heap, nor a descriptor without a client. The clients left are as many as
  the calls of \<^verbatim>\<open>connect\<close> outnumber those of \<^verbatim>\<open>disconnect\<close>: connecting again without disconnecting leaks a
  client. Beside them, the objects the library has made and lost without handing them out, one for an IP block
  of unknown type, are at most as many as the calls of \<^verbatim>\<open>start\<close>.
\<close>

theorem sv_leaks:
  assumes "sv_run L as (dpi_new, sv_new name) = Ret (d, s)"
  shows "(\<forall>h ob. d_heap d h = Some ob \<longrightarrow> (\<exists>c. ob = OClient c)) \<and> d_orphans d = []
    \<and> card (dom (d_heap d)) + length (filter is_disconnect as) = length (filter is_connect as)
    \<and> lost_objects d \<le> length (filter is_start as)"
proof -
  have inv: "sv_inv 0 (dpi_new, sv_new name)"
    by (simp add: sv_inv_def handles_below_def dpi_new_def sv_new_def dom_def)
  from sv_run_inv [OF inv assms] obtain m
    where "length (filter is_connect as) = m + length (filter is_disconnect as)" "sv_inv m (d, s)"
    by auto
  moreover have "\<exists>c. ob = OClient c" if "as_client ob \<noteq> None" for ob
    using that by (cases ob) auto
  moreover have "lost_objects d \<le> length (filter is_start as)"
    using sv_run_lost [OF inv assms] by (simp add: lost_objects_def dpi_new_def)
  ultimately show ?thesis
    by (simp add: sv_inv_def)
qed

theorem sv_leaks_witness:
  "\<exists>d s. sv_run example_lib [Sv_Connect (example_env []) [] ''tcp://'', Sv_Commit, Sv_Start,
       Sv_Connect (example_env []) [] ''tcp://'', Sv_Disconnect,
       Sv_Connect (example_env []) [] ''tcp://''] (dpi_new, sv_new ''tb'' :: nat sv_bridge) = Ret (d, s)
     \<and> card (dom (d_heap d)) = 2"
proof -
  note eval = sv_connect_def sw_axi_client_new_def sw_axi_client_connect_def RouterClient_connect_def
    allocate_def allocate_opt_def put_object_def with_object_def new_RouterClient_def convertStatus_def
    sw_axi_status_get_msg_def sw_axi_status_get_code_def sw_axi_status_delete_def delete_object_def
    sv_commitIp_def sw_axi_client_commit_ip_def RouterClient_commitIp_def
    sv_start_def sv_while_def sv_loop.simps sv_entry_def sw_axi_client_retrieve_peer_info_def
    RouterClient_retrievePeerInfo_def sv_disconnect_def sw_axi_client_disconnect_def
    sw_axi_client_delete_def RouterClient_disconnect_def isError_def getCode_def getMessage_def mk_status_def
    c_str_def dpi_new_def sv_new_def
  let ?as = "[Sv_Connect (example_env []) [] ''tcp://'', Sv_Commit, Sv_Start,
       Sv_Connect (example_env []) [] ''tcp://'', Sv_Disconnect, Sv_Connect (example_env []) [] ''tcp://'']
       :: nat sv_call list"
  obtain d s where "sv_run example_lib ?as (dpi_new, sv_new ''tb'') = Ret (d, s)"
    by (simp add: eval)
  from this sv_leaks [OF this] show ?thesis
    by auto
qed



end
