(* ===== verification/Go_Router.thy ===== *)
theory Go_Router
  imports Bridge
begin

text \<open>
  The router process, \<^verbatim>\<open>src/router/sw_axi/\<close>: registration of clients and IP (\<^verbatim>\<open>client.go\<close>, \<^verbatim>\<open>router.go\<close>), the
  lists it sends at the commit, and the routing of one message. Go panics (an index out of range, a nil
  table) and \<^verbatim>\<open>log.Fatalf\<close> are faults. Logging and the string forms of the structs are left out.
\<close>

section \<open>Data\<close>

record IpInfo =
  ii_name :: string
  ii_address :: u64
  ii_size :: u64
  ii_firstInterrupt :: u16
  ii_numInterrupts :: u16
  ii_type :: IpType
  ii_implementation :: IpImplementation
  ii_id :: u64
  ii_client :: u64

record go_client =
  gc_Id :: u64
  gc_SystemInfo :: SystemInfo

record router =
  r_clients :: "go_client list"
  r_ipCount :: u64
  r_masterCount :: u64
  r_ipMMap :: "(u64 \<times> IpInfo) list"
  r_ips :: "IpInfo list"

definition NewRouter :: router where
  "NewRouter = \<lparr>r_clients = [], r_ipCount = 0, r_masterCount = 0, r_ipMMap = [], r_ips = []\<rparr>"

text \<open>\<^verbatim>\<open>newClient\<close> takes the number of the client and does not store it: \<^verbatim>\<open>Id\<close> keeps its zero value.\<close>

definition newClient :: "u64 \<Rightarrow> go_client" where
  "newClient i = \<lparr>gc_Id = 0, gc_SystemInfo = \<lparr>si_name = ''unknown'', si_systemName = '''', si_pid = 0,
     si_hostname = ''''\<rparr>\<rparr>"

definition accept_clients :: "nat \<Rightarrow> router \<Rightarrow> router" where
  "accept_clients n r = r\<lparr>r_clients := r_clients r @ map (\<lambda>i. newClient (of_nat i)) [0..<n]\<rparr>"

text \<open>A slice or a string that is absent in a table reads as the empty one.\<close>

definition go_string :: "string option \<Rightarrow> string" where
  "go_string s = (case s of None \<Rightarrow> '''' | Some x \<Rightarrow> x)"

text \<open>What the process asks the system for: \<^verbatim>\<open>runtime.GOOS\<close>, \<^verbatim>\<open>os.Hostname\<close> (which may fail), \<^verbatim>\<open>os.Getpid\<close>.\<close>

record go_env =
  g_goos :: string
  g_hostname :: "string option"
  g_pid :: u64

definition toUpper :: "string \<Rightarrow> string" where
  "toUpper = map (\<lambda>c. if 97 \<le> (of_char c :: nat) \<and> of_char c \<le> (122 :: nat)
     then char_of (of_char c - (32 :: nat)) else c)"

definition go_systemName :: "go_env \<Rightarrow> string" where
  "go_systemName E = toUpper (take 1 (g_goos E)) @ drop 1 (g_goos E) @ '' Golang''"

section \<open>Registration\<close>

definition system_info_message :: "SystemInfo \<Rightarrow> wire_Message" where
  "system_info_message si = (new_Message Type_SYSTEM_INFO)\<lparr>wm_systemInfo := Some
     \<lparr>ws_name = Some (si_name si), ws_systemName = Some (si_systemName si), ws_pid = si_pid si,
      ws_hostname = Some (si_hostname si)\<rparr>\<rparr>"

text \<open>\<^verbatim>\<open>shakeHands\<close>: the client with its information, and the answer; none for a message of another type.\<close>

definition shakeHands :: "go_env \<Rightarrow> wire_Message \<Rightarrow> go_client \<Rightarrow> (go_client \<times> wire_Message) option outcome" where
  "shakeHands E msg c =
     (if wm_type msg \<noteq> Type_SYSTEM_INFO then Ret None
      else deref (wm_systemInfo msg) (\<lambda>si.
        let c' = c\<lparr>gc_SystemInfo := \<lparr>si_name = go_string (ws_name si),
              si_systemName = go_string (ws_systemName si), si_pid = ws_pid si,
              si_hostname = go_string (ws_hostname si)\<rparr>\<rparr>
        in (case g_hostname E of
              None \<Rightarrow> Fault Terminate
            | Some hn \<Rightarrow> Ret (Some (c', system_info_message \<lparr>si_name = ''router'',
                si_systemName = go_systemName E, si_pid = g_pid E, si_hostname = hn\<rparr>)))))"

datatype ip_request = Commit_request | Ip_request IpInfo | Bad_request

text \<open>\<^verbatim>\<open>receiveIpInfo\<close>: a type or an implementation without a name leaves the zero value.\<close>

definition receiveIpInfo :: "go_client \<Rightarrow> wire_Message \<Rightarrow> ip_request outcome" where
  "receiveIpInfo c msg =
     (if wm_type msg = Type_COMMIT then Ret Commit_request
      else if wm_type msg \<noteq> Type_IP_INFO then Ret Bad_request
      else deref (wm_ipInfo msg) (\<lambda>i. Ret (Ip_request
        \<lparr>ii_name = go_string (wi_name i), ii_address = wi_address i, ii_size = wi_size i,
         ii_firstInterrupt = wi_firstInterrupt i, ii_numInterrupts = wi_numInterrupts i,
         ii_type = (case IpType_of_wire (wi_type i) of None \<Rightarrow> SLAVE | Some t \<Rightarrow> t),
         ii_implementation = (if wi_implementation i = 1 then HARDWARE else SOFTWARE),
         ii_id = 0, ii_client = gc_Id c\<rparr>)))"

definition is_master :: "IpType \<Rightarrow> bool" where
  "is_master t \<longleftrightarrow> t = MASTER \<or> t = MASTER_LITE \<or> t = MASTER_STREAM"

text \<open>The two conditions of the loop, as they are written.\<close>

definition conflicts :: "IpInfo \<Rightarrow> IpInfo \<Rightarrow> bool" where
  "conflicts ip rIp \<longleftrightarrow>
     ii_address rIp \<le> ii_address ip \<and> ii_address ip < ii_address rIp + ii_size rIp
   \<or> ii_address ip < ii_size rIp \<and> ii_address rIp < ii_address ip + ii_size ip"

definition registerIp :: "IpInfo \<Rightarrow> router \<Rightarrow> (router \<times> (string + u64)) outcome" where
  "registerIp ip r =
     (let r1 = (if is_master (ii_type ip) then r\<lparr>r_masterCount := r_masterCount r + 1\<rparr> else r) in
      case find (conflicts ip) (r_ips r1) of
        Some rIp \<Rightarrow> Ret (r1, Inl (''Address space overlaps with already registered '' @ ii_name rIp
          @ '' IP block''))
      | None \<Rightarrow>
          (let i = r_ipCount r1; ip' = ip\<lparr>ii_id := i\<rparr>;
               r2 = r1\<lparr>r_ipCount := i + 1, r_ipMMap := AList.update (ii_address ip) ip' (r_ipMMap r1),
                       r_ips := r_ips r1 @ [ip']\<rparr>
           in if unat (ii_client ip) < length (r_clients r2) then Ret (r2, Inr i)
              else Fault OutOfBounds))"

definition createErrorMessage :: "string \<Rightarrow> wire_Message" where
  "createErrorMessage err = (new_Message Type_ERROR)\<lparr>wm_errorMessage := Some err\<rparr>"

definition ackIpInfo :: "u64 \<Rightarrow> wire_Message" where
  "ackIpInfo i = (new_Message Type_IP_ACK)\<lparr>wm_ipId := i\<rparr>"

text \<open>One round of the registration loop of \<^verbatim>\<open>Run\<close>: the reply, or none when the client has committed.\<close>

definition serve_ip :: "go_client \<Rightarrow> wire_Message \<Rightarrow> router \<Rightarrow> (router \<times> wire_Message option) option outcome" where
  "serve_ip c msg r =
     bind_outcome (receiveIpInfo c msg) (\<lambda>req. case req of
       Bad_request \<Rightarrow> Ret None
     | Commit_request \<Rightarrow> Ret (Some (r, None))
     | Ip_request ip \<Rightarrow> bind_outcome (registerIp ip r) (\<lambda>(r', res). case res of
         Inl err \<Rightarrow> Ret (Some (r', Some (createErrorMessage err)))
       | Inr i \<Rightarrow> Ret (Some (r', Some (ackIpInfo i)))))"

section \<open>The commit\<close>

definition ip_message :: "IpInfo \<Rightarrow> wire_Message" where
  "ip_message ip = (new_Message Type_IP_INFO)\<lparr>wm_ipInfo := Some
     \<lparr>wi_name = Some (ii_name ip), wi_address = ii_address ip, wi_size = ii_size ip,
      wi_firstInterrupt = ii_firstInterrupt ip, wi_numInterrupts = ii_numInterrupts ip,
      wi_type = (case wire_of_IpType (ii_type ip) of None \<Rightarrow> 0 | Some t \<Rightarrow> t),
      wi_implementation = (if ii_implementation ip = HARDWARE then 1 else 0)\<rparr>\<rparr>"

text \<open>What \<^verbatim>\<open>commit\<close> sends to one client: three acknowledgements around the two lists.\<close>

definition commit :: "SystemInfo list \<Rightarrow> IpInfo list \<Rightarrow> wire_Message list" where
  "commit clients ips = new_Message Type_ACK # map system_info_message clients
     @ new_Message Type_ACK # map ip_message ips @ [new_Message Type_ACK]"

section \<open>Routing\<close>

text \<open>
  The loop over the map \<^verbatim>\<open>ipMMap\<close> visits the entries in an order the language does not fix, and that may be
  another one each time: \<open>order\<close> is the one of this loop.
\<close>

type_synonym visit = "(u64 \<times> IpInfo) list \<Rightarrow> IpInfo list"

definition covers :: "u64 \<Rightarrow> IpInfo \<Rightarrow> bool" where
  "covers address ip \<longleftrightarrow> ii_address ip \<le> address \<and> address < ii_address ip + ii_size ip"

definition findTarget ::
  "visit \<Rightarrow> u64 \<Rightarrow> u64 \<Rightarrow> router \<Rightarrow> string + u64 \<times> u64" where
  "findTarget order address sz r =
     (case find (covers address) (order (r_ipMMap r)) of
        None \<Rightarrow> Inl (''No IP block found at address: 0x'' @ zero_pad 16 (numeral_string 16 (unat address)))
      | Some ip \<Rightarrow>
          if ii_address ip + ii_size ip < address + sz
          then Inl (''Transaction spans blocks bondary: '' @ ii_name ip)
          else Inr (ii_id ip, ii_client ip))"

definition createErrorTxn :: "u64 \<Rightarrow> u64 \<Rightarrow> u8 \<Rightarrow> string \<Rightarrow> wire_Message" where
  "createErrorTxn initiator i typ err = (new_Message Type_TRANSACTION)\<lparr>wm_txn := Some
     \<lparr>wt_type = (if typ = 0 then 2 else if typ = 1 then 3 else 0), wt_initiator = initiator,
      wt_target = 0, wt_id = i, wt_address = 0, wt_size = 0, wt_data = None, wt_ok = False,
      wt_message = Some err\<rparr>\<rparr>"

text \<open>Indexing a slice, which panics out of range.\<close>

definition go_index :: "'a list \<Rightarrow> u64 \<Rightarrow> ('a \<Rightarrow> 'b outcome) \<Rightarrow> 'b outcome" where
  "go_index xs i f = (if unat i < length xs then f (xs ! unat i) else Fault OutOfBounds)"

text \<open>\<^verbatim>\<open>r.clients[r.ips[i].ClientId]\<close>: the number of the client that owns IP \<open>i\<close>.\<close>

definition client_of_ip :: "router \<Rightarrow> u64 \<Rightarrow> (u64 \<Rightarrow> 'b outcome) \<Rightarrow> 'b outcome" where
  "client_of_ip r i f = go_index (r_ips r) i (\<lambda>ip. go_index (r_clients r) (ii_client ip) (\<lambda>_. f (ii_client ip)))"

text \<open>
  One round of \<^verbatim>\<open>route\<close>: the messages put into the channels of clients, and whether the loop goes on.
  \<open>mutate\<close> is the generated \<^verbatim>\<open>MutateTarget\<close>. A TERMINATE that is not the last falls through to the check
  of the message type.
\<close>

definition route ::
  "visit \<Rightarrow> (u64 \<Rightarrow> wire_Transaction \<Rightarrow> wire_Transaction)
    \<Rightarrow> wire_Message \<Rightarrow> router \<Rightarrow> (router \<times> (u64 \<times> wire_Message) list \<times> bool) outcome" where
  "route order mutate msg r =
     (if wm_type msg = Type_TERMINATE then
        client_of_ip r (wm_ipId msg) (\<lambda>_.
          let r1 = r\<lparr>r_masterCount := r_masterCount r - 1\<rparr> in
          if r_masterCount r1 = 0 then
            Ret (r1, map (\<lambda>i. (of_nat i, new_Message Type_DONE)) [0..<length (r_clients r1)], False)
          else Fault Terminate)
      else if wm_type msg \<noteq> Type_TRANSACTION then Fault Terminate
      else deref (wm_txn msg) (\<lambda>txn.
        if wt_type txn = 2 \<or> wt_type txn = 3 then
          client_of_ip r (wt_initiator txn) (\<lambda>c. Ret (r, [(c, msg)], True))
        else if wt_type txn = 0 \<or> wt_type txn = 1 then
          (case findTarget order (wt_address txn) (wt_size txn) r of
             Inl err \<Rightarrow> client_of_ip r (wt_initiator txn) (\<lambda>c. Ret (r,
               [(c, createErrorTxn (wt_initiator txn) (wt_id txn) (wt_type txn) err)], True))
           | Inr (target, client) \<Rightarrow> go_index (r_clients r) client (\<lambda>_.
               Ret (r, [(client, msg\<lparr>wm_txn := Some (mutate target txn)\<rparr>)], True)))
        else Ret (r, [], True)))"

end
