(* ===== verification/Router_Properties.thy ===== *)
theory Router_Properties
  imports Go_Router Bridge_Properties
begin

text \<open>
  The properties of the router (\<^verbatim>\<open>src/router/sw_axi/\<close>), by itself and together with the C++ client and
  bridge at the other end of the connection.
\<close>

lemma Type_neq_router [simp]:
  "Type_IP_INFO \<noteq> Type_COMMIT" "Type_TRANSACTION \<noteq> Type_TERMINATE"
  by (simp_all add: Type_defs)

section \<open>The address map\<close>

lemma unat_u64: "unat (x :: u64) < 2 ^ 64"
  using unsigned_less [of x] by simp

lemma covers_within:
  assumes "covers x ip"
  shows "unat (ii_address ip) + unat (ii_size ip) < 2 ^ 64"
    and "unat (ii_address ip + ii_size ip) = unat (ii_address ip) + unat (ii_size ip)"
    and "unat (ii_address ip) \<le> unat x" "unat x < unat (ii_address ip) + unat (ii_size ip)"
proof -
  have h: "ii_address ip \<le> x" "x < ii_address ip + ii_size ip"
    using assms by (simp_all add: covers_def)
  then have "ii_address ip \<le> ii_address ip + ii_size ip"
    by simp
  then show eq: "unat (ii_address ip + ii_size ip) = unat (ii_address ip) + unat (ii_size ip)"
    by (simp add: unat_plus_simple)
  then show "unat (ii_address ip) + unat (ii_size ip) < 2 ^ 64"
    using unat_u64 [of "ii_address ip + ii_size ip"] by simp
  show "unat (ii_address ip) \<le> unat x" "unat x < unat (ii_address ip) + unat (ii_size ip)"
    using h by (simp_all add: word_le_nat_alt word_less_nat_alt eq)
qed

lemma fits_or_wraps:
  fixes address sz :: u64 and e :: nat
  assumes "e < 2 ^ 64"
  shows "unat (address + sz) \<le> e \<longleftrightarrow> unat address + unat sz \<le> e \<or> 2 ^ 64 \<le> unat address + unat sz \<and>
    unat address + unat sz - 2 ^ 64 \<le> e"
proof (cases "unat address + unat sz < 2 ^ 64")
  case True
  then have "unat (address + sz) = unat address + unat sz"
    by (simp add: unat_add_lem [symmetric])
  with True show ?thesis by simp
next
  case False
  moreover have "unat address < 2 ^ 64" "unat sz < 2 ^ 64"
    by (rule unat_u64)+
  ultimately have "unat (address + sz) = unat address + unat sz - 2 ^ 64"
    by (simp add: unat_word_ariths mod_if)
  with False assms show ?thesis by simp
qed

text \<open>
  C32: the target of a request, for blocks and requests of all sizes and whatever the order of the map. If one is
  found it is the IP block of an entry of the map that covers the address of the request and does not wrap; the whole
  request lies inside the block exactly if it does not wrap around the end of the address space, so a
  request that wraps may be routed to a block it does not fit in. If none is found, no block covers the address, or one
  that does ends before the request.
\<close>

theorem findTarget_sound:
  assumes "set (order (r_ipMMap r)) = snd ` set (r_ipMMap r)"
  shows "case findTarget order address sz r of
      Inr (i, client) \<Rightarrow> (\<exists>ip \<in> snd ` set (r_ipMMap r). ii_id ip = i \<and> ii_client ip = client
        \<and> unat (ii_address ip) \<le> unat address \<and> unat address < unat (ii_address ip) + unat (ii_size ip)
        \<and> unat (ii_address ip) + unat (ii_size ip) < 2 ^ 64
        \<and> (unat address + unat sz \<le> unat (ii_address ip) + unat (ii_size ip)
            \<longleftrightarrow> unat address + unat sz < 2 ^ 64))
    | Inl _ \<Rightarrow> (\<forall>ip \<in> snd ` set (r_ipMMap r). \<not> covers address ip)
        \<or> (\<exists>ip \<in> snd ` set (r_ipMMap r). covers address ip
            \<and> unat (ii_address ip) + unat (ii_size ip) < unat address + unat sz)"
proof (cases "find (covers address) (order (r_ipMMap r))")
  case None
  then have "\<forall>ip \<in> snd ` set (r_ipMMap r). \<not> covers address ip"
    using assms by (simp add: find_None_iff)
  with None show ?thesis
    by (simp add: findTarget_def)
next
  case (Some ip)
  then have mem: "ip \<in> snd ` set (r_ipMMap r)" and c: "covers address ip"
    using assms by (auto simp: find_Some_iff dest: nth_mem)
  note within = covers_within [OF c]
  have fits: "\<not> ii_address ip + ii_size ip < address + sz \<longleftrightarrow>
      unat address + unat sz \<le> unat (ii_address ip) + unat (ii_size ip) \<or> 2 ^ 64 \<le> unat address + unat sz
        \<and> unat address + unat sz - 2 ^ 64 \<le> unat (ii_address ip) + unat (ii_size ip)"
    using fits_or_wraps [OF within(1), of address sz]
    by (simp add: not_less word_le_nat_alt within(2))
  show ?thesis
  proof (cases "ii_address ip + ii_size ip < address + sz")
    case True
    then have "unat (ii_address ip) + unat (ii_size ip) < unat address + unat sz"
      using fits by simp
    with True Some mem c show ?thesis
      by (auto simp: findTarget_def)
  next
    case False
    then have "unat address + unat sz \<le> unat (ii_address ip) + unat (ii_size ip) \<longleftrightarrow> unat address + unat sz < 2 ^ 64"
      using fits within(1) by auto
    with False Some within show ?thesis
      by (simp add: findTarget_def del: bex_simps image_iff) (rule bexI [OF _ mem], simp)
  qed
qed

definition example_block :: "u64 \<Rightarrow> u64 \<Rightarrow> IpInfo" where
  "example_block address sz = \<lparr>ii_name = ''ram'', ii_address = address, ii_size = sz,
     ii_firstInterrupt = 0, ii_numInterrupts = 0, ii_type = SLAVE, ii_implementation = SOFTWARE,
     ii_id = 0, ii_client = 0\<rparr>"

definition example_map :: router where
  "example_map = NewRouter\<lparr>r_clients := [newClient 0], r_ipCount := 1,
     r_ipMMap := [(0x1000, example_block 0x1000 0x100)], r_ips := [example_block 0x1000 0x100]\<rparr>"

theorem findTarget_sound_witness:
  "findTarget (map snd) 0x1010 0x10 example_map = Inr (0, 0)
   \<and> (\<exists>ip \<in> snd ` set (r_ipMMap example_map). ii_id ip = 0 \<and> unat (ii_address ip) \<le> unat (0x1010 :: u64)
    \<and> unat (0x1010 :: u64) + unat (0x10 :: u64) \<le> unat (ii_address ip) + unat (ii_size ip))"
proof -
  have found: "findTarget (map snd) 0x1010 0x10 example_map = Inr (0, 0)"
    by (simp add: findTarget_def example_map_def example_block_def covers_def)
  have "set (map snd (r_ipMMap example_map)) = snd ` set (r_ipMMap example_map)"
    by simp
  from findTarget_sound [where order = "map snd" and r = example_map, OF this, of "0x1010" "0x10"] found show ?thesis
    by auto
qed

text \<open>
  The check for overlaps is not symmetric: a block that starts below a registered one and reaches into
  it is accepted (unless it starts below the size of the registered one), and addresses exist that both
  blocks cover.
\<close>

theorem registerIp_misses_overlap:
  assumes "r_ips r = [rIp]" "unat (ii_client ip) < length (r_clients r)"
    and "ii_address ip < ii_address rIp" "ii_address rIp < ii_address ip + ii_size ip"
    and "ii_size rIp \<le> ii_address ip" "ii_address rIp < ii_address rIp + ii_size rIp"
  shows "\<exists>r'. registerIp ip r = Ret (r', Inr (r_ipCount r))
    \<and> r_ips r' = [rIp, ip\<lparr>ii_id := r_ipCount r\<rparr>]
    \<and> covers (ii_address rIp) rIp \<and> covers (ii_address rIp) (ip\<lparr>ii_id := r_ipCount r\<rparr>)"
proof -
  have "\<not> conflicts ip rIp"
    using assms(3,5) by (simp add: conflicts_def not_le not_less)
  then show ?thesis
    using assms by (cases "is_master (ii_type ip)")
      (simp_all add: registerIp_def covers_def Let_def less_imp_le)
qed

theorem registerIp_misses_overlap_witness:
  "\<exists>r'. registerIp (example_block 0xF00 0x200) example_map = Ret (r', Inr 1)
    \<and> covers 0x1000 (example_block 0x1000 0x100) \<and> covers 0x1000 ((example_block 0xF00 0x200)\<lparr>ii_id := 1\<rparr>)"
  using registerIp_misses_overlap [of example_map "example_block 0x1000 0x100" "example_block 0xF00 0x200"]
  by (auto simp: example_map_def example_block_def)

section \<open>Whom the router talks to\<close>

text \<open>
  The states of the router during registration: \<open>n\<close> clients are accepted, then clients shake hands and their
  requests are served.
\<close>

inductive registered :: "nat \<Rightarrow> router \<Rightarrow> bool" for n where
  Accept: "registered n (accept_clients n NewRouter)"
| Shake: "registered n r \<Longrightarrow> i < length (r_clients r) \<Longrightarrow>
    shakeHands E hello (r_clients r ! i) = Ret (Some (c, answer)) \<Longrightarrow>
    registered n (r\<lparr>r_clients := (r_clients r)[i := c]\<rparr>)"
| Serve: "registered n r \<Longrightarrow> c \<in> set (r_clients r) \<Longrightarrow> serve_ip c msg r = Ret (Some (r', reply)) \<Longrightarrow>
    registered n r'"

lemma shakeHands_id: "shakeHands E hello c = Ret (Some (c', answer)) \<Longrightarrow> gc_Id c' = gc_Id c"
  by (auto simp: shakeHands_def deref_eq_Ret Let_def split: if_splits option.splits)

lemma registerIp_ips:
  assumes "registerIp ip r = Ret (r', res)"
  shows "r_clients r' = r_clients r \<and>
   (r_ips r' = r_ips r \<and> r_ipMMap r' = r_ipMMap r \<and> r_ipCount r' = r_ipCount r
    \<or> r_ips r' = r_ips r @ [ip\<lparr>ii_id := r_ipCount r\<rparr>] \<and> r_ipCount r' = r_ipCount r + 1
      \<and> r_ipMMap r' = AList.update (ii_address ip) (ip\<lparr>ii_id := r_ipCount r\<rparr>) (r_ipMMap r))"
  using assms by (auto simp: registerIp_def Let_def split: option.splits if_splits)

lemma serve_ip_registers:
  assumes "serve_ip c msg r = Ret (Some (r', reply))"
  shows "r' = r \<or> (\<exists>ip res. ii_client ip = gc_Id c \<and> registerIp ip r = Ret (r', res))"
proof -
  obtain req where req: "receiveIpInfo c msg = Ret req"
    using assms by (auto simp: serve_ip_def bind_outcome_eq_Ret)
  show ?thesis
  proof (cases req)
    case (Ip_request ip)
    then have "ii_client ip = gc_Id c"
      using req by (auto simp: receiveIpInfo_def deref_eq_Ret split: if_splits)
    moreover obtain r1 res where "registerIp ip r = Ret (r1, res)"
      using assms req Ip_request by (auto simp: serve_ip_def bind_outcome_eq_Ret)
    ultimately show ?thesis
      using assms req Ip_request by (cases res) (auto simp: serve_ip_def)
  qed (use assms req in \<open>simp_all add: serve_ip_def\<close>)
qed

lemma update_values: "snd ` set (AList.update k v xs) \<subseteq> insert v (snd ` set xs)"
  by (induction xs) auto

lemma registered_first_client:
  assumes "registered n r"
  shows "(\<forall>ip \<in> set (r_ips r). ii_client ip = 0) \<and> (\<forall>ip \<in> snd ` set (r_ipMMap r). ii_client ip = 0)
    \<and> (\<forall>c \<in> set (r_clients r). gc_Id c = 0)"
  using assms
proof induction
  case Accept
  then show ?case by (auto simp: accept_clients_def NewRouter_def newClient_def)
next
  case (Shake r i E hello c answer)
  have "gc_Id c = 0"
    using shakeHands_id [OF Shake.hyps(3)] Shake.IH Shake.hyps(2) by simp
  then have "\<forall>x \<in> set ((r_clients r)[i := c]). gc_Id x = 0"
    using Shake.IH set_update_subset_insert [of "r_clients r" i c] by blast
  then show ?case
    using Shake.IH by simp
next
  case (Serve r c msg r' reply)
  have id: "gc_Id c = 0"
    using Serve.hyps(2) Serve.IH by blast
  have "r' = r \<or> (\<exists>ip res. ii_client ip = 0 \<and> registerIp ip r = Ret (r', res))"
    using serve_ip_registers [OF Serve.hyps(3)] id by simp
  then show ?case
  proof (elim disjE exE conjE)
    fix ip res assume "ii_client ip = 0" "registerIp ip r = Ret (r', res)"
    with registerIp_ips [OF this(2)] Serve.IH show ?case
      using update_values [of "ii_address ip" "ip\<lparr>ii_id := r_ipCount r\<rparr>" "r_ipMMap r"]
      by (auto 4 3)
  qed (use Serve.IH in simp)
qed

text \<open>Every IP the router knows is recorded under client 0.\<close>

definition first_only :: "router \<Rightarrow> bool" where
  "first_only r \<longleftrightarrow> (\<forall>ip \<in> set (r_ips r). ii_client ip = 0) \<and> (\<forall>ip \<in> snd ` set (r_ipMMap r). ii_client ip = 0)"

lemma registered_first_only: "registered n r \<Longrightarrow> first_only r"
  using registered_first_client by (simp add: first_only_def)

lemma first_only_client_of_ip:
  assumes "first_only r" "client_of_ip r i f = Ret x"
  shows "f 0 = Ret x"
  using assms by (auto simp: first_only_def client_of_ip_def go_index_def split: if_splits)

lemma first_only_findTarget:
  assumes "first_only r" "set (order (r_ipMMap r)) \<subseteq> snd ` set (r_ipMMap r)"
    and "findTarget order a s r = Inr (i, c)"
  shows "c = 0"
proof -
  obtain ip where "find (covers a) (order (r_ipMMap r)) = Some ip" "ii_client ip = c"
    using assms(3) by (auto simp: findTarget_def split: option.splits if_splits)
  then have "ip \<in> snd ` set (r_ipMMap r)"
    using assms(2) by (auto simp: find_Some_iff)
  then show ?thesis
    using assms(1) \<open>ii_client ip = c\<close> by (auto simp: first_only_def)
qed

lemma route_first_only:
  assumes "first_only r" "set (order (r_ipMMap r)) \<subseteq> snd ` set (r_ipMMap r)"
    and "route order mutate msg r = Ret (r', outs, True)"
  shows "\<forall>(c, m) \<in> set outs. c = 0"
proof -
  have mtype: "wm_type msg \<noteq> Type_TERMINATE" "wm_type msg = Type_TRANSACTION"
    using assms(3) by (auto simp: route_def Let_def client_of_ip_def go_index_def split: if_splits)
  then obtain txn where txn: "wm_txn msg = Some txn"
    using assms(3) by (auto simp: route_def deref_eq_Ret)
  show ?thesis
  proof (cases "wt_type txn = 0 \<or> wt_type txn = 1")
    case request: True
    show ?thesis
    proof (cases "findTarget order (wt_address txn) (wt_size txn) r")
      case (Inl err)
      then show ?thesis
        using assms(3) mtype txn request
        by (auto simp: route_def dest!: first_only_client_of_ip [OF assms(1)])
    next
      case (Inr p)
      then have "snd p = 0"
        using first_only_findTarget [OF assms(1), of order "wt_address txn" "wt_size txn" "fst p" "snd p"] assms(2)
        by simp
      with Inr show ?thesis
        using assms(3) mtype txn request
        by (cases p) (auto simp: route_def go_index_def split: if_splits)
    qed
  next
    case False
    then show ?thesis
      using assms(3) mtype txn
      by (auto simp: route_def split: if_splits dest!: first_only_client_of_ip [OF assms(1)])
  qed
qed

text \<open>
  With more than one client, everything is routed to the first: the number of a client is never
  stored, so in every state of the router that registration can reach, each message that the routing
  loop passes on goes to client 0, whichever client owns the IP.
\<close>

theorem route_only_first_client:
  assumes "registered n r" "set (order (r_ipMMap r)) \<subseteq> snd ` set (r_ipMMap r)"
    and "route order mutate msg r = Ret (r', outs, True)"
  shows "\<forall>(c, m) \<in> set outs. c = 0"
  by (rule route_first_only [OF registered_first_only [OF assms(1)] assms(2,3)])

text \<open>A router of two clients; the second one has registered a block.\<close>

definition example_go_env :: go_env where
  "example_go_env = \<lparr>g_goos = ''linux'', g_hostname = Some ''host'', g_pid = 7\<rparr>"

definition example_hello :: wire_Message where
  "example_hello = system_info_message \<lparr>si_name = ''two'', si_systemName = '''', si_pid = 2, si_hostname = ''''\<rparr>"

definition example_second :: go_client where
  "example_second = \<lparr>gc_Id = 0, gc_SystemInfo = \<lparr>si_name = ''two'', si_systemName = '''', si_pid = 2,
     si_hostname = ''''\<rparr>\<rparr>"

definition example_two :: router where
  "example_two = (accept_clients 2 NewRouter)\<lparr>r_clients := [newClient 0, example_second], r_ipCount := 1,
     r_ipMMap := [(0x1000, example_block 0x1000 0x100)], r_ips := [example_block 0x1000 0x100]\<rparr>"

definition example_read :: wire_Message where
  "example_read = (new_Message Type_TRANSACTION)\<lparr>wm_txn := Some
     \<lparr>wt_type = 0, wt_initiator = 0, wt_target = 0, wt_id = 5, wt_address = 0x1010, wt_size = 4,
      wt_data = None, wt_ok = True, wt_message = None\<rparr>\<rparr>"

lemma example_two_registered: "registered 2 example_two"
proof -
  let ?r0 = "accept_clients 2 NewRouter"
  have "shakeHands example_go_env example_hello (r_clients ?r0 ! 1) = Ret (Some (example_second,
      system_info_message \<lparr>si_name = ''router'', si_systemName = go_systemName example_go_env, si_pid = 7,
        si_hostname = ''host''\<rparr>))"
    by (simp add: shakeHands_def example_go_env_def example_hello_def system_info_message_def new_Message_def newClient_def
        example_second_def go_string_def deref_def accept_clients_def NewRouter_def)
  from registered.Shake [OF registered.Accept _ this]
  have shaken: "registered 2 (?r0\<lparr>r_clients := (r_clients ?r0)[1 := example_second]\<rparr>)"
    by (simp add: accept_clients_def)
  have "serve_ip example_second (ip_message (example_block 0x1000 0x100))
      (?r0\<lparr>r_clients := (r_clients ?r0)[1 := example_second]\<rparr>) = Ret (Some (example_two, Some (ackIpInfo 0)))"
    by (simp add: serve_ip_def receiveIpInfo_def ip_message_def new_Message_def example_second_def
        example_block_def go_string_def deref_def IpType_of_wire_def registerIp_def numeral_2_eq_2
        is_master_def accept_clients_def NewRouter_def example_two_def newClient_def Let_def bind_outcome_def)
  then show ?thesis
    by (rule registered.Serve [OF shaken, rotated]) (simp add: accept_clients_def NewRouter_def numeral_2_eq_2)
qed

theorem route_only_first_client_witness:
  "length (r_clients example_two) = 2
   \<and> (\<exists>outs. route (map snd) (\<lambda>i txn. txn\<lparr>wt_target := i\<rparr>) example_read example_two = Ret (example_two, outs, True)
      \<and> outs \<noteq> [] \<and> (\<forall>(c, m) \<in> set outs. c = 0))"
proof -
  have ran: "\<exists>outs. route (map snd) (\<lambda>i txn. txn\<lparr>wt_target := i\<rparr>) example_read example_two
    = Ret (example_two, outs, True) \<and> outs \<noteq> []"
    by (simp add: route_def example_read_def new_Message_def deref_def findTarget_def covers_def
        example_two_def example_block_def accept_clients_def NewRouter_def go_index_def)
  have "set (map snd (r_ipMMap example_two)) \<subseteq> snd ` set (r_ipMMap example_two)"
    by simp
  then show ?thesis
    using ran route_only_first_client [OF example_two_registered]
    by (fastforce simp: example_two_def accept_clients_def NewRouter_def)
qed

section \<open>Registration, from both ends\<close>

text \<open>What the router keeps of a configuration, and what it announces of what it keeps.\<close>

definition requested :: "go_client \<Rightarrow> IpConfig \<Rightarrow> IpInfo" where
  "requested gc config = \<lparr>ii_name = ip_name config, ii_address = ip_address config,
     ii_size = ip_size config, ii_firstInterrupt = 0, ii_numInterrupts = 0, ii_type = ip_type config,
     ii_implementation = ip_implementation config, ii_id = 0, ii_client = gc_Id gc\<rparr>"

definition announced :: "IpInfo \<Rightarrow> IpConfig" where
  "announced ip = \<lparr>ip_name = ii_name ip, ip_address = ii_address ip, ip_size = ii_size ip,
     ip_firstInterrupt = ii_firstInterrupt ip, ip_numInterrupts = ii_numInterrupts ip,
     ip_type = ii_type ip, ip_implementation = ii_implementation ip\<rparr>"

lemma receiveIpInfo_registerIp_message:
  assumes "wire_of_IpType (ip_type config) = Some t" "named_IpImplementation (ip_implementation config)"
  shows "receiveIpInfo gc (registerIp_message config t) = Ret (Ip_request (requested gc config))"
  using assms IpType_of_wire_inverse [OF assms(1)]
  by (cases "ip_implementation config")
    (simp_all add: receiveIpInfo_def registerIp_message_def requested_def go_string_def
      wire_of_IpImplementation_def)

lemma ackIpInfo_simps [simp]: "wm_type (ackIpInfo i) = Type_IP_ACK" "wm_ipId (ackIpInfo i) = i"
  by (simp_all add: ackIpInfo_def new_Message_def)

lemma createErrorMessage_simps [simp]:
  "wm_type (createErrorMessage e) = Type_ERROR" "wm_errorMessage (createErrorMessage e) = Some e"
  by (simp_all add: createErrorMessage_def new_Message_def)

text \<open>
  The C++ \<^verbatim>\<open>registerIp\<close> against the router's registration. Without a conflict the router appends the
  configuration (without interrupts) under the next identifier, and that identifier is what the client
  gets; with a conflict the router keeps its lists, and the client is disconnected with the router's
  text, although the number of masters has gone up all the same.
\<close>

theorem register_end_to_end:
  assumes L: "codec L" and c: "c_state c = CONNECTED" "c_sock c \<noteq> -1" "wr_script (c_out c) = []"
    and config: "wire_of_IpType (ip_type config) = Some t" "named_IpImplementation (ip_implementation config)"
    and owner: "unat (gc_Id gc) < length (r_clients r)"
  shows "\<exists>r' reply. serve_ip gc (registerIp_message config t) r = Ret (Some (r', Some reply))
    \<and> r_masterCount r' = r_masterCount r + (if is_master (ip_type config) then 1 else 0)
    \<and> (incoming L c (reply # ms) \<longrightarrow> (\<exists>c' i st. RouterClient_registerIp L config c = Ret (c', i, st)
        \<and> (case find (conflicts (requested gc config)) (r_ips r) of
             None \<Rightarrow> isOk st \<and> i = r_ipCount r \<and> r_ipCount r' = r_ipCount r + 1
               \<and> r_ips r' = r_ips r @ [(requested gc config)\<lparr>ii_id := i\<rparr>]
               \<and> c_state c' = CONNECTED \<and> incoming L c' ms
           | Some rIp \<Rightarrow> st = mk_status 1 (''Cannot register IP '' @ ip_name config
                 @ '': Address space overlaps with already registered '' @ ii_name rIp @ '' IP block'')
               \<and> r_ips r' = r_ips r \<and> c_state c' = DISCONNECTED \<and> c_sock c' = -1)))"
proof -
  let ?ip = "requested gc config"
  let ?r1 = "if is_master (ip_type config) then r\<lparr>r_masterCount := r_masterCount r + 1\<rparr> else r"
  note rcv = receiveIpInfo_registerIp_message [OF config, of gc]
  have ip: "ii_client ?ip = gc_Id gc" "ii_type ?ip = ip_type config"
    by (simp_all add: requested_def)
  show ?thesis
  proof (cases "find (conflicts ?ip) (r_ips r)")
    case None
    define r' where "r' = ?r1\<lparr>r_ipCount := r_ipCount r + 1,
      r_ipMMap := AList.update (ii_address ?ip) (?ip\<lparr>ii_id := r_ipCount r\<rparr>) (r_ipMMap r),
      r_ips := r_ips r @ [?ip\<lparr>ii_id := r_ipCount r\<rparr>]\<rparr>"
    have "serve_ip gc (registerIp_message config t) r = Ret (Some (r', Some (ackIpInfo (r_ipCount r))))"
      using None owner by (simp add: serve_ip_def rcv registerIp_def ip r'_def Let_def)
    moreover have "\<exists>c'. RouterClient_registerIp L config c = Ret (c', r_ipCount r, status_ok)
        \<and> c_state c' = CONNECTED \<and> incoming L c' ms"
      if inc: "incoming L c (ackIpInfo (r_ipCount r) # ms)"
    proof -
      obtain k where "framed k (map (lib_encode L) ms)" "RouterClient_registerIp L config c =
        Ret (sent_more L (registerIp_message config t) k c, r_ipCount r, status_ok)"
        using registerIp_incoming [OF L c config(1) inc]
        by (metis ackIpInfo_simps)
      then show ?thesis
        using c(1) by (simp add: sent_more_def incoming_def del: framed.simps)
    qed
    ultimately show ?thesis
      using None by (intro exI [of _ r'] exI [of _ "ackIpInfo (r_ipCount r)"]) (auto simp: r'_def)
  next
    case (Some rIp)
    let ?e = "''Address space overlaps with already registered '' @ ii_name rIp @ '' IP block''"
    have "serve_ip gc (registerIp_message config t) r = Ret (Some (?r1, Some (createErrorMessage ?e)))"
      using Some by (simp add: serve_ip_def rcv registerIp_def ip Let_def)
    moreover have "\<exists>c'. RouterClient_registerIp L config c = Ret (c', 0,
          mk_status 1 (''Cannot register IP '' @ ip_name config @ '': '' @ ?e))
        \<and> c_state c' = DISCONNECTED \<and> c_sock c' = -1"
      if inc: "incoming L c (createErrorMessage ?e # ms)"
    proof -
      obtain k where "RouterClient_registerIp L config c =
        Ret (RouterClient_disconnect (sent_more L (registerIp_message config t) k c), 0,
          mk_status 1 (''Cannot register IP '' @ ip_name config @ '': '' @ ?e))"
        using registerIp_incoming [OF L c config(1) inc] by (metis createErrorMessage_simps)
      then show ?thesis
        using c(2) by (simp add: RouterClient_disconnect_def sent_more_def)
    qed
    ultimately show ?thesis
      using Some by (intro exI [of _ ?r1] exI [of _ "createErrorMessage ?e"]) auto
  qed
qed

section \<open>The connection, from both ends\<close>

text \<open>
  The C++ \<^verbatim>\<open>connect\<close> against the router's \<^verbatim>\<open>shakeHands\<close>: the router answers the one message
  \<^verbatim>\<open>connect\<close> sends and keeps the information of the client, field for field; \<^verbatim>\<open>connect\<close> returns the information of the
  router and a CONNECTED client.
\<close>

theorem connect_end_to_end:
  assumes "codec L" "closed c" "path \<noteq> ''''" "e_socket E \<noteq> -1" "e_connect E (sun_path path)" "e_wr E = []"
    and "g_hostname G = Some hn"
  shows "\<exists>gc' answer. shakeHands G (client_SystemInfo E name) gc = Ret (Some (gc', answer))
    \<and> gc_Id gc' = gc_Id gc
    \<and> gc_SystemInfo gc' = \<lparr>si_name = name, si_systemName = system_name E, si_pid = e_pid E,
        si_hostname = e_nodename E\<rparr>
    \<and> (framed (e_in E) (map (lib_encode L) (answer # ms)) \<longrightarrow>
       (\<exists>c'. RouterClient_connect L E (''unix://'' @ path) name c = Ret (c', Some
           \<lparr>si_name = ''router'', si_systemName = go_systemName G, si_pid = g_pid G, si_hostname = hn\<rparr>, status_ok)
         \<and> wr_sent (c_out c') = frame (lib_encode L (client_SystemInfo E name))
         \<and> c_state c' = CONNECTED \<and> c_sock c' \<noteq> -1 \<and> wr_script (c_out c') = [] \<and> incoming L c' ms))"
proof -
  let ?si = "\<lparr>si_name = ''router'', si_systemName = go_systemName G, si_pid = g_pid G, si_hostname = hn\<rparr>"
  have answer: "wm_type (system_info_message ?si) = Type_SYSTEM_INFO"
    "SystemInfo_of_message (system_info_message ?si) = Ret ?si"
    by (simp_all add: system_info_message_def SystemInfo_of_message_def new_Message_def)
  have "\<exists>c'. RouterClient_connect L E (''unix://'' @ path) name c = Ret (c', Some ?si, status_ok)
      \<and> wr_sent (c_out c') = frame (lib_encode L (client_SystemInfo E name))
      \<and> c_state c' = CONNECTED \<and> c_sock c' \<noteq> -1 \<and> wr_script (c_out c') = [] \<and> incoming L c' ms"
    if f: "framed (e_in E) (map (lib_encode L) (system_info_message ?si # ms))"
  proof -
    obtain k where k: "RouterClient_connect L E (''unix://'' @ path) name c = Ret
        (c\<lparr>c_state := CONNECTED, c_uri := ''unix://'' @ path, c_sock := e_socket E, c_in := k,
           c_out := \<lparr>wr_script = [], wr_sent = frame (lib_encode L (client_SystemInfo E name))\<rparr>,
           c_open := e_socket E # c_open c\<rparr>, Some ?si, status_ok)"
      "framed k (map (lib_encode L) ms)"
      by (rule connect_incoming [OF assms(1-6) f answer])
    show ?thesis
      unfolding k(1) using assms(4) k(2) by (simp add: incoming_def del: framed.simps)
  qed
  moreover have "shakeHands G (client_SystemInfo E name) gc = Ret (Some (gc\<lparr>gc_SystemInfo :=
      \<lparr>si_name = name, si_systemName = system_name E, si_pid = e_pid E, si_hostname = e_nodename E\<rparr>\<rparr>,
      system_info_message ?si))"
    using assms(7) by (simp add: shakeHands_def client_SystemInfo_def new_Message_def go_string_def)
  ultimately show ?thesis
    by (intro exI [of _ "gc\<lparr>gc_SystemInfo := \<lparr>si_name = name, si_systemName = system_name E,
      si_pid = e_pid E, si_hostname = e_nodename E\<rparr>\<rparr>"] exI [of _ "system_info_message ?si"] conjI impI)
      (assumption | simp)+
qed

section \<open>The commit, from both ends\<close>

lemma announces_peer_of_message: "announces_peer (system_info_message si) si"
  by (simp add: announces_peer_def system_info_message_def SystemInfo_of_message_def new_Message_def)

lemma announces_ip_of_message:
  assumes "named_IpType (ii_type ip)" "named_IpImplementation (ii_implementation ip)"
  shows "announces_ip (ip_message ip) (announced ip)"
proof -
  obtain w where w: "wire_of_IpType (ii_type ip) = Some w"
    using assms(1) wire_of_IpType_Some by blast
  then show ?thesis
    using assms(2) IpType_of_wire_inverse [OF w]
    by (cases "ii_implementation ip")
      (simp_all add: announces_ip_def ip_message_def IpConfig_of_message_def new_Message_def
        announced_def IpImplementation_of_wire_def)
qed

text \<open>
  C16: the commit from both ends: against the router's \<^verbatim>\<open>commit\<close>, \<^verbatim>\<open>commitIp\<close> and then \<^verbatim>\<open>start\<close> of the
  C++ bridge succeed, the bridge ends with exactly the router's clients and the router's IP appended
  to its lists, in order, and with nothing of the commit left to read.
\<close>

theorem commit_end_to_end:
  assumes L: "codec L" and c: "c_state (br_client b) = CONNECTED" "c_sock (br_client b) \<noteq> -1"
      "wr_script (c_out (br_client b)) = []"
    and ips: "\<forall>ip \<in> set (r_ips r). named_IpType (ii_type ip) \<and> named_IpImplementation (ii_implementation ip)"
    and inc: "incoming L (br_client b) (commit infos (r_ips r) @ rest)"
    and thr: "br_reader b = Reader_Absent" "br_writer b = Writer_Absent"
  shows "\<exists>b1 b2. Bridge_commitIp L b = Ret (b1, status_ok) \<and> Bridge_start L b1 = Ret (b2, status_ok)
    \<and> br_peers b2 = br_peers b @ infos \<and> br_ipBlocks b2 = br_ipBlocks b @ map announced (r_ips r)
    \<and> c_state (br_client b2) = STARTED \<and> incoming L (br_client b2) rest
    \<and> br_reader b2 = Reader_Running \<and> br_writer b2 = Writer_Pop"
proof -
  let ?ms = "map system_info_message infos @ new_Message Type_ACK # map ip_message (r_ips r)
    @ new_Message Type_ACK # rest"
  have ack: "wm_type (new_Message Type_ACK) = Type_ACK"
    by (simp add: new_Message_def)
  have "incoming L (br_client b) (new_Message Type_ACK # ?ms)"
    using inc by (simp add: commit_def del: framed.simps)
  with L c obtain k where k: "framed k (map (lib_encode L) ?ms)" "RouterClient_commitIp L (br_client b) =
      Ret ((sent_more L (new_Message Type_COMMIT) k (br_client b))\<lparr>c_state := COMMITTED\<rparr>, status_ok)"
    using ack by (elim commitIp_incoming) blast+
  define b1 where "b1 = b\<lparr>br_client :=
    (sent_more L (new_Message Type_COMMIT) k (br_client b))\<lparr>c_state := COMMITTED\<rparr>\<rparr>"
  have b1: "Bridge_commitIp L b = Ret (b1, status_ok)"
    by (simp add: Bridge_commitIp_def k(2) b1_def)
  have st: "c_state (br_client b1) = COMMITTED" "c_sock (br_client b1) \<noteq> -1"
    "br_reader b1 = Reader_Absent" "br_writer b1 = Writer_Absent"
    using c(2) thr by (simp_all add: b1_def sent_more_def)
  have inc1: "incoming L (br_client b1) ?ms"
    using k(1) by (simp add: b1_def sent_more_def incoming_def)
  have peers: "list_all2 announces_peer (map system_info_message infos) infos"
    by (simp add: list_all2_map1 list.rel_refl announces_peer_of_message)
  have blocks: "list_all2 announces_ip (map ip_message (r_ips r)) (map announced (r_ips r))"
    using ips by (auto simp: list_all2_map1 list_all2_map2 announces_ip_of_message intro: list.rel_refl_strong)
  show ?thesis
    by (rule Bridge_start_incoming [OF L st(1,2) peers ack blocks ack inc1 st(3,4)])
      (auto simp: b1 b1_def incoming_def simp del: framed.simps)
qed

section \<open>Requests that have no target, from both ends\<close>

text \<open>
  A request that hits no block, or reaches over the end of one, is answered: the router sends the
  initiator an error under the same identifier, and the C++ bridge that waits for this response makes
  the future of that request ready with the router's text; its memory does not change.
\<close>

theorem route_error_completes:
  assumes req: "wm_type msg = Type_TRANSACTION" "wm_txn msg = Some w" "wt_type w = 0 \<or> wt_type w = 1"
    and err: "findTarget order (wt_address w) (wt_size w) r = Inl err"
    and ran: "route order mutate msg r = Ret (r', outs, go)"
    and L: "codec L" and c: "c_state (br_client b) = STARTED" "c_sock (br_client b) \<noteq> -1"
    and inc: "incoming L (br_client b) (map snd outs @ ms)"
    and md: "map_of (br_masterMap b) (wt_initiator w) = Some md" "map_of (md_txns md) (wt_id w) = Some t"
      "tx_promise t = Some f"
  shows "\<exists>b'. Bridge_reader L S b = Ret b' \<and> br_futures b' = (br_futures b)[f := Ready (mk_status 1 err)]
    \<and> br_mem b' = br_mem b \<and> br_reader b' = br_reader b \<and> incoming L (br_client b') ms
    \<and> map_of (md_txns (masterMap_at (wt_initiator w) b')) (wt_id w) = None"
proof -
  let ?m = "createErrorTxn (wt_initiator w) (wt_id w) (wt_type w) err"
  define ty where "ty = (if wt_type w = 0 then READ_RESP else WRITE_RESP)"
  define txn where "txn = \<lparr>txn_type = ty, txn_initiator = wt_initiator w, txn_target = 0,
    txn_id = wt_id w, txn_address = 0, txn_size = 0, txn_data = [], txn_ok = False, txn_message = err\<rparr>"
  have "map snd outs = [?m]"
    using req err ran by (auto simp: route_def client_of_ip_def go_index_def split: if_splits)
  then have "incoming L (br_client b) (?m # ms)"
    using inc by (simp del: framed.simps)
  with L c(2) obtain k where k: "client_read L (br_client b) = Ret ((br_client b)\<lparr>c_in := k\<rparr>, Some ?m)"
    "incoming L ((br_client b)\<lparr>c_in := k\<rparr>) ms"
    by (rule client_read_incoming)
  have "Transaction_of_message ?m = Ret (Inr txn)" "wm_type ?m = Type_TRANSACTION"
    using req(3) by (auto simp: Transaction_of_message_def createErrorTxn_def new_Message_def
        txn_def ty_def TransactionType_of_wire_def)
  with k(1) c(1) have "RouterClient_receiveTransaction L (br_client b)
      = Ret ((br_client b)\<lparr>c_in := k\<rparr>, Some txn, status_ok)"
    by (simp add: RouterClient_receiveTransaction_def)
  moreover have "txn_type txn = READ_RESP \<or> txn_type txn = WRITE_RESP" "txn_initiator txn = wt_initiator w"
    "txn_id txn = wt_id w" "\<not> txn_ok txn" "txn_message txn = err"
    by (simp_all add: txn_def ty_def)
  ultimately have "Bridge_reader L S b = Ret (set_masterMap (wt_initiator w)
      (md\<lparr>md_txns := AList.delete (wt_id w) (md_txns md)\<rparr>) (b\<lparr>br_client := (br_client b)\<lparr>c_in := k\<rparr>\<rparr>)
      \<lparr>br_mem := br_mem b, br_futures := (br_futures b)[f := Ready (mk_status 1 err)]\<rparr>)"
    using md by (auto simp: Bridge_reader_def reader_response_def fulfil_def Let_def set_masterMap_def)
  then show ?thesis
    using k(2) by (simp add: masterMap_at_md_at md_at_def AList.update_conv' AList.delete_conv' set_masterMap_def
        del: framed.simps)
qed

text \<open>
  A master that terminates before the last one ends the router: the TERMINATE is counted and then taken
  for an unexpected message.
\<close>

lemma route_early_termination:
  assumes "wm_type msg = Type_TERMINATE" "unat (wm_ipId msg) < length (r_ips r)"
    and "unat (ii_client (r_ips r ! unat (wm_ipId msg))) < length (r_clients r)" "r_masterCount r \<noteq> 1"
  shows "route order mutate msg r = Fault Terminate"
  using assms by (simp add: route_def client_of_ip_def go_index_def Let_def)

section \<open>Instances of the properties from both ends\<close>

lemma example_incoming_one:
  "length (enc_Message m) \<le> vector_max_size \<Longrightarrow> incoming example_lib (example_client s [m]) [m]"
  by (rule incoming_example_client) simp

theorem connect_end_to_end_witness:
  "\<exists>gc' answer c'. shakeHands example_go_env (client_SystemInfo (example_env []) ''app'') (newClient 0)
      = Ret (Some (gc', answer)) \<and> si_name (gc_SystemInfo gc') = ''app''
    \<and> RouterClient_connect example_lib ((example_env [])\<lparr>e_in := example_messages [answer]\<rparr>)
        (''unix://'' @ ''/tmp/sw-axi'') ''app'' (new_RouterClient [])
      = Ret (c', Some \<lparr>si_name = ''router'', si_systemName = ''Linux Golang'', si_pid = 7,
          si_hostname = ''host''\<rparr>, status_ok)"
proof -
  let ?a = "system_info_message \<lparr>si_name = ''router'', si_systemName = ''Linux Golang'', si_pid = 7,
    si_hostname = ''host''\<rparr>"
  let ?E = "(example_env [])\<lparr>e_in := example_messages [?a]\<rparr>"
  have name: "go_systemName example_go_env = ''Linux Golang''"
    by (simp add: go_systemName_def toUpper_def example_go_env_def) code_simp
  have "framed (e_in ?E) (map (lib_encode example_lib) [?a])"
    using framed_example_messages [of "[?a]"]
    by (simp add: system_info_message_def enc_sizes vector_max_size_def new_Message_def del: framed.simps)
  moreover have "closed (new_RouterClient [])" "e_socket ?E \<noteq> -1" "e_connect ?E (sun_path ''/tmp/sw-axi'')"
    "e_wr ?E = []" "g_hostname example_go_env = Some ''host''" "g_pid example_go_env = 7"
    "client_SystemInfo (example_env []) ''app'' = client_SystemInfo ?E ''app''"
    by (simp_all add: new_RouterClient_def closed_def example_env_def example_go_env_def
        client_SystemInfo_def system_name_def)
  moreover have "shakeHands example_go_env (client_SystemInfo ?E ''app'') (newClient 0)
      = Ret (Some ((newClient 0)\<lparr>gc_SystemInfo := \<lparr>si_name = ''app'', si_systemName = system_name ?E,
          si_pid = e_pid ?E, si_hostname = e_nodename ?E\<rparr>\<rparr>, ?a))"
    using name by (simp add: shakeHands_def client_SystemInfo_def new_Message_def go_string_def example_go_env_def)
  ultimately show ?thesis
    using connect_end_to_end [OF codec_example_lib, of "new_RouterClient []" "''/tmp/sw-axi''" ?E
        example_go_env "''host''" "''app''" "newClient 0" "[]"] name
    by (auto simp del: framed.simps)
qed

definition example_config :: IpConfig where
  "example_config = new_IpConfig\<lparr>ip_name := ''uart'', ip_address := 0x8000, ip_size := 0x10\<rparr>"

theorem register_end_to_end_witness:
  "\<exists>r' c' st. serve_ip (newClient 0) (registerIp_message example_config 0) example_map
      = Ret (Some (r', Some (ackIpInfo 1)))
    \<and> length (r_ips r') = 2
    \<and> RouterClient_registerIp example_lib example_config (example_client CONNECTED [ackIpInfo 1])
      = Ret (c', 1, st) \<and> isOk st"
proof -
  let ?c = "example_client CONNECTED [ackIpInfo 1]"
  have cfg: "wire_of_IpType (ip_type example_config) = Some 0"
    "named_IpImplementation (ip_implementation example_config)"
    by (simp_all add: example_config_def new_IpConfig_def)
  have none: "find (conflicts (requested (newClient 0) example_config)) (r_ips example_map) = None"
    by (simp add: conflicts_def requested_def example_config_def new_IpConfig_def example_map_def
        example_block_def)
  have reply: "\<exists>r'. serve_ip (newClient 0) (registerIp_message example_config 0) example_map
      = Ret (Some (r', Some (ackIpInfo 1)))"
    using none by (simp add: serve_ip_def receiveIpInfo_registerIp_message [OF cfg] registerIp_def Let_def
        requested_def example_map_def newClient_def)
  have "incoming example_lib ?c [ackIpInfo 1]"
    by (rule example_incoming_one) (simp add: enc_sizes vector_max_size_def new_Message_def ackIpInfo_def)
  moreover have "unat (gc_Id (newClient 0)) < length (r_clients example_map)" "r_ipCount example_map = 1"
    "length (r_ips example_map) = 1"
    by (simp_all add: newClient_def example_map_def)
  ultimately show ?thesis
    using register_end_to_end [OF codec_example_lib, of ?c example_config 0 "newClient 0" example_map "[]"]
      cfg none reply by (auto simp del: framed.simps)
qed

definition example_commit :: "nat bridge" where
  "example_commit = (example_bridge example_memory)
     \<lparr>br_client := example_client CONNECTED (commit [example_router] (r_ips example_map))\<rparr>"

theorem commit_end_to_end_witness:
  "\<exists>b1 b2. Bridge_commitIp example_lib example_commit = Ret (b1, status_ok)
    \<and> Bridge_start example_lib b1 = Ret (b2, status_ok) \<and> br_peers b2 = [example_router]
    \<and> br_ipBlocks b2 = [announced (example_block 0x1000 0x100)]"
proof -
  let ?ms = "commit [example_router] (r_ips example_map)"
  have "\<forall>m \<in> set ?ms. length (enc_Message m) \<le> vector_max_size"
    by (simp add: commit_def example_map_def example_block_def example_router_def system_info_message_def
        ip_message_def enc_sizes vector_max_size_def new_Message_def)
  then have "incoming example_lib (br_client example_commit) (?ms @ [])"
    using incoming_example_client [of ?ms CONNECTED] by (simp add: example_commit_def del: framed.simps)
  moreover have "\<forall>ip \<in> set (r_ips example_map). named_IpType (ii_type ip) \<and> named_IpImplementation (ii_implementation ip)"
    by (simp add: example_map_def example_block_def)
  moreover have "c_state (br_client example_commit) = CONNECTED" "c_sock (br_client example_commit) \<noteq> -1"
    "wr_script (c_out (br_client example_commit)) = []" "br_reader example_commit = Reader_Absent"
    "br_writer example_commit = Writer_Absent" "br_peers example_commit = []" "br_ipBlocks example_commit = []"
    "map announced (r_ips example_map) = [announced (example_block 0x1000 0x100)]"
    by (simp_all add: example_commit_def example_map_def)
  ultimately show ?thesis
    using commit_end_to_end [OF codec_example_lib, of example_commit example_map "[example_router]" "[]"]
    by (auto simp del: framed.simps)
qed

text \<open>A read that reaches over the end of the block, by a master that waits for the response.\<close>

definition example_master :: router where
  "example_master = example_map\<lparr>r_ips := [example_block 0x1000 0x100,
     (example_block 0 0)\<lparr>ii_type := MASTER, ii_id := 1\<rparr>]\<rparr>"

definition example_long :: wire_Transaction where
  "example_long = \<lparr>wt_type = 0, wt_initiator = 1, wt_target = 0, wt_id = 0, wt_address = 0x10F0,
     wt_size = 0x20, wt_data = None, wt_ok = True, wt_message = None\<rparr>"

theorem route_error_completes_witness:
  "\<exists>outs b'. route (map snd) (\<lambda>i txn. txn) ((new_Message Type_TRANSACTION)\<lparr>wm_txn := Some example_long\<rparr>)
        example_master = Ret (example_master, outs, True)
    \<and> Bridge_reader example_lib example_slaves
        ((example_waiting (example_response []) 2)\<lparr>br_client := example_client STARTED (map snd outs)\<rparr>) = Ret b'
    \<and> br_futures b' = [Ready (mk_status 1 ''Transaction spans blocks bondary: ram'')]"
proof -
  let ?e = "''Transaction spans blocks bondary: ram''"
  let ?m = "createErrorTxn 1 0 0 ?e"
  let ?msg = "(new_Message Type_TRANSACTION)\<lparr>wm_txn := Some example_long\<rparr>"
  let ?b = "(example_waiting (example_response []) 2)\<lparr>br_client := example_client STARTED (map snd [(0 :: u64, ?m)])\<rparr>"
  have err: "findTarget (map snd) (wt_address example_long) (wt_size example_long) example_master = Inl ?e"
    by (simp add: findTarget_def example_master_def example_map_def example_block_def covers_def example_long_def)
  have msg: "wm_type ?msg = Type_TRANSACTION" "wm_txn ?msg = Some example_long"
    "wt_type example_long = 0 \<or> wt_type example_long = 1"
    by (simp_all add: new_Message_def example_long_def)
  have ran: "route (map snd) (\<lambda>i txn. txn) ?msg example_master = Ret (example_master, [(0, ?m)], True)"
    using err msg by (simp add: route_def client_of_ip_def go_index_def example_master_def
        example_map_def example_block_def example_long_def)
  have "incoming example_lib (br_client ?b) (map snd [(0 :: u64, ?m)] @ [])"
    using example_incoming_one [of ?m STARTED]
    by (simp add: createErrorTxn_def enc_sizes vector_max_size_def new_Message_def del: framed.simps)
  moreover have "c_state (br_client ?b) = STARTED" "c_sock (br_client ?b) \<noteq> -1"
    "map_of (br_masterMap ?b) (wt_initiator example_long)
       = Some \<lparr>md_master = Some 1, md_txns = [(0, example_request)], md_lastTxnId = 1\<rparr>"
    "br_futures ?b = [Pending]" "tx_promise example_request = Some 0" "wt_id example_long = 0"
    by (simp_all add: example_waiting_def example_long_def example_request_def)
  ultimately show ?thesis
    using route_error_completes [OF msg err ran codec_example_lib, of ?b "[]" _ example_request 0 example_slaves] ran
    by (auto simp del: framed.simps)
qed

section \<open>Identifiers\<close>

lemma registered_shape:
  assumes "registered n r"
  shows "(\<forall>k < length (r_ips r). ii_id (r_ips r ! k) = of_nat k)
    \<and> snd ` set (r_ipMMap r) \<subseteq> set (r_ips r) \<and> r_ipCount r = of_nat (length (r_ips r))
    \<and> length (r_clients r) = n"
  using assms
proof induction
  case Accept
  then show ?case by (simp add: accept_clients_def NewRouter_def)
next
  case (Shake r i E hello c answer)
  then show ?case by simp
next
  case (Serve r c msg r' reply)
  consider "r' = r" | ip res where "registerIp ip r = Ret (r', res)"
    using serve_ip_registers [OF Serve.hyps(3)] by blast
  then show ?case
  proof cases
    case 1
    with Serve.IH show ?thesis by simp
  next
    case 2
    let ?new = "ip\<lparr>ii_id := r_ipCount r\<rparr>"
    consider (same) "r_ips r' = r_ips r" "r_ipMMap r' = r_ipMMap r" "r_ipCount r' = r_ipCount r"
      | (new) "r_ips r' = r_ips r @ [?new]" "r_ipCount r' = r_ipCount r + 1"
        "r_ipMMap r' = AList.update (ii_address ip) ?new (r_ipMMap r)"
      using registerIp_ips [OF 2] by blast
    moreover have clients: "r_clients r' = r_clients r"
      using registerIp_ips [OF 2] by blast
    ultimately show ?thesis
    proof cases
      case same
      then show ?thesis using Serve.IH clients by simp
    next
      case new
      have "insert ?new (snd ` set (r_ipMMap r)) \<subseteq> set (r_ips r')"
        using Serve.IH by (simp add: new(1) subset_insertI2)
      then have "snd ` set (r_ipMMap r') \<subseteq> set (r_ips r')"
        unfolding new(3) by (rule order_trans [OF update_values])
      then show ?thesis
        using Serve.IH clients by (simp add: new(1,2) nth_append less_Suc_eq)
    qed
  qed
qed

text \<open>
  In every state that registration can reach, the identifier of an IP is its position in the list of
  IP, so that \<^verbatim>\<open>ips[txn.Initiator()]\<close> is the IP with that identifier; the address map holds only
  registered IP, and the next identifier is the number of registered IP.
\<close>

theorem registered_ids:
  assumes "registered n r"
  shows "(\<forall>k < length (r_ips r). ii_id (r_ips r ! k) = of_nat k)
    \<and> snd ` set (r_ipMMap r) \<subseteq> set (r_ips r) \<and> r_ipCount r = of_nat (length (r_ips r))
    \<and> length (r_clients r) = n"
  by (rule registered_shape [OF assms])

theorem registered_ids_witness:
  "r_ipCount example_two = 1 \<and> ii_id (r_ips example_two ! 0) = 0"
  using registered_ids [OF example_two_registered] by (simp add: example_two_def example_block_def)

end
