(* ===== verification/End_To_End.thy ===== *)
theory End_To_End
  imports Router_Properties
begin

text \<open>
  A request of a master from its call to its future: the C++ bridge of the master, the router, the C++
  bridge of the slave, and the way back. The messages are passed on by hand: what one side has put on
  its socket is what the router is given, and what the router puts into the channel of a client is what
  arrives at that client's bridge.
\<close>

section \<open>One turn of the writer\<close>

text \<open>The writer is notified, pops an element, prepares it and sends it.\<close>

definition writer_turn :: "lib \<Rightarrow> 'w bridge \<Rightarrow> 'w bridge outcome" where
  "writer_turn L b =
     bind_outcome (Bridge_writer L (b\<lparr>br_queue := q_notify_one (br_queue b)\<rparr>)) (\<lambda>b1.
       bind_outcome (Bridge_writer L b1) (Bridge_writer L))"

text \<open>A bridge whose threads run and that has nothing to send.\<close>

definition idle :: "'w bridge \<Rightarrow> bool" where
  "idle b \<longleftrightarrow> c_state (br_client b) = STARTED \<and> c_sock (br_client b) \<noteq> -1
     \<and> wr_script (c_out (br_client b)) = [] \<and> br_writer b = Writer_Pop
     \<and> q_items (br_queue b) = [] \<and> \<not> q_done (br_queue b)"

definition sent_on :: "lib \<Rightarrow> wire_Message \<Rightarrow> client \<Rightarrow> client" where
  "sent_on L m c = c\<lparr>c_out := (c_out c)\<lparr>wr_sent := wr_sent (c_out c) @ frame (lib_encode L m)\<rparr>\<rparr>"

lemma sent_on_simps [simp]:
  "c_state (sent_on L m c) = c_state c" "c_sock (sent_on L m c) = c_sock c"
  "incoming L (sent_on L m c) ms = incoming L c ms"
  "wr_sent (c_out (sent_on L m c)) = wr_sent (c_out c) @ frame (lib_encode L m)"
  "wr_script (c_out (sent_on L m c)) = wr_script (c_out c)"
  by (simp_all add: sent_on_def)

lemma break_promises_Nil [simp]: "break_promises [] fs = fs"
  by (simp add: break_promises_def map_nth)

text \<open>Whatever state the consumer was in, a pushed element is popped after its notification.\<close>

lemma q_pop_pushed:
  assumes "q_items q = []" "\<not> q_done q"
  obtains q' where "q_pop (q_notify_one (q_push t q)) = (Got t, q')" "q_items q' = []" "\<not> q_done q'"
  using assms by (cases "q_popper q")
    (auto simp: q_pop_def q_take_def q_push_def q_notify_one_def intro: that)

lemma idle_send:
  assumes "idle b" "wire_of_TransactionType (txn_type txn) = Some ty"
  shows "RouterClient_sendTransaction L txn (br_client b)
    = (sent_on L (Transaction_message txn ty) (br_client b), status_ok)"
  using assms by (simp add: idle_def RouterClient_sendTransaction_def client_write_accepting sent_on_def)

text \<open>The entry of a master after its next request has got its identifier.\<close>

definition with_next_id :: "Txn \<Rightarrow> MasterMd \<Rightarrow> Txn" where
  "with_next_id t md = t\<lparr>tx_txn := (tx_txn t)\<lparr>txn_id := md_lastTxnId md\<rparr>\<rparr>"

definition file_request :: "Txn \<Rightarrow> MasterMd \<Rightarrow> MasterMd" where
  "file_request t md = md\<lparr>md_lastTxnId := md_lastTxnId md + 1,
     md_txns := AList.update (md_lastTxnId md) (with_next_id t md) (md_txns md)\<rparr>"

lemma writer_turn_request:
  assumes idle: "idle b" and t: "tx_type t = TRANSACTION" "txn_type (tx_txn t) = READ_REQ \<or> txn_type (tx_txn t) = WRITE_REQ"
    "wire_of_TransactionType (txn_type (tx_txn t)) = Some ty"
    and md: "map_of (br_masterMap b) (txn_initiator (tx_txn t)) = Some md"
      "map_of (md_txns md) (md_lastTxnId md) = None"
  obtains q where "q_items q = []" "\<not> q_done q"
    "writer_turn L (push_txn t b) = Ret (b\<lparr>br_queue := q,
       br_client := sent_on L (Transaction_message (tx_txn (with_next_id t md)) ty) (br_client b),
       br_masterMap := AList.update (txn_initiator (tx_txn t)) (file_request t md) (br_masterMap b)\<rparr>)"
proof -
  let ?n = "md_lastTxnId md" and ?i = "txn_initiator (tx_txn t)" and ?txn = "tx_txn (with_next_id t md)"
  let ?mm = "AList.update ?i (file_request t md) (br_masterMap b)"
  obtain q where q: "q_pop (q_notify_one (q_push t (br_queue b))) = (Got t, q)" "q_items q = []" "\<not> q_done q"
    using idle q_pop_pushed unfolding idle_def by metis
  have w: "br_writer b = Writer_Pop"
    using idle by (simp add: idle_def)
  have pop: "Bridge_writer L ((push_txn t b)\<lparr>br_queue := q_notify_one (q_push t (br_queue b))\<rparr>)
      = Ret (b\<lparr>br_queue := q, br_writer := Writer_Popped t\<rparr>)"
    using w q(1) by (simp add: Bridge_writer_def push_txn_def Let_def)
  have assign: "Bridge_writer L (b\<lparr>br_queue := q, br_writer := Writer_Popped t\<rparr>)
      = Ret (b\<lparr>br_queue := q, br_masterMap := ?mm, br_writer := Writer_Send ?txn (Some (?i, ?n))\<rparr>)"
    using t(1,2) md by (auto simp: Bridge_writer_def assign_id_def Let_def masterMap_at_def set_masterMap_def
        file_request_def with_next_id_def)
  have send: "Bridge_writer L (b\<lparr>br_queue := q, br_masterMap := ?mm, br_writer := Writer_Send ?txn (Some (?i, ?n))\<rparr>)
      = Ret (b\<lparr>br_queue := q, br_client := sent_on L (Transaction_message ?txn ty) (br_client b), br_masterMap := ?mm\<rparr>)"
    using idle_send [OF idle, of ?txn ty L] t(3) w
    by (simp add: Bridge_writer_def writer_send_def masterMap_at_def AList.update_conv' file_request_def with_next_id_def Let_def)
  show ?thesis
    using q(2,3) by (rule that) (simp add: writer_turn_def pop assign send)
qed

lemma writer_turn_response:
  assumes idle: "idle b" and t: "tx_type t = TRANSACTION" "txn_type (tx_txn t) = READ_RESP \<or> txn_type (tx_txn t) = WRITE_RESP"
    "wire_of_TransactionType (txn_type (tx_txn t)) = Some ty"
  obtains q where "q_items q = []" "\<not> q_done q"
    "writer_turn L (push_txn t b) = Ret (b\<lparr>br_queue := q,
       br_client := sent_on L (Transaction_message (tx_txn t) ty) (br_client b)\<rparr>)"
proof -
  obtain q where q: "q_pop (q_notify_one (q_push t (br_queue b))) = (Got t, q)" "q_items q = []" "\<not> q_done q"
    using idle q_pop_pushed unfolding idle_def by metis
  have w: "br_writer b = Writer_Pop"
    using idle by (simp add: idle_def)
  have pop: "Bridge_writer L ((push_txn t b)\<lparr>br_queue := q_notify_one (q_push t (br_queue b))\<rparr>)
      = Ret (b\<lparr>br_queue := q, br_writer := Writer_Popped t\<rparr>)"
    using w q(1) by (simp add: Bridge_writer_def push_txn_def Let_def)
  have prepare: "Bridge_writer L (b\<lparr>br_queue := q, br_writer := Writer_Popped t\<rparr>)
      = Ret (b\<lparr>br_queue := q, br_writer := Writer_Send (tx_txn t) None\<rparr>)"
    using t(1,2) by (auto simp: Bridge_writer_def)
  have send: "Bridge_writer L (b\<lparr>br_queue := q, br_writer := Writer_Send (tx_txn t) None\<rparr>)
      = Ret (b\<lparr>br_queue := q, br_client := sent_on L (Transaction_message (tx_txn t) ty) (br_client b)\<rparr>)"
    using idle_send [OF idle t(3), of L] w by (simp add: Bridge_writer_def writer_send_def Let_def)
  show ?thesis
    using q(2,3) by (rule that) (simp add: writer_turn_def pop prepare send)
qed

section \<open>The stages of a request\<close>

lemma Transaction_message_target:
  "(Transaction_message txn ty)\<lparr>wm_txn := map_option (\<lambda>w. w\<lparr>wt_target := i\<rparr>) (wm_txn (Transaction_message txn ty))\<rparr>
   = Transaction_message (txn\<lparr>txn_target := i\<rparr>) ty"
  by (simp add: Transaction_message_def)

lemma route_request:
  assumes "wire_of_TransactionType (txn_type txn) = Some ty" "txn_type txn = READ_REQ \<or> txn_type txn = WRITE_REQ"
    and "findTarget order (txn_address txn) (txn_size txn) r = Inr (i, c)" "unat c < length (r_clients r)"
    and "\<forall>w. wm_txn (Transaction_message txn ty) = Some w \<longrightarrow> mutate i w = w\<lparr>wt_target := slave\<rparr>"
  shows "route order mutate (Transaction_message txn ty) r
    = Ret (r, [(c, Transaction_message (txn\<lparr>txn_target := slave\<rparr>) ty)], True)"
proof -
  have "ty = 0 \<or> ty = 1"
    using assms(1,2) by auto
  then show ?thesis
    using assms(3-5) by (auto simp: route_def Transaction_message_def new_Message_def go_index_def)
qed

lemma route_response:
  assumes "wire_of_TransactionType (txn_type txn) = Some ty" "txn_type txn = READ_RESP \<or> txn_type txn = WRITE_RESP"
    and "unat (txn_initiator txn) < length (r_ips r)"
    and "unat (ii_client (r_ips r ! unat (txn_initiator txn))) < length (r_clients r)"
  shows "route order mutate (Transaction_message txn ty) r
    = Ret (r, [(ii_client (r_ips r ! unat (txn_initiator txn)), Transaction_message txn ty)], True)"
proof -
  have "ty = 2 \<or> ty = 3"
    using assms(1,2) by auto
  then show ?thesis
    using assms(3,4) by (auto simp: route_def Transaction_message_def new_Message_def client_of_ip_def go_index_def)
qed

text \<open>What the slave does with a request, and the response the bridge of the slave makes of that.\<close>

definition handled :: "'w slaves \<Rightarrow> nat \<Rightarrow> Transaction \<Rightarrow> 'w \<Rightarrow> int \<times> u8 list \<times> 'w" where
  "handled S s txn w =
     (if txn_type txn = WRITE_REQ
      then (let (ret, w') = handleWrite S s (txn_size txn) (txn_address txn) (txn_data txn) w in (ret, [], w'))
      else handleRead S s (txn_size txn) (txn_address txn) (replicate (unat (txn_size txn)) 0) w)"

definition response_to :: "Transaction \<Rightarrow> int \<Rightarrow> u8 list \<Rightarrow> Transaction" where
  "response_to txn ret data =
     \<lparr>txn_type = (if txn_type txn = WRITE_REQ then WRITE_RESP else READ_RESP),
      txn_initiator = txn_initiator txn, txn_target = txn_target txn, txn_id = txn_id txn,
      txn_address = txn_address txn, txn_size = txn_size txn,
      txn_data = (if ret = 0 then data else []), txn_ok = (ret = 0),
      txn_message = (if ret = 0 then '''' else ''Slave operation failed'')\<rparr>"

lemma response_to_simps [simp]:
  "txn_type (response_to txn ret data) = READ_RESP \<or> txn_type (response_to txn ret data) = WRITE_RESP"
  "txn_initiator (response_to txn ret data) = txn_initiator txn" "txn_id (response_to txn ret data) = txn_id txn"
  "txn_ok (response_to txn ret data) \<longleftrightarrow> ret = 0"
  "wire_of_TransactionType (txn_type (response_to txn ret data)) = Some (if txn_type txn = WRITE_REQ then 3 else 2)"
  by (simp_all add: response_to_def)

lemma reader_serves:
  assumes "RouterClient_receiveTransaction L (br_client b) = Ret (c, Some txn, status_ok)"
    and "txn_type txn = READ_REQ \<or> txn_type txn = WRITE_REQ"
    and "map_of (br_slaveMap b) (txn_target txn) = Some (Some s)" "s \<notin> set (br_deleted b)"
    and "handled S s txn (br_world b) = (ret, data, w)"
    and "txn_type txn = READ_REQ \<longrightarrow> unat (txn_size txn) \<le> vector_max_size \<and> length data = unat (txn_size txn)"
  shows "Bridge_reader L S b = Ret (push_txn \<lparr>tx_type = TRANSACTION, tx_buffer = None,
    tx_txn = response_to txn ret data, tx_promise = None\<rparr> (b\<lparr>br_client := c, br_world := w\<rparr>))"
proof (cases "txn_type txn = WRITE_REQ")
  case True
  obtain r w' where h: "handleWrite S s (txn_size txn) (txn_address txn) (txn_data txn) (br_world b) = (r, w')"
    by fastforce
  then have eq: "ret = r" "data = []" "w = w'"
    using assms(5) True by (simp_all add: handled_def)
  show ?thesis
    using assms(1,3,4) True h
    by (cases "r = 0") (simp_all add: Bridge_reader_def reader_request_def Let_def new_Transaction_def response_to_def eq)
next
  case False
  then have ty: "txn_type txn = READ_REQ"
    using assms(2) by simp
  then have h: "handleRead S s (txn_size txn) (txn_address txn) (replicate (unat (txn_size txn)) 0) (br_world b)
      = (ret, data, w)"
    using assms(5) by (simp add: handled_def)
  show ?thesis
    using assms(1,3,4,6) ty h
    by (cases "ret = 0") (simp_all add: Bridge_reader_def reader_request_def Let_def new_Transaction_def response_to_def)
qed

text \<open>The three places a response leaves its mark in: the memory, the future and the master map.\<close>

definition completed :: "u64 \<Rightarrow> MasterMd \<Rightarrow> u64 \<Rightarrow> nat \<Rightarrow> Status \<Rightarrow> memory \<Rightarrow> 'w bridge \<Rightarrow> 'w bridge" where
  "completed i md n f st mem b =
     b\<lparr>br_masterMap := AList.update i (md\<lparr>md_txns := AList.delete n (md_txns md)\<rparr>) (br_masterMap b),
       br_mem := mem, br_futures := (br_futures b)[f := Ready st]\<rparr>"

lemma reader_completes:
  assumes "RouterClient_receiveTransaction L (br_client b) = Ret (c, Some txn, status_ok)"
    and "txn_type txn = READ_RESP \<or> txn_type txn = WRITE_RESP"
    and "map_of (br_masterMap b) (txn_initiator txn) = Some md"
    and "map_of (md_txns md) (txn_id txn) = Some t" "tx_promise t = Some f"
    and "(if txn_type txn = READ_RESP \<and> txn_ok txn then store_bytes (br_mem b) (tx_buffer t) (txn_data txn)
      else Ret (br_mem b)) = Ret mem"
  shows "Bridge_reader L S b = Ret (completed (txn_initiator txn) md (txn_id txn) f
    (if txn_ok txn then status_ok else mk_status 1 (txn_message txn)) mem (b\<lparr>br_client := c\<rparr>))"
proof -
  have "reader_response txn (b\<lparr>br_client := c\<rparr>) = Ret (completed (txn_initiator txn) md (txn_id txn) f
      (if txn_ok txn then status_ok else mk_status 1 (txn_message txn)) mem (b\<lparr>br_client := c\<rparr>))"
    using assms(6) by (simp add: reader_response_def assms(3-5) Let_def fulfil_def completed_def set_masterMap_def
        cong: if_cong split del: if_split)
  then show ?thesis
    by (simp add: Bridge_reader_def assms(1,2) split del: if_split)
qed

section \<open>The round trip\<close>

lemma idle_fields [simp]:
  "idle (b\<lparr>br_futures := fs\<rparr>) = idle b" "idle (b\<lparr>br_mem := mem\<rparr>) = idle b"
  "idle (b\<lparr>br_masterMap := mm\<rparr>) = idle b" "idle (b\<lparr>br_world := w\<rparr>) = idle b"
  by (simp_all add: idle_def)

lemma idle_sent:
  assumes "idle b" "q_items q = []" "\<not> q_done q"
  shows "idle (b\<lparr>br_queue := q, br_client := sent_on L m (br_client b)\<rparr>)"
  using assms by (simp add: idle_def)

lemma idle_read: "idle (b\<lparr>br_client := c\<lparr>c_in := k\<rparr>\<rparr>) = idle (b\<lparr>br_client := c\<rparr>)"
  by (simp add: idle_def)

lemma receive_idle:
  assumes "codec L" "idle b" "wire_of_TransactionType (txn_type txn) = Some ty"
    and "incoming L (br_client b) (Transaction_message txn ty # ms)"
  obtains k where "RouterClient_receiveTransaction L (br_client b) = Ret ((br_client b)\<lparr>c_in := k\<rparr>, Some txn, status_ok)"
    "incoming L ((br_client b)\<lparr>c_in := k\<rparr>) ms"
proof -
  have "c_state (br_client b) = STARTED" "c_sock (br_client b) \<noteq> -1"
    using assms(2) by (simp_all add: idle_def)
  from assms(1) this assms(3,4) show ?thesis
    by (rule receiveTransaction_incoming) (rule that)
qed

text \<open>At the bridge of the slave: one round of the reader, one turn of the writer.\<close>

lemma slave_side:
  assumes L: "codec L" and B: "idle B" "map_of (br_slaveMap B) (txn_target txn) = Some (Some s)" "s \<notin> set (br_deleted B)"
    and txn: "txn_type txn = READ_REQ \<or> txn_type txn = WRITE_REQ" "wire_of_TransactionType (txn_type txn) = Some ty"
    and h: "handled S s txn (br_world B) = (ret, data, w)"
      "txn_type txn = READ_REQ \<longrightarrow> unat (txn_size txn) \<le> vector_max_size \<and> length data = unat (txn_size txn)"
    and inc: "incoming L (br_client B) (Transaction_message txn ty # ms)"
  shows "\<exists>B1 B2. Bridge_reader L S B = Ret B1 \<and> writer_turn L B1 = Ret B2 \<and> idle B2 \<and> br_world B2 = w
    \<and> incoming L (br_client B2) ms
    \<and> wr_sent (c_out (br_client B2)) = wr_sent (c_out (br_client B)) @ frame (lib_encode L
        (Transaction_message (response_to txn ret data) (if txn_type txn = WRITE_REQ then 3 else 2)))"
proof -
  let ?resp = "response_to txn ret data" and ?ty = "if txn_type txn = WRITE_REQ then 3 else 2"
  let ?t = "\<lparr>tx_type = TRANSACTION, tx_buffer = None, tx_txn = ?resp, tx_promise = None\<rparr>"
  obtain k where k: "RouterClient_receiveTransaction L (br_client B) = Ret ((br_client B)\<lparr>c_in := k\<rparr>, Some txn, status_ok)"
    "incoming L ((br_client B)\<lparr>c_in := k\<rparr>) ms"
    using L B(1) txn(2) inc by (rule receive_idle)
  let ?b = "B\<lparr>br_client := (br_client B)\<lparr>c_in := k\<rparr>, br_world := w\<rparr>"
  have r: "Bridge_reader L S B = Ret (push_txn ?t ?b)"
    by (rule reader_serves [OF k(1) txn(1) B(2,3) h])
  have b: "idle ?b"
    using B(1) by (simp add: idle_def)
  have t: "tx_type ?t = TRANSACTION" "txn_type (tx_txn ?t) = READ_RESP \<or> txn_type (tx_txn ?t) = WRITE_RESP"
    "wire_of_TransactionType (txn_type (tx_txn ?t)) = Some ?ty"
    by simp_all
  obtain q where q: "q_items q = []" "\<not> q_done q" "writer_turn L (push_txn ?t ?b) = Ret (?b\<lparr>br_queue := q,
      br_client := sent_on L (Transaction_message (tx_txn ?t) ?ty) (br_client ?b)\<rparr>)" (is "_ = Ret ?b2")
    by (rule writer_turn_response [OF b t, of L])
  have "idle ?b2"
    by (rule idle_sent [OF b q(1,2)])
  moreover have "br_world ?b2 = w" "incoming L (br_client ?b2) ms"
    "wr_sent (c_out (br_client ?b2)) = wr_sent (c_out (br_client B)) @ frame (lib_encode L (Transaction_message ?resp ?ty))"
    using k(2) by (simp_all del: framed.simps)
  ultimately show ?thesis
    using r q(3) by blast
qed

text \<open>At the bridge of the master, after its request has been sent: one round of the reader.\<close>

lemma master_side:
  assumes L: "codec L" and b: "idle b" "map_of (br_masterMap b) (txn_initiator txn) = Some md"
      "map_of (md_txns md) (txn_id txn) = Some t" "tx_promise t = Some f"
    and txn: "txn_type txn = READ_RESP \<or> txn_type txn = WRITE_RESP" "wire_of_TransactionType (txn_type txn) = Some ty"
    and mem: "(if txn_type txn = READ_RESP \<and> txn_ok txn then store_bytes (br_mem b) (tx_buffer t) (txn_data txn)
      else Ret (br_mem b)) = Ret mem"
    and inc: "incoming L (br_client b) (Transaction_message txn ty # ms)"
  shows "\<exists>b'. Bridge_reader L S b = Ret b' \<and> idle b' \<and> incoming L (br_client b') ms \<and> br_mem b' = mem
    \<and> br_futures b' = (br_futures b)[f := Ready (if txn_ok txn then status_ok else mk_status 1 (txn_message txn))]
    \<and> map_of (md_txns (masterMap_at (txn_initiator txn) b')) = (map_of (md_txns md))(txn_id txn := None)"
proof -
  obtain k where k: "RouterClient_receiveTransaction L (br_client b) = Ret ((br_client b)\<lparr>c_in := k\<rparr>, Some txn, status_ok)"
    "incoming L ((br_client b)\<lparr>c_in := k\<rparr>) ms"
    using L b(1) txn(2) inc by (rule receive_idle)
  have "idle (b\<lparr>br_client := (br_client b)\<lparr>c_in := k\<rparr>\<rparr>)"
    using b(1) by (simp add: idle_def)
  then show ?thesis
    using k(2) by (simp add: reader_completes [OF k(1) txn(1) b(2-4) mem] completed_def masterMap_at_def
        AList.update_conv' AList.delete_conv' del: framed.simps)
qed

lemma request_round_trip:
  assumes L: "codec L" and A: "idle A" "map_of (br_masterMap A) (txn_initiator (tx_txn t)) = Some md"
      "map_of (md_txns md) (md_lastTxnId md) = None"
    and t: "tx_type t = TRANSACTION" "txn_type (tx_txn t) = READ_REQ \<or> txn_type (tx_txn t) = WRITE_REQ" "tx_promise t = Some f"
      "wire_of_TransactionType (txn_type (tx_txn t)) = Some ty"
    and r: "findTarget order (txn_address (tx_txn t)) (txn_size (tx_txn t)) r = Inr (i, cB)"
      "unat cB < length (r_clients r)" "unat (txn_initiator (tx_txn t)) < length (r_ips r)"
      "unat (ii_client (r_ips r ! unat (txn_initiator (tx_txn t)))) < length (r_clients r)"
      "\<forall>w. wm_txn m1 = Some w \<longrightarrow> mutate i w = w\<lparr>wt_target := slave\<rparr>"
    and B: "idle B" "map_of (br_slaveMap B) slave = Some (Some s)" "s \<notin> set (br_deleted B)"
    and h: "handled S s (tx_txn t) (br_world B) = (ret, data, w)"
      "txn_type (tx_txn t) = READ_REQ \<longrightarrow> unat (txn_size (tx_txn t)) \<le> vector_max_size \<and> length data = unat (txn_size (tx_txn t))"
    and mem: "(if txn_type (tx_txn t) = READ_REQ \<and> ret = 0 then store_bytes (br_mem A) (tx_buffer t) data
      else Ret (br_mem A)) = Ret mem"
    and m1: "m1 = Transaction_message (tx_txn (with_next_id t md)) ty"
    and m2: "m2 = Transaction_message ((tx_txn (with_next_id t md))\<lparr>txn_target := slave\<rparr>) ty"
    and m3: "m3 = Transaction_message (response_to ((tx_txn (with_next_id t md))\<lparr>txn_target := slave\<rparr>) ret data)
      (if txn_type (tx_txn t) = WRITE_REQ then 3 else 2)"
  shows "\<exists>A1. writer_turn L (push_txn t A) = Ret A1
    \<and> wr_sent (c_out (br_client A1)) = wr_sent (c_out (br_client A)) @ frame (lib_encode L m1)
    \<and> route order mutate m1 r = Ret (r, [(cB, m2)], True)
    \<and> (\<forall>ms. incoming L (br_client B) (m2 # ms) \<longrightarrow> (\<exists>B1 B2. Bridge_reader L S B = Ret B1
        \<and> writer_turn L B1 = Ret B2 \<and> idle B2 \<and> br_world B2 = w \<and> incoming L (br_client B2) ms
        \<and> wr_sent (c_out (br_client B2)) = wr_sent (c_out (br_client B)) @ frame (lib_encode L m3)))
    \<and> route order mutate m3 r = Ret (r, [(ii_client (r_ips r ! unat (txn_initiator (tx_txn t))), m3)], True)
    \<and> (\<forall>ms. incoming L (br_client A) (m3 # ms) \<longrightarrow> (\<exists>A2. Bridge_reader L SA A1 = Ret A2 \<and> idle A2
        \<and> incoming L (br_client A2) ms \<and> br_mem A2 = mem
        \<and> br_futures A2 = (br_futures A)[f := Ready (if ret = 0 then status_ok else mk_status 1 ''Slave operation failed'')]
        \<and> map_of (md_txns (masterMap_at (txn_initiator (tx_txn t)) A2)) = map_of (md_txns md)))"
proof -
  let ?n = "md_lastTxnId md" and ?i = "txn_initiator (tx_txn t)" and ?txn = "tx_txn (with_next_id t md)"
  let ?req = "?txn\<lparr>txn_target := slave\<rparr>"
  let ?resp = "response_to ?req ret data" and ?ty = "if txn_type ?req = WRITE_REQ then 3 else 2"
  note ty = t(4)
  have filed: "txn_type ?txn = txn_type (tx_txn t)" "txn_initiator ?txn = ?i" "txn_id ?txn = ?n"
    "txn_size ?txn = txn_size (tx_txn t)" "txn_address ?txn = txn_address (tx_txn t)"
    "txn_data ?txn = txn_data (tx_txn t)"
    "tx_promise (with_next_id t md) = tx_promise t" "tx_buffer (with_next_id t md) = tx_buffer t"
    by (simp_all add: with_next_id_def)
  have m3: "m3 = Transaction_message ?resp ?ty"
    using m3 by (simp add: filed)
  obtain q where q: "q_items q = []" "\<not> q_done q" "writer_turn L (push_txn t A) = Ret (A\<lparr>br_queue := q,
      br_client := sent_on L m1 (br_client A), br_masterMap := AList.update ?i (file_request t md) (br_masterMap A)\<rparr>)"
    unfolding m1 by (rule writer_turn_request [OF A(1) t(1,2) ty A(2,3), of L])
  define A1 where "A1 = A\<lparr>br_queue := q, br_client := sent_on L m1 (br_client A),
      br_masterMap := AList.update ?i (file_request t md) (br_masterMap A)\<rparr>"
  have A1: "idle A1" "map_of (br_masterMap A1) ?i = Some (file_request t md)"
    "map_of (md_txns (file_request t md)) ?n = Some (with_next_id t md)"
    using idle_sent [OF A(1) q(1,2), of L m1] by (simp_all add: A1_def AList.update_conv' file_request_def)
  have A1_futures: "br_futures A1 = br_futures A"
    by (simp add: A1_def)
  have there: "route order mutate m1 r = Ret (r, [(cB, m2)], True)"
    unfolding m1 m2 by (rule route_request) (use ty t(2) r [unfolded m1] in \<open>simp_all add: filed\<close>)
  have returns: "route order mutate m3 r = Ret (r, [(ii_client (r_ips r ! unat ?i), m3)], True)"
    unfolding m3 using route_response [of ?resp ?ty r order mutate] r(3,4) by (simp add: filed)
  have same: "handled S s ?req = handled S s (tx_txn t)"
    by (rule ext) (simp add: handled_def filed)
  have slave: "\<exists>B1 B2. Bridge_reader L S B = Ret B1 \<and> writer_turn L B1 = Ret B2 \<and> idle B2 \<and> br_world B2 = w
      \<and> incoming L (br_client B2) ms
      \<and> wr_sent (c_out (br_client B2)) = wr_sent (c_out (br_client B)) @ frame (lib_encode L m3)"
    if "incoming L (br_client B) (m2 # ms)" for ms
    unfolding m3 by (rule slave_side [OF L B(1) _ B(3) _ _ _ _ that [unfolded m2]]) (use B(2) t(2) ty h same in \<open>simp_all add: filed\<close>)
  have master: "\<exists>A2. Bridge_reader L SA A1 = Ret A2 \<and> idle A2 \<and> incoming L (br_client A2) ms \<and> br_mem A2 = mem
      \<and> br_futures A2 = (br_futures A)[f := Ready (if ret = 0 then status_ok else mk_status 1 ''Slave operation failed'')]
      \<and> map_of (md_txns (masterMap_at ?i A2)) = map_of (md_txns md)"
    if arrives: "incoming L (br_client A) (m3 # ms)" for ms
  proof -
    have inc: "incoming L (br_client A1) (m3 # ms)"
      using arrives by (simp add: A1_def del: framed.simps)
    have store: "(if txn_type ?resp = READ_RESP \<and> txn_ok ?resp
        then store_bytes (br_mem A1) (tx_buffer (with_next_id t md)) (txn_data ?resp) else Ret (br_mem A1)) = Ret mem"
      using mem t(2) by (auto simp: A1_def filed response_to_def)
    have st: "(if txn_ok ?resp then status_ok else mk_status 1 (txn_message ?resp))
        = (if ret = 0 then status_ok else mk_status 1 ''Slave operation failed'')"
      by (simp add: response_to_def)
    have txns: "(map_of (md_txns (file_request t md)))(?n := None) = map_of (md_txns md)"
      using A(3) by (auto simp: file_request_def AList.update_conv')
    have "map_of (br_masterMap A1) (txn_initiator ?resp) = Some (file_request t md)"
      "map_of (md_txns (file_request t md)) (txn_id ?resp) = Some (with_next_id t md)" "tx_promise (with_next_id t md) = Some f"
      using A1(2,3) t(3) by (simp_all add: filed)
    from master_side [OF L A1(1) this response_to_simps(1,5) store inc [unfolded m3], of SA] show ?thesis
      unfolding st by (simp add: filed txns A1_futures del: framed.simps)
  qed
  have sent: "wr_sent (c_out (br_client A1)) = wr_sent (c_out (br_client A)) @ frame (lib_encode L m1)"
    by (simp add: A1_def)
  show ?thesis
    by (rule exI [of _ A1], intro conjI allI impI)
      (rule q(3) [folded A1_def] sent there returns | erule slave | erule master)+
qed

section \<open>Reads and writes, from the call to the future\<close>

text \<open>
  C11: a read, from the call of the master to its future. \<^verbatim>\<open>MutateTarget\<close> leaves a target that is absent as it is, which
  is what the generated code does. The master's bridge sends a request that the router passes on as it is to
  the client its map names for the block; whichever block that is, the bridge of that client serves the request
  from its slave number 0, if it has one: it runs the read handler of that slave at the address and with the size
  of the request and sends back one response, which the router passes to the client of the master. There the
  future of this read becomes ready, last of all futures: with OK and the bytes of the handler in the buffer of
  the read, or with the failure and the buffer untouched. All threads are idle again, and nothing else has
  happened to the memory.
\<close>

theorem read_end_to_end:
  assumes L: "codec L" and A: "idle A" "map_of (br_masterMap A) m = Some md"
      "map_of (md_txns md) (md_lastTxnId md) = None"
    and buffer: "bf_data buffer = Some a" "br_mem A a = Some old" "length old = unat (bf_size buffer)"
    and call: "Master_read m buffer A = (A0, f)"
    and r: "findTarget order (bf_address buffer) (bf_size buffer) r = Inr (i, cB)"
      "unat cB < length (r_clients r)" "unat m < length (r_ips r)"
      "unat (ii_client (r_ips r ! unat m)) < length (r_clients r)"
    and absent: "\<forall>i w. wt_target w = 0 \<longrightarrow> mutate i w = w"
    and B: "idle B" "map_of (br_slaveMap B) 0 = Some (Some s)" "s \<notin> set (br_deleted B)"
    and h: "handleRead S s (bf_size buffer) (bf_address buffer) (replicate (unat (bf_size buffer)) 0) (br_world B)
        = (ret, data, w)" "length data = unat (bf_size buffer)" "unat (bf_size buffer) \<le> vector_max_size"
    and req: "req = (new_Transaction True)\<lparr>txn_type := READ_REQ, txn_initiator := m, txn_id := md_lastTxnId md,
      txn_address := bf_address buffer, txn_size := bf_size buffer\<rparr>"
    and m1: "m1 = Transaction_message req 0"
    and m3: "m3 = Transaction_message (response_to req ret data) 2"
  shows "\<exists>A1. writer_turn L A0 = Ret A1
    \<and> wr_sent (c_out (br_client A1)) = wr_sent (c_out (br_client A)) @ frame (lib_encode L m1)
    \<and> route order mutate m1 r = Ret (r, [(cB, m1)], True)
    \<and> (\<forall>ms. incoming L (br_client B) (m1 # ms) \<longrightarrow> (\<exists>B1 B2. Bridge_reader L S B = Ret B1
        \<and> writer_turn L B1 = Ret B2 \<and> idle B2 \<and> br_world B2 = w \<and> incoming L (br_client B2) ms
        \<and> wr_sent (c_out (br_client B2)) = wr_sent (c_out (br_client B)) @ frame (lib_encode L m3)))
    \<and> route order mutate m3 r = Ret (r, [(ii_client (r_ips r ! unat m), m3)], True)
    \<and> (\<forall>ms. incoming L (br_client A) (m3 # ms) \<longrightarrow> (\<exists>A2. Bridge_reader L SA A1 = Ret A2 \<and> idle A2
        \<and> incoming L (br_client A2) ms
        \<and> br_mem A2 = (if ret = 0 then (br_mem A)(a \<mapsto> data) else br_mem A)
        \<and> br_futures A2 = br_futures A @ [Ready (if ret = 0 then status_ok else mk_status 1 ''Slave operation failed'')]
        \<and> map_of (md_txns (masterMap_at m A2)) = map_of (md_txns md)))"
proof -
  let ?A = "A\<lparr>br_futures := br_futures A @ [Pending]\<rparr>"
  define t where "t = \<lparr>tx_type = TRANSACTION, tx_buffer = Some a,
    tx_txn = (new_Transaction True)\<lparr>txn_type := READ_REQ, txn_initiator := m,
      txn_address := bf_address buffer, txn_size := bf_size buffer\<rparr>, tx_promise = Some (length (br_futures A))\<rparr>"
  have t: "tx_type t = TRANSACTION" "txn_type (tx_txn t) = READ_REQ" "tx_promise t = Some (length (br_futures A))"
    "txn_initiator (tx_txn t) = m" "txn_address (tx_txn t) = bf_address buffer" "txn_size (tx_txn t) = bf_size buffer"
    "tx_buffer t = Some a"
    by (simp_all add: t_def)
  have A0: "A0 = push_txn t ?A"
    using call buffer(1) by (auto simp: Master_read_def get_future_def t_def Let_def)
  have hd: "handled S s (tx_txn t) (br_world B) = (ret, data, w)"
    using h(1) by (simp add: handled_def t)
  have mem: "(if txn_type (tx_txn t) = READ_REQ \<and> ret = 0 then store_bytes (br_mem ?A) (tx_buffer t) data
      else Ret (br_mem ?A)) = Ret (if ret = 0 then (br_mem A)(a \<mapsto> data) else br_mem A)"
    using buffer(2,3) h(2) by (auto simp: t store_bytes_def overwrite_def map_upd_triv)
  have filed: "tx_txn (with_next_id t md) = req"
    by (simp add: with_next_id_def t_def req new_Transaction_def)
  have same: "req\<lparr>txn_target := 0\<rparr> = req"
    by (simp add: req new_Transaction_def)
  have mutate: "\<forall>w. wm_txn m1 = Some w \<longrightarrow> mutate i w = w\<lparr>wt_target := 0\<rparr>"
    using absent by (simp add: m1 req Transaction_message_def new_Transaction_def)
  have A': "idle ?A" "map_of (br_masterMap ?A) (txn_initiator (tx_txn t)) = Some md"
    using A by (simp_all add: t)
  show ?thesis
    using request_round_trip [OF L A' A(3) t(1) _ t(3), of 0 order r i cB m1 mutate 0 B s S ret data w
        "if ret = 0 then (br_mem A)(a \<mapsto> data) else br_mem A" m1 m3 SA] r mutate B hd mem h(2,3)
      m1 m3 by (simp add: t A0 filed same list_update_append del: framed.simps)
qed

text \<open>
  A write, from the call of the master to its future: the handler of the slave gets exactly the
  bytes that were in the buffer at the time of the call, at the address and with the size of the
  buffer, and the future becomes ready with OK or the failure. It is slave number 0 again.
\<close>

theorem write_end_to_end:
  assumes L: "codec L" and A: "idle A" "map_of (br_masterMap A) m = Some md"
      "map_of (md_txns md) (md_lastTxnId md) = None"
    and buffer: "bf_data buffer = Some a" "br_mem A a = Some bytes" "length bytes = unat (bf_size buffer)"
    and call: "Master_write m buffer A = Ret (A0, f)"
    and r: "findTarget order (bf_address buffer) (bf_size buffer) r = Inr (i, cB)"
      "unat cB < length (r_clients r)" "unat m < length (r_ips r)"
      "unat (ii_client (r_ips r ! unat m)) < length (r_clients r)"
    and absent: "\<forall>i w. wt_target w = 0 \<longrightarrow> mutate i w = w"
    and B: "idle B" "map_of (br_slaveMap B) 0 = Some (Some s)" "s \<notin> set (br_deleted B)"
    and h: "handleWrite S s (bf_size buffer) (bf_address buffer) bytes (br_world B) = (ret, w)"
    and req: "req = (new_Transaction True)\<lparr>txn_type := WRITE_REQ, txn_initiator := m, txn_id := md_lastTxnId md,
      txn_address := bf_address buffer, txn_size := bf_size buffer, txn_data := bytes\<rparr>"
    and m1: "m1 = Transaction_message req 1"
    and m3: "m3 = Transaction_message (response_to req ret []) 3"
  shows "\<exists>A1. writer_turn L A0 = Ret A1
    \<and> wr_sent (c_out (br_client A1)) = wr_sent (c_out (br_client A)) @ frame (lib_encode L m1)
    \<and> route order mutate m1 r = Ret (r, [(cB, m1)], True)
    \<and> (\<forall>ms. incoming L (br_client B) (m1 # ms) \<longrightarrow> (\<exists>B1 B2. Bridge_reader L S B = Ret B1
        \<and> writer_turn L B1 = Ret B2 \<and> idle B2 \<and> br_world B2 = w \<and> incoming L (br_client B2) ms
        \<and> wr_sent (c_out (br_client B2)) = wr_sent (c_out (br_client B)) @ frame (lib_encode L m3)))
    \<and> route order mutate m3 r = Ret (r, [(ii_client (r_ips r ! unat m), m3)], True)
    \<and> (\<forall>ms. incoming L (br_client A) (m3 # ms) \<longrightarrow> (\<exists>A2. Bridge_reader L SA A1 = Ret A2 \<and> idle A2
        \<and> incoming L (br_client A2) ms \<and> br_mem A2 = br_mem A
        \<and> br_futures A2 = br_futures A @ [Ready (if ret = 0 then status_ok else mk_status 1 ''Slave operation failed'')]
        \<and> map_of (md_txns (masterMap_at m A2)) = map_of (md_txns md)))"
proof -
  let ?A = "A\<lparr>br_futures := br_futures A @ [Pending]\<rparr>"
  define t where "t = \<lparr>tx_type = TRANSACTION, tx_buffer = None,
    tx_txn = (new_Transaction True)\<lparr>txn_type := WRITE_REQ, txn_initiator := m,
      txn_address := bf_address buffer, txn_size := bf_size buffer, txn_data := bytes\<rparr>,
    tx_promise = Some (length (br_futures A))\<rparr>"
  have t: "tx_type t = TRANSACTION" "txn_type (tx_txn t) = WRITE_REQ" "tx_promise t = Some (length (br_futures A))"
    "txn_initiator (tx_txn t) = m" "txn_address (tx_txn t) = bf_address buffer" "txn_size (tx_txn t) = bf_size buffer"
    "txn_data (tx_txn t) = bytes"
    by (simp_all add: t_def)
  have "load_bytes (br_mem A) (bf_data buffer) (unat (bf_size buffer)) = Ret bytes"
    using buffer by (auto simp: load_bytes_def)
  then have A0: "A0 = push_txn t ?A"
    using call by (auto simp: Master_write_def get_future_def t_def Let_def split: if_splits)
  have hd: "handled S s (tx_txn t) (br_world B) = (ret, [], w)"
    using h by (simp add: handled_def t)
  have filed: "tx_txn (with_next_id t md) = req"
    by (simp add: with_next_id_def t_def req new_Transaction_def)
  have same: "req\<lparr>txn_target := 0\<rparr> = req"
    by (simp add: req new_Transaction_def)
  have mutate: "\<forall>w. wm_txn m1 = Some w \<longrightarrow> mutate i w = w\<lparr>wt_target := 0\<rparr>"
    using absent by (simp add: m1 req Transaction_message_def new_Transaction_def)
  have A': "idle ?A" "map_of (br_masterMap ?A) (txn_initiator (tx_txn t)) = Some md"
    using A by (simp_all add: t)
  show ?thesis
    using request_round_trip [OF L A' A(3) t(1) _ t(3), of 1 order r i cB m1 mutate 0 B s S ret "[]" w "br_mem A" m1 m3 SA] r mutate B hd
      m1 m3 by (simp add: t A0 filed same list_update_append del: framed.simps)
qed

section \<open>Instances\<close>

text \<open>Master 1 and slave 0 of \<open>example_master\<close>, each in a bridge to which one message arrives.\<close>

definition example_master_bridge :: "wire_Message \<Rightarrow> nat bridge" where
  "example_master_bridge m = (example_bridge example_memory)\<lparr>br_client := example_client STARTED [m],
     br_masterMap := [(1, \<lparr>md_master = Some 1, md_txns = [], md_lastTxnId = 0\<rparr>)],
     br_reader := Reader_Running, br_writer := Writer_Pop\<rparr>"

definition example_slave_bridge :: "wire_Message \<Rightarrow> nat bridge" where
  "example_slave_bridge m = (example_bridge example_memory)\<lparr>br_client := example_client STARTED [m],
     br_slaveMap := [(0, Some 9)], br_reader := Reader_Running, br_writer := Writer_Pop\<rparr>"

lemma example_pair_simps:
  "idle (example_master_bridge m)" "idle (example_slave_bridge m)"
  "map_of (br_masterMap (example_master_bridge m)) 1 = Some \<lparr>md_master = Some 1, md_txns = [], md_lastTxnId = 0\<rparr>"
  "br_mem (example_master_bridge m) = example_memory" "br_futures (example_master_bridge m) = []"
  "map_of (br_slaveMap (example_slave_bridge m)) 0 = Some (Some 9)" "br_deleted (example_slave_bridge m) = []"
  "br_world (example_slave_bridge m) = 0"
  "br_client (example_master_bridge m) = example_client STARTED [m]"
  "br_client (example_slave_bridge m) = example_client STARTED [m]"
  by (simp_all add: idle_def example_master_bridge_def example_slave_bridge_def example_bridge_def
      new_Bridge_def q_new_def)

lemma example_buffer_simps:
  "bf_data example_buffer = Some 1" "bf_size example_buffer = 2" "bf_address example_buffer = 0x1000"
  "example_memory 1 = Some [0, 0]"
  by (simp_all add: example_buffer_def example_memory_def)

lemma example_master_simps:
  "findTarget (map snd) 0x1000 2 example_master = Inr (0, 0)" "length (r_clients example_master) = 1"
  "length (r_ips example_master) = 2" "ii_client (r_ips example_master ! 1) = 0"
  by (simp_all add: findTarget_def example_master_def example_map_def example_block_def covers_def)

lemma example_transaction_size:
  assumes "length (txn_data txn) + length (txn_message txn) < 100"
  shows "length (enc_Message (Transaction_message txn ty)) \<le> vector_max_size"
  using assms by (simp add: enc_sizes Transaction_message_def new_Message_def vector_max_size_def)

lemma example_incoming_transaction:
  assumes "length (txn_data txn) + length (txn_message txn) < 100"
  shows "incoming example_lib (example_client s [Transaction_message txn ty]) [Transaction_message txn ty]"
  using example_transaction_size [OF assms] by (rule example_incoming_one)

text \<open>A builder leaves out a field that has its default value, and a field that is absent is not mutated.\<close>

definition mutate_present :: "u64 \<Rightarrow> wire_Transaction \<Rightarrow> wire_Transaction" where
  "mutate_present i txn = (if wt_target txn = 0 then txn else txn\<lparr>wt_target := i\<rparr>)"

lemma example_pair_facts:
  "bf_data example_buffer = Some 1" "br_mem (example_master_bridge m) 1 = Some [0, 0]"
  "length [0 :: u8, 0] = unat (bf_size example_buffer)"
  "findTarget (map snd) (bf_address example_buffer) (bf_size example_buffer) example_master = Inr (0, 0)"
  "unat (0 :: u64) < length (r_clients example_master)" "unat (1 :: u64) < length (r_ips example_master)"
  "unat (ii_client (r_ips example_master ! unat (1 :: u64))) < length (r_clients example_master)"
  "9 \<notin> set (br_deleted (example_slave_bridge m))"
  "map_of (md_txns \<lparr>md_master = Some 1, md_txns = [], md_lastTxnId = 0\<rparr>)
      (md_lastTxnId \<lparr>md_master = Some 1, md_txns = [], md_lastTxnId = 0\<rparr>) = None"
  "unat (bf_size example_buffer) = Suc (Suc 0)" "unat (bf_size example_buffer) \<le> vector_max_size"
  by (simp_all add: example_buffer_simps example_master_simps example_pair_simps vector_max_size_def
      del: One_nat_def)

definition example_read_request :: Transaction where
  "example_read_request = (new_Transaction True)\<lparr>txn_type := READ_REQ, txn_initiator := 1, txn_id := 0,
     txn_address := 0x1000, txn_size := 2\<rparr>"

lemma example_read_request_fields:
  "example_read_request = (new_Transaction True)\<lparr>txn_type := READ_REQ, txn_initiator := 1,
     txn_id := md_lastTxnId \<lparr>md_master = Some 1, md_txns = [], md_lastTxnId = 0\<rparr>,
     txn_address := bf_address example_buffer, txn_size := bf_size example_buffer\<rparr>"
  by (simp add: example_read_request_def example_buffer_simps)

theorem read_end_to_end_witness:
  "\<exists>m1 m3 A1 B1 B2 A2.
      writer_turn example_lib (fst (Master_read 1 example_buffer (example_master_bridge m3))) = Ret A1
    \<and> Bridge_reader example_lib example_slaves (example_slave_bridge m1) = Ret B1
    \<and> writer_turn example_lib B1 = Ret B2
    \<and> Bridge_reader example_lib example_slaves A1 = Ret A2
    \<and> br_mem A2 1 = Some [7, 7] \<and> br_futures A2 = [Ready status_ok]"
proof -
  let ?req = "example_read_request"
  define m1 where "m1 = Transaction_message ?req 0"
  define m3 where "m3 = Transaction_message (response_to ?req 0 [7, 7]) 2"
  obtain A0 f where call: "Master_read 1 example_buffer (example_master_bridge m3) = (A0, f)"
    by fastforce
  have small: "length (txn_data ?req) + length (txn_message ?req) < 100"
    "length (txn_data (response_to ?req 0 [7, 7])) + length (txn_message (response_to ?req 0 [7, 7])) < 100"
    by (simp_all add: example_read_request_def new_Transaction_def response_to_def)
  have A: "incoming example_lib (br_client (example_master_bridge m3)) [m3]"
    unfolding m3_def example_pair_simps by (rule example_incoming_transaction [OF small(2)])
  have B: "incoming example_lib (br_client (example_slave_bridge m1)) [m1]"
    unfolding m1_def example_pair_simps by (rule example_incoming_transaction [OF small(1)])
  have h: "handleRead example_slaves 9 (bf_size example_buffer) (bf_address example_buffer)
      (replicate (unat (bf_size example_buffer)) 0) (br_world (example_slave_bridge m1)) = (0, [7, 7], 0)"
    "length [7 :: u8, 7] = unat (bf_size example_buffer)"
    unfolding example_pair_facts(10) by (simp_all add: example_slaves_def example_pair_simps)
  have mutate: "\<forall>i w. wt_target w = 0 \<longrightarrow> mutate_present i w = w"
    by (simp add: mutate_present_def)
  note trip = read_end_to_end [where mutate = mutate_present and SA = example_slaves, OF codec_example_lib example_pair_simps(1,3) example_pair_facts(9,1-3) call
      example_pair_facts(4-7) mutate example_pair_simps(2,6) example_pair_facts(8) h example_pair_facts(11)
      example_read_request_fields m1_def m3_def]
  then obtain A1 where A1: "writer_turn example_lib A0 = Ret A1"
    "\<exists>B1 B2. Bridge_reader example_lib example_slaves (example_slave_bridge m1) = Ret B1 \<and> writer_turn example_lib B1 = Ret B2"
    "\<exists>A2. Bridge_reader example_lib example_slaves A1 = Ret A2
         \<and> br_mem A2 = (if (0 :: int) = 0 then (br_mem (example_master_bridge m3))(1 \<mapsto> [7, 7])
              else br_mem (example_master_bridge m3))
         \<and> br_futures A2 = br_futures (example_master_bridge m3)
              @ [Ready (if (0 :: int) = 0 then status_ok else mk_status 1 ''Slave operation failed'')]"
    using A B by blast
  have "fst (Master_read 1 example_buffer (example_master_bridge m3)) = A0"
    by (simp add: call)
  with A1 show ?thesis
    by (fastforce simp: example_pair_simps)
qed

definition example_write_request :: Transaction where
  "example_write_request = (new_Transaction True)\<lparr>txn_type := WRITE_REQ, txn_initiator := 1, txn_id := 0,
     txn_address := 0x1000, txn_size := 2, txn_data := [0, 0]\<rparr>"

lemma example_write_request_fields:
  "example_write_request = (new_Transaction True)\<lparr>txn_type := WRITE_REQ, txn_initiator := 1,
     txn_id := md_lastTxnId \<lparr>md_master = Some 1, md_txns = [], md_lastTxnId = 0\<rparr>,
     txn_address := bf_address example_buffer, txn_size := bf_size example_buffer, txn_data := [0, 0]\<rparr>"
  by (simp add: example_write_request_def example_buffer_simps)

theorem write_end_to_end_witness:
  "\<exists>m1 m3 A0 f A1 B1 B2 A2. Master_write 1 example_buffer (example_master_bridge m3) = Ret (A0, f)
    \<and> writer_turn example_lib A0 = Ret A1
    \<and> Bridge_reader example_lib example_slaves (example_slave_bridge m1) = Ret B1
    \<and> writer_turn example_lib B1 = Ret B2
    \<and> Bridge_reader example_lib example_slaves A1 = Ret A2
    \<and> br_world B2 = 1 \<and> br_futures A2 = [Ready status_ok]"
proof -
  let ?req = "example_write_request"
  define m1 where "m1 = Transaction_message ?req 1"
  define m3 where "m3 = Transaction_message (response_to ?req 0 []) 3"
  obtain A0 f where call: "Master_write 1 example_buffer (example_master_bridge m3) = Ret (A0, f)"
    by (simp add: Master_write_def load_bytes_def get_future_def example_buffer_simps example_pair_simps
        example_memory_def vector_max_size_def Let_def)
  have small: "length (txn_data ?req) + length (txn_message ?req) < 100"
    "length (txn_data (response_to ?req 0 [])) + length (txn_message (response_to ?req 0 [])) < 100"
    by (simp_all add: example_write_request_def new_Transaction_def response_to_def)
  have A: "incoming example_lib (br_client (example_master_bridge m3)) [m3]"
    unfolding m3_def example_pair_simps by (rule example_incoming_transaction [OF small(2)])
  have B: "incoming example_lib (br_client (example_slave_bridge m1)) [m1]"
    unfolding m1_def example_pair_simps by (rule example_incoming_transaction [OF small(1)])
  have h: "handleWrite example_slaves 9 (bf_size example_buffer) (bf_address example_buffer) [0, 0]
      (br_world (example_slave_bridge m1)) = (0, 1)"
    by (simp add: example_slaves_def example_pair_simps)
  have mutate: "\<forall>i w. wt_target w = 0 \<longrightarrow> mutate_present i w = w"
    by (simp add: mutate_present_def)
  note trip = write_end_to_end [where mutate = mutate_present and SA = example_slaves, OF codec_example_lib example_pair_simps(1,3) example_pair_facts(9,1-3) call
      example_pair_facts(4-7) mutate example_pair_simps(2,6) example_pair_facts(8) h
      example_write_request_fields m1_def m3_def]
  then obtain A1 where A1: "writer_turn example_lib A0 = Ret A1"
    "\<exists>B1 B2. Bridge_reader example_lib example_slaves (example_slave_bridge m1) = Ret B1
       \<and> writer_turn example_lib B1 = Ret B2 \<and> br_world B2 = 1"
    "\<exists>A2. Bridge_reader example_lib example_slaves A1 = Ret A2
         \<and> br_futures A2 = br_futures (example_master_bridge m3)
              @ [Ready (if (0 :: int) = 0 then status_ok else mk_status 1 ''Slave operation failed'')]"
    using A B by blast
  with A1 call show ?thesis
    by (fastforce simp: example_pair_simps)
qed

section \<open>Requests for any slave but the first\<close>

text \<open>
  C23: the router tells the bridge of the slave which slave is meant by overwriting the target of the
  request, but a request that leaves a bridge has the default target 0, which is absent in the message,
  and overwriting an absent field does nothing. So a read that is routed to a slave other than 0 arrives
  for slave 0: a bridge without a slave of that number answers nothing and ends its reader with an
  error, and the future of the read stays pending.
\<close>

theorem read_of_later_slave:
  assumes L: "codec L" and A: "idle A" "map_of (br_masterMap A) m = Some md"
      "map_of (md_txns md) (md_lastTxnId md) = None"
    and call: "Master_read m buffer A = (A0, f)"
    and r: "findTarget order (bf_address buffer) (bf_size buffer) r = Inr (slave, cB)" "slave \<noteq> 0"
      "unat cB < length (r_clients r)"
    and absent: "\<forall>i w. wt_target w = 0 \<longrightarrow> mutate i w = w"
    and B: "idle B" "map_of (br_slaveMap B) slave = Some (Some s)" "map_of (br_slaveMap B) 0 = None"
    and req: "req = (new_Transaction True)\<lparr>txn_type := READ_REQ, txn_initiator := m, txn_id := md_lastTxnId md,
      txn_address := bf_address buffer, txn_size := bf_size buffer\<rparr>"
    and m1: "m1 = Transaction_message req 0"
  shows "\<exists>A1. writer_turn L A0 = Ret A1 \<and> br_futures A1 = br_futures A @ [Pending]
    \<and> wr_sent (c_out (br_client A1)) = wr_sent (c_out (br_client A)) @ frame (lib_encode L m1)
    \<and> route order mutate m1 r = Ret (r, [(cB, m1)], True)
    \<and> (\<forall>ms. incoming L (br_client B) (m1 # ms) \<longrightarrow> (\<exists>B1. Bridge_reader L S B = Ret B1
        \<and> br_reader B1 = Reader_Exited
        \<and> br_readerStatus B1 = mk_status 1 (''Got a request meant for an unknown slave: '' @ to_string_nat 0)
        \<and> q_items (br_queue B1) = [] \<and> br_world B1 = br_world B))"
proof -
  let ?A = "A\<lparr>br_futures := br_futures A @ [Pending]\<rparr>"
  define t where "t = \<lparr>tx_type = TRANSACTION, tx_buffer = bf_data buffer,
    tx_txn = (new_Transaction True)\<lparr>txn_type := READ_REQ, txn_initiator := m,
      txn_address := bf_address buffer, txn_size := bf_size buffer\<rparr>, tx_promise = Some (length (br_futures A))\<rparr>"
  have A0: "A0 = push_txn t ?A"
    using call by (auto simp: Master_read_def get_future_def t_def Let_def)
  have filed: "tx_txn (with_next_id t md) = req"
    by (simp add: with_next_id_def t_def req new_Transaction_def)
  have t: "tx_type t = TRANSACTION" "txn_type (tx_txn t) = READ_REQ \<or> txn_type (tx_txn t) = WRITE_REQ"
    "wire_of_TransactionType (txn_type (tx_txn t)) = Some 0" "map_of (br_masterMap ?A) (txn_initiator (tx_txn t)) = Some md"
    using A(2) by (simp_all add: t_def)
  have idle: "idle ?A"
    using A(1) by simp
  obtain q where q: "writer_turn L A0 = Ret (?A\<lparr>br_queue := q, br_client := sent_on L m1 (br_client A),
      br_masterMap := AList.update (txn_initiator (tx_txn t)) (file_request t md) (br_masterMap A)\<rparr>)"
    unfolding A0 by (rule writer_turn_request [OF idle t A(3), of L]) (simp add: filed m1)
  have request: "wire_of_TransactionType (txn_type req) = Some 0" "txn_target req = 0" "txn_type req = READ_REQ"
    by (simp_all add: req new_Transaction_def)
  have way: "route order mutate m1 r = Ret (r, [(cB, m1)], True)"
    using r absent by (simp add: route_def m1 Transaction_message_def new_Message_def go_index_def req new_Transaction_def)
  have end_: "\<exists>B1. Bridge_reader L S B = Ret B1 \<and> br_reader B1 = Reader_Exited
        \<and> br_readerStatus B1 = mk_status 1 (''Got a request meant for an unknown slave: '' @ to_string_nat 0)
        \<and> q_items (br_queue B1) = [] \<and> br_world B1 = br_world B"
    if inc: "incoming L (br_client B) (m1 # ms)" for ms
  proof -
    obtain k where k: "RouterClient_receiveTransaction L (br_client B) = Ret ((br_client B)\<lparr>c_in := k\<rparr>, Some req, status_ok)"
      using L B(1) request(1) inc [unfolded m1] by (rule receive_idle)
    then show ?thesis
      using B(1,3) request by (simp add: Bridge_reader_def reader_request_def stop_reader_def q_finish_def idle_def)
  qed
  show ?thesis
    by (rule exI, intro conjI allI impI, rule q) (rule way | erule end_ | simp)+
qed

text \<open>The block of the instances, registered as the slave with number 3.\<close>

definition example_third :: router where
  "example_third = example_map\<lparr>r_ipMMap := [(0x1000, (example_block 0x1000 0x100)\<lparr>ii_id := 3\<rparr>)]\<rparr>"

theorem read_of_later_slave_witness:
  "\<exists>A0 f A1 m1 B1. Master_read 1 example_buffer (example_master_bridge m1) = (A0, f)
    \<and> writer_turn example_lib A0 = Ret A1 \<and> br_futures A1 = [Pending]
    \<and> Bridge_reader example_lib example_slaves ((example_slave_bridge m1)\<lparr>br_slaveMap := [(3, Some 9)]\<rparr>) = Ret B1
    \<and> br_reader B1 = Reader_Exited"
proof -
  define m1 where "m1 = Transaction_message example_read_request 0"
  let ?B = "(example_slave_bridge m1)\<lparr>br_slaveMap := [(3, Some 9)]\<rparr>"
  obtain A0 f where call: "Master_read 1 example_buffer (example_master_bridge m1) = (A0, f)"
    by fastforce
  have B: "incoming example_lib (br_client ?B) [m1]"
    using example_incoming_transaction [of example_read_request STARTED 0]
    by (simp add: m1_def example_pair_simps example_read_request_def new_Transaction_def del: framed.simps)
  have found: "findTarget (map snd) (bf_address example_buffer) (bf_size example_buffer) example_third = Inr (3, 0)"
    by (simp add: example_buffer_simps findTarget_def example_third_def example_map_def example_block_def covers_def)
  have third: "(3 :: u64) \<noteq> 0" "unat (0 :: u64) < length (r_clients example_third)" "idle ?B"
    "map_of (br_slaveMap ?B) 3 = Some (Some 9)" "map_of (br_slaveMap ?B) 0 = None"
    "\<forall>i w. wt_target w = 0 \<longrightarrow> mutate_present i w = w"
    using example_pair_simps(2) [of m1]
    by (simp_all add: example_third_def example_map_def mutate_present_def idle_def)
  from read_of_later_slave [where mutate = mutate_present and S = example_slaves,
      OF codec_example_lib example_pair_simps(1,3) example_pair_facts(9) call found third(1,2,6,3-5)
        example_read_request_fields m1_def] B call
  show ?thesis
    by (fastforce simp: example_pair_simps)
qed

end
