(* ===== verification/Message_Types.thy ===== *)
theory Message_Types
  imports Router_Properties
begin

text \<open>
  The types of the protocol: which fields a message of each type must carry. The schema makes every
  field optional, and both sides read the fields they expect without looking whether they are there. So
  nobody fails on a field that is absent only because everybody sends well-formed messages only.
\<close>

section \<open>Well-formed messages\<close>

text \<open>The values of the enumerations are those of \<^verbatim>\<open>IpcStructs.fbs\<close>, which count from 0.\<close>

definition well_formed :: "wire_Message \<Rightarrow> bool" where
  "well_formed m \<longleftrightarrow>
     (wm_type m = Type_SYSTEM_INFO \<longrightarrow> (case wm_systemInfo m of None \<Rightarrow> False
        | Some s \<Rightarrow> ws_name s \<noteq> None \<and> ws_systemName s \<noteq> None \<and> ws_hostname s \<noteq> None))
   \<and> (wm_type m = Type_IP_INFO \<longrightarrow> (case wm_ipInfo m of None \<Rightarrow> False
        | Some i \<Rightarrow> wi_name i \<noteq> None \<and> wi_type i \<in> {0, 1, 2, 3, 4, 5} \<and> wi_implementation i \<in> {0, 1}))
   \<and> (wm_type m = Type_ERROR \<longrightarrow> wm_errorMessage m \<noteq> None)
   \<and> (wm_type m = Type_TRANSACTION \<longrightarrow> (case wm_txn m of None \<Rightarrow> False
        | Some w \<Rightarrow> wt_message w \<noteq> None \<and> wt_type w \<in> {0, 1, 2, 3}))"

lemma Type_distinct [simp]:
  "Type_SYSTEM_INFO \<noteq> Type_TRANSACTION" "Type_TRANSACTION \<noteq> Type_SYSTEM_INFO"
  "Type_IP_INFO \<noteq> Type_TRANSACTION" "Type_TRANSACTION \<noteq> Type_IP_INFO"
  "Type_IP_INFO \<noteq> Type_SYSTEM_INFO" "Type_ERROR \<noteq> Type_TRANSACTION" "Type_TRANSACTION \<noteq> Type_ERROR"
  "Type_ACK \<noteq> Type_TRANSACTION" "Type_COMMIT \<noteq> Type_TRANSACTION" "Type_COMMIT \<noteq> Type_SYSTEM_INFO"
  "Type_COMMIT \<noteq> Type_IP_INFO" "Type_COMMIT \<noteq> Type_ERROR" "Type_TERMINATE \<noteq> Type_SYSTEM_INFO"
  "Type_TERMINATE \<noteq> Type_IP_INFO" "Type_TERMINATE \<noteq> Type_ERROR" "Type_TERMINATE \<noteq> Type_TRANSACTION"
  "Type_DONE \<noteq> Type_SYSTEM_INFO" "Type_DONE \<noteq> Type_IP_INFO" "Type_DONE \<noteq> Type_ERROR"
  "Type_DONE \<noteq> Type_TRANSACTION" "Type_IP_ACK \<noteq> Type_SYSTEM_INFO" "Type_IP_ACK \<noteq> Type_IP_INFO"
  "Type_IP_ACK \<noteq> Type_TRANSACTION"
  by (simp_all add: Type_defs)

lemma wm_type_new_Message [simp]: "wm_type (new_Message t) = t"
  by (simp add: new_Message_def)

text \<open>What the two sides write for an enumerator is one of its values.\<close>

lemma wire_of_IpType_values: "wire_of_IpType t = Some w \<Longrightarrow> w \<in> {0, 1, 2, 3, 4, 5}"
  by (cases t) auto

lemma wire_of_TransactionType_values: "wire_of_TransactionType t = Some w \<Longrightarrow> w \<in> {0, 1, 2, 3}"
  by (cases t) auto




text \<open>What the two sides build.\<close>

lemma well_formed_plain:
  "t \<in> {Type_ACK, Type_COMMIT, Type_DONE} \<Longrightarrow> well_formed (new_Message t)"
  "well_formed ((new_Message Type_TERMINATE)\<lparr>wm_ipId := i\<rparr>)"
  by (auto simp: well_formed_def)

lemma well_formed_client:
  "well_formed (client_SystemInfo E name)"
  "wire_of_IpType (ip_type config) = Some t \<Longrightarrow> well_formed (registerIp_message config t)"
  "wire_of_TransactionType (txn_type txn) = Some ty \<Longrightarrow> well_formed (Transaction_message txn ty)"
  using wire_of_IpType_values [of "ip_type config" t] wire_of_TransactionType_values [of "txn_type txn" ty]
  by (simp_all add: well_formed_def client_SystemInfo_def registerIp_message_def Transaction_message_def
      wire_of_IpImplementation_def)

lemma well_formed_router:
  "well_formed (system_info_message si)" "well_formed (ip_message ip)" "well_formed (ackIpInfo i)"
  "well_formed (createErrorMessage e)" "well_formed (createErrorTxn initiator i t e)"
  using wire_of_IpType_values [of "ii_type ip"]
  by (auto simp: well_formed_def system_info_message_def ip_message_def ackIpInfo_def createErrorMessage_def
      createErrorTxn_def split: option.split)

section \<open>The client sends well-formed messages\<close>

text \<open>What was sent is \<open>out\<close> and then one well-formed message, or the front part that went out of it.\<close>

definition spoke :: "lib \<Rightarrow> u8 list \<Rightarrow> wr_chan \<Rightarrow> bool" where
  "spoke L out w \<longleftrightarrow> (\<exists>m n. well_formed m \<and> wr_sent w = out @ take n (frame (lib_encode L m)))"

lemma spoke_silent: "wr_sent w = out \<Longrightarrow> spoke L out w"
  unfolding spoke_def using well_formed_plain(1) [of Type_ACK]
  by (intro exI [of _ "new_Message Type_ACK"] exI [of _ 0]) simp

lemma spoke_write:
  assumes "well_formed m" "client_write L c m = (ok, c')"
  shows "spoke L (wr_sent (c_out c)) (c_out c')"
proof -
  obtain r w where w: "writeToSocket (c_sock c) (c_out c) (lib_encode L m) = (r, w)"
    by fastforce
  then have c': "c_out c' = w"
    using assms(2) by (auto simp: client_write_def)
  consider "r = 0" | "r = -1"
    using sock.wr_result [of "c_sock c" "c_out c" "lib_encode L m"] w by auto
  then show ?thesis
  proof cases
    case 1
    then have "wr_sent w = wr_sent (c_out c) @ take (length (frame (lib_encode L m))) (frame (lib_encode L m))"
      using sock.wr_frame [of "c_sock c" "c_out c" "lib_encode L m"] w by simp
    then show ?thesis
      unfolding spoke_def c' using assms(1) by blast
  next
    case 2
    then show ?thesis
      using sock.wr_partial [of "c_sock c" "c_out c" "lib_encode L m"] w assms(1) c' by (auto simp: spoke_def)
  qed
qed

lemma c_out_disconnect [simp]: "c_out (RouterClient_disconnect c) = c_out c"
  by (simp add: RouterClient_disconnect_def)

lemma client_write_spoke:
  assumes "well_formed m"
  obtains ok w where "client_write L c m = (ok, c\<lparr>c_out := w\<rparr>)" "spoke L (wr_sent (c_out c)) w"
proof -
  obtain ok w where w: "client_write L c m = (ok, c\<lparr>c_out := w\<rparr>)"
    by (rule client_write_cases)
  with spoke_write [OF assms w] show ?thesis
    by (simp add: that)
qed

lemma spoke_connect:
  "post (\<lambda>(c', st). spoke L (wr_sent (c_out c)) (c_out c') \<or> spoke L [] (c_out c')) (client_call L (Connect E uri name) c)"
proof -
  let ?c = "c\<lparr>c_sock := e_socket E, c_open := e_socket E # c_open c, c_uri := uri,
    c_in := e_in E, c_out := \<lparr>wr_script = e_wr E, wr_sent = []\<rparr>\<rparr>"
  obtain ok w where w: "client_write L ?c (client_SystemInfo E name) = (ok, ?c\<lparr>c_out := w\<rparr>)"
    "spoke L (wr_sent (c_out ?c)) w"
    using well_formed_client(1) by (rule client_write_spoke)
  show ?thesis
    using w by (cases ok) (auto simp: RouterClient_connect_def spoke_silent Let_def SystemInfo_of_message_def
        intro!: client_read_post split: option.split)
qed

lemma spoke_registerIp: "post (\<lambda>(c', st). spoke L (wr_sent (c_out c)) (c_out c')) (client_call L (RegisterIp config) c)"
proof (cases "wire_of_IpType (ip_type config)")
  case None
  then show ?thesis
    by (simp add: RouterClient_registerIp_def spoke_silent)
next
  case (Some t)
  obtain ok w where "client_write L c (registerIp_message config t) = (ok, c\<lparr>c_out := w\<rparr>)"
    "spoke L (wr_sent (c_out c)) w"
    using well_formed_client(2) [OF Some] by (rule client_write_spoke)
  then show ?thesis
    using Some by (cases ok) (auto simp: RouterClient_registerIp_def spoke_silent
        intro!: client_read_post split: option.split)
qed

lemma spoke_commitIp: "post (\<lambda>(c', st). spoke L (wr_sent (c_out c)) (c_out c')) (client_call L CommitIp c)"
proof -
  obtain ok w where "client_write L c (new_Message Type_COMMIT) = (ok, c\<lparr>c_out := w\<rparr>)"
    "spoke L (wr_sent (c_out c)) w"
    by (rule client_write_spoke [of "new_Message Type_COMMIT"]) (simp add: well_formed_plain)
  then show ?thesis
    by (cases ok) (auto simp: RouterClient_commitIp_def spoke_silent intro!: client_read_post split: option.split)
qed

lemma spoke_retrieve:
  "post (\<lambda>(c', st). spoke L (wr_sent (c_out c)) (c_out c')) (client_call L RetrievePeerInfo c)"
  "post (\<lambda>(c', st). spoke L (wr_sent (c_out c)) (c_out c')) (client_call L RetrieveIpConfig c)"
  "post (\<lambda>(c', st). spoke L (wr_sent (c_out c)) (c_out c')) (client_call L ReceiveTransaction c)"
  by (auto simp: RouterClient_retrievePeerInfo_def RouterClient_retrieveIpConfig_def spoke_silent
      RouterClient_receiveTransaction_def SystemInfo_of_message_def IpConfig_of_message_def
      Transaction_of_message_def intro!: client_read_post split: option.split)

lemma spoke_send:
  "post (\<lambda>(c', st). spoke L (wr_sent (c_out c)) (c_out c')) (client_call L (SendTransaction txn) c)"
  "post (\<lambda>(c', st). spoke L (wr_sent (c_out c)) (c_out c')) (client_call L (SendTermination i) c)"
  "post (\<lambda>(c', st). spoke L (wr_sent (c_out c)) (c_out c')) (client_call L SendLogout c)"
proof -
  show "post (\<lambda>(c', st). spoke L (wr_sent (c_out c)) (c_out c')) (client_call L (SendTransaction txn) c)"
  proof (cases "wire_of_TransactionType (txn_type txn)")
    case None
    then show ?thesis by (simp add: RouterClient_sendTransaction_def spoke_silent)
  next
    case (Some t)
    obtain ok w where "client_write L c (Transaction_message txn t) = (ok, c\<lparr>c_out := w\<rparr>)"
      "spoke L (wr_sent (c_out c)) w"
      using well_formed_client(3) [OF Some] by (rule client_write_spoke)
    then show ?thesis
      using Some by (cases ok) (simp_all add: RouterClient_sendTransaction_def spoke_silent)
  qed
  obtain ok w where "client_write L c ((new_Message Type_TERMINATE)\<lparr>wm_ipId := i\<rparr>) = (ok, c\<lparr>c_out := w\<rparr>)"
    "spoke L (wr_sent (c_out c)) w"
    using well_formed_plain(2) by (rule client_write_spoke)
  then show "post (\<lambda>(c', st). spoke L (wr_sent (c_out c)) (c_out c')) (client_call L (SendTermination i) c)"
    by (cases ok) (simp_all add: RouterClient_sendTermination_def spoke_silent)
  obtain ok w where "client_write L c (new_Message Type_DONE) = (ok, c\<lparr>c_out := w\<rparr>)"
    "spoke L (wr_sent (c_out c)) w"
    by (rule client_write_spoke [of "new_Message Type_DONE"]) (simp add: well_formed_plain)
  then show "post (\<lambda>(c', st). spoke L (wr_sent (c_out c)) (c_out c')) (client_call L SendLogout c)"
    by (cases ok) (simp_all add: RouterClient_sendLogout_def spoke_silent)
qed

text \<open>
  C17: whatever a client is called for and whatever the call returns, all it has added to what it has sent
  is a well-formed message, complete or cut off by a failed write, or nothing; a connection starts from
  nothing sent.
\<close>

theorem client_call_well_formed:
  assumes "client_call L op c = Ret (c', st)"
  shows "\<exists>out m n. (out = wr_sent (c_out c) \<or> out = [] \<and> (\<exists>E uri name. op = Connect E uri name))
    \<and> well_formed m \<and> wr_sent (c_out c') = out @ take n (frame (lib_encode L m))"
proof -
  have "spoke L (wr_sent (c_out c)) (c_out c') \<or> spoke L [] (c_out c') \<and> (\<exists>E uri name. op = Connect E uri name)"
  proof (cases op)
    case (Connect E uri name)
    then show ?thesis
      using postD [OF spoke_connect assms [unfolded Connect]] by auto
  next
    case Disconnect
    then show ?thesis
      using assms by (auto simp: spoke_silent)
  qed (use assms postD [OF spoke_registerIp] postD [OF spoke_commitIp] postD [OF spoke_retrieve(1)]
      postD [OF spoke_retrieve(2)] postD [OF spoke_retrieve(3)] postD [OF spoke_send(1)]
      postD [OF spoke_send(2)] postD [OF spoke_send(3)] in \<open>fastforce simp del: client_call.simps\<close>)+
  then show ?thesis
    unfolding spoke_def by blast
qed

section \<open>Well-formed messages are understood\<close>











text \<open>The router reads only what a well-formed message has, and passes on or builds well-formed ones.\<close>

lemma shakeHands_well_formed:
  assumes "well_formed m" "g_hostname G = Some hn"
  shows "\<exists>r. shakeHands G m gc = Ret r \<and> (\<forall>gc' answer. r = Some (gc', answer) \<longrightarrow> well_formed answer)"
  using assms by (auto simp: shakeHands_def well_formed_def [of m] well_formed_router Let_def split: option.splits)

lemma serve_ip_well_formed:
  assumes "well_formed m" "unat (gc_Id gc) < length (r_clients r)"
  shows "\<exists>x. serve_ip gc m r = Ret x \<and> (\<forall>r' reply. x = Some (r', Some reply) \<longrightarrow> well_formed reply)"
proof -
  have "wm_type m = Type_IP_INFO \<Longrightarrow> \<exists>i. wm_ipInfo m = Some i"
    using assms(1) by (auto simp: well_formed_def split: option.splits)
  then have "\<exists>req. receiveIpInfo gc m = Ret req"
    by (auto simp: receiveIpInfo_def)
  then obtain req where req: "receiveIpInfo gc m = Ret req"
    by blast
  show ?thesis
  proof (cases req)
    case (Ip_request ip)
    then have "ii_client ip = gc_Id gc"
      using req by (auto simp: receiveIpInfo_def deref_eq_Ret split: if_splits)
    then obtain r' res where "registerIp ip r = Ret (r', res)"
      using assms(2) by (cases "find (conflicts ip) (r_ips r)"; cases "is_master (ii_type ip)")
        (auto simp: registerIp_def Let_def)
    then show ?thesis
      using req Ip_request by (cases res) (auto simp: serve_ip_def well_formed_router)
  qed (use req in \<open>simp_all add: serve_ip_def\<close>)
qed

lemma commit_well_formed: "\<forall>m \<in> set (commit infos ips). well_formed m"
  by (auto simp: commit_def well_formed_router well_formed_plain)

lemma client_of_ip_NullDeref: "(\<And>c. f c \<noteq> Fault NullDeref) \<Longrightarrow> client_of_ip r i f \<noteq> Fault NullDeref"
  by (auto simp: client_of_ip_def go_index_def)

lemma client_of_ip_Ret: "client_of_ip r i f = Ret x \<Longrightarrow> \<exists>c. f c = Ret x"
  by (auto simp: client_of_ip_def go_index_def split: if_splits)

lemma route_cases:
  assumes "well_formed m" and "\<forall>i w. wt_type (mutate i w) = wt_type w \<and> wt_message (mutate i w) = wt_message w"
  obtains (terminate) "wm_type m = Type_TERMINATE"
    | (txn) w where "wm_type m = Type_TRANSACTION" "wm_txn m = Some w" "\<And>i. well_formed (m\<lparr>wm_txn := Some (mutate i w)\<rparr>)"
    | (other) "wm_type m \<noteq> Type_TERMINATE" "wm_type m \<noteq> Type_TRANSACTION"
  using assms by (cases "wm_type m = Type_TRANSACTION") (auto simp: well_formed_def split: option.splits)

lemma route_well_formed:
  assumes "well_formed m" and "\<forall>i w. wt_type (mutate i w) = wt_type w \<and> wt_message (mutate i w) = wt_message w"
  shows "route order mutate m r \<noteq> Fault NullDeref"
    and "route order mutate m r = Ret (r', outs, go) \<Longrightarrow> (c, m') \<in> set outs \<Longrightarrow> well_formed m'"
proof -
  from assms show "route order mutate m r \<noteq> Fault NullDeref"
  proof (cases rule: route_cases)
    case terminate
    then show ?thesis by (auto simp: route_def Let_def client_of_ip_def go_index_def)
  next
    case txn
    then show ?thesis
      by (auto simp: route_def client_of_ip_def go_index_def split: sum.split)
  next
    case other
    then show ?thesis by (simp add: route_def)
  qed
  assume ran: "route order mutate m r = Ret (r', outs, go)" and out: "(c, m') \<in> set outs"
  from assms show "well_formed m'"
  proof (cases rule: route_cases)
    case terminate
    then show ?thesis
      using ran out by (auto simp: route_def Let_def well_formed_plain dest!: client_of_ip_Ret split: if_splits)
  next
    case txn
    then show ?thesis
      using ran out assms(1) by (auto simp: route_def go_index_def well_formed_router dest!: client_of_ip_Ret
          split: if_splits sum.splits)
  next
    case other
    then show ?thesis using ran by (simp add: route_def)
  qed
qed


text \<open>
  C19: the router on well-formed messages: its handshake (on a host whose name is known) and its registration
  return, with no access to an absent table, and their answers are well-formed again; a round of routing touches no absent table and passes on
  well-formed messages only, as long as the mutation leaves the type and the text of a transaction alone.
\<close>

theorem router_well_typed:
  assumes "well_formed m" "g_hostname G = Some hn" "unat (gc_Id gc) < length (r_clients r)"
    and "\<forall>i w. wt_type (mutate i w) = wt_type w \<and> wt_message (mutate i w) = wt_message w"
  shows "(\<exists>x. shakeHands G m gc = Ret x \<and> (\<forall>gc' answer. x = Some (gc', answer) \<longrightarrow> well_formed answer))
    \<and> (\<exists>x. serve_ip gc m r = Ret x \<and> (\<forall>r' reply. x = Some (r', Some reply) \<longrightarrow> well_formed reply))
    \<and> route order mutate m r \<noteq> Fault NullDeref
    \<and> (\<forall>r' outs go. route order mutate m r = Ret (r', outs, go) \<longrightarrow> (\<forall>(j, m') \<in> set outs. well_formed m'))"
proof (intro conjI allI impI)
  show "\<exists>x. shakeHands G m gc = Ret x \<and> (\<forall>gc' answer. x = Some (gc', answer) \<longrightarrow> well_formed answer)"
    by (rule shakeHands_well_formed [OF assms(1,2)])
  show "\<exists>x. serve_ip gc m r = Ret x \<and> (\<forall>r' reply. x = Some (r', Some reply) \<longrightarrow> well_formed reply)"
    by (rule serve_ip_well_formed [OF assms(1,3)])
  show "route order mutate m r \<noteq> Fault NullDeref"
    by (rule route_well_formed(1) [OF assms(1,4)])
  show "\<forall>(j, m') \<in> set outs. well_formed m'" if "route order mutate m r = Ret (r', outs, go)" for r' outs go
    using route_well_formed(2) [OF assms(1,4) that] by auto
qed

section \<open>Instances\<close>

theorem client_call_well_formed_witness:
  "\<exists>c' st m n. client_call example_lib (SendTermination 1) (example_client STARTED []) = Ret (c', st)
    \<and> well_formed m \<and> wr_sent (c_out c') = take n (frame (enc_Message m))"
proof -
  obtain c' st where call: "client_call example_lib (SendTermination 1) (example_client STARTED []) = Ret (c', st)"
    by (cases "RouterClient_sendTermination example_lib 1 (example_client STARTED [])") simp
  from client_call_well_formed [OF call] show ?thesis
    using call by (auto simp: lib_encode_example simp del: client_call.simps)
qed


theorem router_well_typed_witness:
  "\<exists>x y. shakeHands example_go_env (client_SystemInfo (example_env []) ''tb'') (newClient 0) = Ret x
    \<and> serve_ip (newClient 0) (client_SystemInfo (example_env []) ''tb'') example_two = Ret y"
proof -
  have "g_hostname example_go_env = Some ''host''" "unat (gc_Id (newClient 0)) < length (r_clients example_two)"
    by (simp_all add: example_go_env_def newClient_def example_two_def accept_clients_def NewRouter_def)
  moreover have "\<forall>i w. wt_type (w\<lparr>wt_target := i\<rparr>) = wt_type w \<and> wt_message (w\<lparr>wt_target := i\<rparr>) = wt_message w"
    by simp
  ultimately show ?thesis
    using router_well_typed [OF well_formed_client(1), of example_go_env "''host''" "newClient 0" example_two
        "\<lambda>i w. w\<lparr>wt_target := i\<rparr>" "example_env []" "''tb''" "map snd"]
    by blast
qed

end
