(* ===== verification/Address_Map.thy ===== *)
theory Address_Map
  imports Router_Properties
begin

text \<open>
  The address map of the router: what its check for overlaps amounts to, and when the target of a request
  does not depend on the order in which Go visits the map.
\<close>

section \<open>The check for overlaps\<close>

text \<open>The blocks that do not wrap around the end of the address space, and the addresses two blocks share.\<close>

definition in_space :: "IpInfo \<Rightarrow> bool" where
  "in_space ip \<longleftrightarrow> unat (ii_address ip) + unat (ii_size ip) < 2 ^ 64"

definition overlap :: "IpInfo \<Rightarrow> IpInfo \<Rightarrow> bool" where
  "overlap a b \<longleftrightarrow> (\<exists>x. covers x a \<and> covers x b)"

lemma unat_end: "in_space ip \<Longrightarrow> unat (ii_address ip + ii_size ip) = unat (ii_address ip) + unat (ii_size ip)"
  by (simp add: in_space_def unat_add_lem [symmetric])

lemma covers_unat:
  "in_space ip \<Longrightarrow> covers x ip \<longleftrightarrow> unat (ii_address ip) \<le> unat x \<and> unat x < unat (ii_address ip) + unat (ii_size ip)"
  by (simp add: covers_def word_le_nat_alt word_less_nat_alt unat_end)

lemma overlap_unat:
  assumes "in_space a" "in_space b"
  shows "overlap a b \<longleftrightarrow> ii_size a \<noteq> 0 \<and> ii_size b \<noteq> 0
    \<and> unat (ii_address a) < unat (ii_address b) + unat (ii_size b)
    \<and> unat (ii_address b) < unat (ii_address a) + unat (ii_size a)"
proof
  assume "overlap a b"
  then show "ii_size a \<noteq> 0 \<and> ii_size b \<noteq> 0
    \<and> unat (ii_address a) < unat (ii_address b) + unat (ii_size b)
    \<and> unat (ii_address b) < unat (ii_address a) + unat (ii_size a)"
    using assms by (auto simp: overlap_def covers_unat)
next
  assume h: "ii_size a \<noteq> 0 \<and> ii_size b \<noteq> 0
    \<and> unat (ii_address a) < unat (ii_address b) + unat (ii_size b)
    \<and> unat (ii_address b) < unat (ii_address a) + unat (ii_size a)"
  then have pos: "0 < unat (ii_size a)" "0 < unat (ii_size b)"
    by (simp_all add: unat_gt_0)
  show "overlap a b"
  proof (cases "unat (ii_address a) \<le> unat (ii_address b)")
    case True
    then have "covers (ii_address b) a \<and> covers (ii_address b) b"
      using assms h pos by (simp add: covers_unat)
    then show ?thesis by (auto simp: overlap_def)
  next
    case False
    then have "covers (ii_address a) a \<and> covers (ii_address a) b"
      using assms h pos by (simp add: covers_unat)
    then show ?thesis by (auto simp: overlap_def)
  qed
qed

lemma ranges_meet:
  fixes a s b t :: nat
  assumes "0 < s"
  shows "(b \<le> a \<and> a < b + t \<or> a < t \<and> b < a + s)
    = ((0 < s \<and> 0 < t \<and> a < b + t \<and> b < a + s) \<and> (b \<le> a \<or> a < t))"
  using assms by auto

lemma conflicts_iff:
  assumes "in_space ip" "in_space rIp" "ii_size ip \<noteq> 0"
  shows "conflicts ip rIp \<longleftrightarrow> overlap ip rIp \<and> (ii_address rIp \<le> ii_address ip \<or> ii_address ip < ii_size rIp)"
proof -
  let ?a = "unat (ii_address ip)" and ?s = "unat (ii_size ip)"
  let ?b = "unat (ii_address rIp)" and ?t = "unat (ii_size rIp)"
  have check: "conflicts ip rIp \<longleftrightarrow> ?b \<le> ?a \<and> ?a < ?b + ?t \<or> ?a < ?t \<and> ?b < ?a + ?s"
    using assms(1,2) by (simp add: conflicts_def word_le_nat_alt word_less_nat_alt unat_end)
  have shared: "overlap ip rIp \<longleftrightarrow> 0 < ?s \<and> 0 < ?t \<and> ?a < ?b + ?t \<and> ?b < ?a + ?s"
    using assms(1,2) by (simp add: overlap_unat unat_gt_0)
  have "0 < ?s"
    using assms(3) by (simp add: unat_gt_0)
  then show ?thesis
    unfolding check shared word_le_nat_alt word_less_nat_alt by (rule ranges_meet)
qed

lemma conflicts_empty:
  assumes "ii_size ip = 0"
  shows "conflicts ip rIp \<longleftrightarrow> covers (ii_address ip) rIp \<or> ii_address ip < ii_size rIp \<and> ii_address rIp < ii_address ip"
  using assms by (simp add: conflicts_def covers_def)

lemma conflicts_empty_iff:
  assumes "in_space rIp" "ii_size ip = 0"
  shows "conflicts ip rIp \<longleftrightarrow> covers (ii_address ip) rIp"
  using assms(1) unfolding conflicts_empty [OF assms(2)]
  by (auto simp: covers_unat word_less_nat_alt)

text \<open>
  C22: what the two conditions of the check amount to, for all blocks whose end, address plus size, is below
  2^64. A new block that is not empty conflicts with a registered one exactly if they overlap and it is not
  the case that the new one starts below the registered one and not below its size: overlaps of that
  kind are accepted. A new block that is empty overlaps nothing, but conflicts with every block that covers
  its address; masters, which are registered at address 0 with size 0, are refused if a slave covers
  address 0.
\<close>

theorem conflicts_iff_overlap:
  assumes "in_space ip" "in_space rIp"
  shows "conflicts ip rIp \<longleftrightarrow> (if ii_size ip = 0 then covers (ii_address ip) rIp
    else overlap ip rIp \<and> \<not> (ii_address ip < ii_address rIp \<and> ii_size rIp \<le> ii_address ip))"
  using conflicts_empty_iff [OF assms(2), of ip] conflicts_iff [OF assms]
  by (auto simp: not_less not_le)

theorem conflicts_iff_overlap_witness:
  "conflicts (example_block 0x1080 0x100) (example_block 0x1000 0x100)
   \<and> conflicts (example_block 0 0) (example_block 0 0x100)
   \<and> \<not> overlap (example_block 0 0) (example_block 0 0x100)"
proof -
  have s: "in_space (example_block 0x1080 0x100)" "in_space (example_block 0x1000 0x100)"
    "in_space (example_block 0 0)" "in_space (example_block 0 0x100)"
    by (simp_all add: in_space_def example_block_def)
  have "covers 0x1080 (example_block 0x1080 0x100)" "covers 0x1080 (example_block 0x1000 0x100)"
    "covers 0 (example_block 0 0x100)"
    by (simp_all add: covers_def example_block_def)
  then have "overlap (example_block 0x1080 0x100) (example_block 0x1000 0x100)" "covers 0 (example_block 0 0x100)"
    by (auto simp: overlap_def)
  moreover have "\<not> overlap (example_block 0 0) (example_block 0 0x100)"
    by (simp add: overlap_def covers_def example_block_def)
  ultimately show ?thesis
    using conflicts_iff_overlap [OF s(1,2)] conflicts_iff_overlap [OF s(3,4)] by (simp add: example_block_def)
qed

section \<open>The target of a request\<close>

lemma find_unique:
  assumes "set xs = set ys" "\<And>x y. x \<in> set xs \<Longrightarrow> y \<in> set xs \<Longrightarrow> P x \<Longrightarrow> P y \<Longrightarrow> x = y"
  shows "find P xs = find P ys"
proof (cases "find P xs")
  case None
  then have "find P ys = None"
    using assms(1) unfolding find_None_iff by blast
  with None show ?thesis by simp
next
  case (Some x)
  then have x: "x \<in> set xs" "P x"
    unfolding find_Some_iff by auto
  then have "x \<in> set ys"
    using assms(1) by simp
  with x(2) have "find P ys \<noteq> None"
    unfolding find_None_iff by blast
  then obtain y where y: "find P ys = Some y"
    by blast
  then have "y \<in> set ys" "P y"
    unfolding find_Some_iff by auto
  then have "y \<in> set xs" "P y"
    using assms(1) by simp_all
  with x have "x = y"
    by (intro assms(2))
  then show ?thesis
    by (simp only: Some y)
qed

text \<open>No IP conflicts with one that was registered before it.\<close>

lemma conflicts_id [simp]: "conflicts (ip\<lparr>ii_id := i\<rparr>) rIp = conflicts ip rIp"
  by (simp add: conflicts_def)

lemma registerIp_clean:
  assumes "registerIp ip r = Ret (r', res)"
  shows "r_ips r' = r_ips r \<or> r_ips r' = r_ips r @ [ip\<lparr>ii_id := r_ipCount r\<rparr>] \<and> (\<forall>rIp \<in> set (r_ips r). \<not> conflicts ip rIp)"
  using assms by (auto simp: registerIp_def Let_def find_None_iff split: option.splits if_splits)

lemma registered_clean:
  assumes "registered n r"
  shows "\<forall>i j. i < j \<and> j < length (r_ips r) \<longrightarrow> \<not> conflicts (r_ips r ! j) (r_ips r ! i)"
  using assms
proof induction
  case Accept
  then show ?case by (simp add: accept_clients_def NewRouter_def)
next
  case (Shake r i E hello c answer)
  then show ?case by simp
next
  case (Serve r c msg r' reply)
  consider "r_ips r' = r_ips r" | ip where "r_ips r' = r_ips r @ [ip\<lparr>ii_id := r_ipCount r\<rparr>]"
      "\<forall>rIp \<in> set (r_ips r). \<not> conflicts ip rIp"
    using serve_ip_registers [OF Serve.hyps(3)] registerIp_clean by blast
  then show ?case
  proof cases
    case 1
    then show ?thesis using Serve.IH by simp
  next
    case 2
    then show ?thesis using Serve.IH by (auto simp: nth_append less_Suc_eq)
  qed
qed

lemma registered_apart:
  assumes "registered n r" "\<forall>ip \<in> set (r_ips r). in_space ip"
    and "\<forall>i j. i < j \<and> j < length (r_ips r) \<and> ii_size (r_ips r ! i) \<noteq> 0 \<and> ii_size (r_ips r ! j) \<noteq> 0
      \<longrightarrow> ii_address (r_ips r ! i) \<le> ii_address (r_ips r ! j)"
    and ij: "i < j" "j < length (r_ips r)"
  shows "\<not> overlap (r_ips r ! j) (r_ips r ! i)"
proof
  assume o: "overlap (r_ips r ! j) (r_ips r ! i)"
  have s: "in_space (r_ips r ! j)" "in_space (r_ips r ! i)"
    using assms(2) ij by auto
  then have "ii_size (r_ips r ! j) \<noteq> 0" "ii_size (r_ips r ! i) \<noteq> 0"
    using o by (simp_all add: overlap_unat)
  then have "conflicts (r_ips r ! j) (r_ips r ! i)"
    using o s assms(3) ij by (simp add: conflicts_iff)
  then show False
    using registered_clean [OF assms(1)] ij by blast
qed

text \<open>
  If the blocks are registered in the order of their addresses (blocks of size 0, which masters
  have, anywhere in between), then in every state that registration can reach the target of a request,
  and the error where there is none, does not depend on the order in which the map is visited.
\<close>

theorem findTarget_deterministic:
  assumes "registered n r" "\<forall>ip \<in> set (r_ips r). in_space ip"
    and "\<forall>i j. i < j \<and> j < length (r_ips r) \<and> ii_size (r_ips r ! i) \<noteq> 0 \<and> ii_size (r_ips r ! j) \<noteq> 0
      \<longrightarrow> ii_address (r_ips r ! i) \<le> ii_address (r_ips r ! j)"
    and "set (order1 (r_ipMMap r)) = snd ` set (r_ipMMap r)" "set (order2 (r_ipMMap r)) = snd ` set (r_ipMMap r)"
  shows "findTarget order1 address sz r = findTarget order2 address sz r"
proof -
  note apart = registered_apart [OF assms(1-3)]
  have unique: "x = y" if xy: "x \<in> set (r_ips r)" "y \<in> set (r_ips r)" "covers address x" "covers address y" for x y
  proof -
    obtain i j where ij: "i < length (r_ips r)" "x = r_ips r ! i" "j < length (r_ips r)" "y = r_ips r ! j"
      using xy(1,2) by (auto simp: in_set_conv_nth)
    have "overlap x y" "overlap y x"
      using xy(3,4) by (auto simp: overlap_def)
    then show ?thesis
      using apart [of i j] apart [of j i] ij by (cases i j rule: linorder_cases) auto
  qed
  have map: "\<forall>x \<in> snd ` set (r_ipMMap r). x \<in> set (r_ips r)"
    using registered_shape [OF assms(1)] by blast
  have "find (covers address) (order1 (r_ipMMap r)) = find (covers address) (order2 (r_ipMMap r))"
  proof (rule find_unique)
    show "x = y" if "x \<in> set (order1 (r_ipMMap r))" "y \<in> set (order1 (r_ipMMap r))"
      "covers address x" "covers address y" for x y
      using map that(1,2) [unfolded assms(4)] that(3,4) by (intro unique) (blast intro: bspec)+
  qed (simp add: assms(4,5))
  then show ?thesis
    by (simp add: findTarget_def)
qed

lemma example_two_order:
  "\<forall>i j. i < j \<and> j < length (r_ips example_two) \<and> ii_size (r_ips example_two ! i) \<noteq> 0
     \<and> ii_size (r_ips example_two ! j) \<noteq> 0 \<longrightarrow> ii_address (r_ips example_two ! i) \<le> ii_address (r_ips example_two ! j)"
  by (simp add: example_two_def)

theorem findTarget_deterministic_witness:
  "findTarget (map snd) 0x1010 4 example_two = findTarget (rev \<circ> map snd) 0x1010 4 example_two"
  by (rule findTarget_deterministic [OF example_two_registered _ example_two_order])
    (simp_all add: example_two_def example_block_def in_space_def)

end
