(* ===== verification/Router_Threads.thy ===== *)
theory Router_Threads
  imports Router_Properties
begin

text \<open>
  The goroutines of the router (\<^verbatim>\<open>src/router/sw_axi/router.go\<close>, \<^verbatim>\<open>client.go\<close>): for each client one that reads
  from its socket and one that writes to it, and the routing loop between them. They communicate over
  channels without a buffer: the routing loop receives from one channel that all readers send to, and
  sends to the channel of each writer. Messages on the sockets are the decoded ones.
\<close>

section \<open>States and steps\<close>

text \<open>
  Where a goroutine stands: a reader in \<^verbatim>\<open>readMsg\<close>, or sending the message it has read; a writer receiving
  from its channel, or in \<^verbatim>\<open>writeMsg\<close>; the routing loop receiving, or sending the rest of what one round
  produces, after which it goes on or ends.
\<close>

datatype go_reader = Reading | Offering wire_Message | Reader_Done

datatype go_writer = Writer_Idle | Writing wire_Message | Writer_Done

datatype go_route = Route_Waiting | Route_Sending "(u64 \<times> wire_Message) list" bool | Route_Done

text \<open>
  \<open>t_in\<close> is for each client what still arrives on its socket, \<open>t_out\<close> what has been written to it.
  \<open>t_exited\<close>: the process has ended by \<^verbatim>\<open>log.Fatalf\<close> or a panic.
\<close>

record threads =
  t_router :: router
  t_in :: "wire_Message list list"
  t_out :: "wire_Message list list"
  t_readers :: "go_reader list"
  t_writers :: "go_writer list"
  t_route :: go_route
  t_exited :: bool

definition after_read :: "wire_Message \<Rightarrow> go_reader" where
  "after_read m = (if wm_type m = Type_DONE then Reader_Done else Offering m)"

definition after_write :: "wire_Message \<Rightarrow> go_writer" where
  "after_write m = (if wm_type m = Type_DONE then Writer_Done else Writer_Idle)"

fun after_round :: "(u64 \<times> wire_Message) list \<Rightarrow> bool \<Rightarrow> go_route" where
  "after_round [] on = (if on then Route_Waiting else Route_Done)"
| "after_round outs on = Route_Sending outs on"

text \<open>The start of the goroutines, at the end of \<^verbatim>\<open>Run\<close>.\<close>

definition start_threads :: "wire_Message list list \<Rightarrow> router \<Rightarrow> threads" where
  "start_threads arriving r = \<lparr>t_router = r, t_in = arriving, t_out = map (\<lambda>_. []) (r_clients r),
     t_readers = map (\<lambda>_. Reading) (r_clients r), t_writers = map (\<lambda>_. Writer_Idle) (r_clients r),
     t_route = Route_Waiting, t_exited = False\<rparr>"

text \<open>
  A read may fail once nothing more arrives, a write at any time; both end the process, and so does a round
  of \<^verbatim>\<open>route\<close> that faults. A message passes from a reader to the routing loop, and from there to a writer, in
  one step of both. Each round visits the address map in an order of its own, any of \<open>orders\<close>.
\<close>

inductive go_step ::
  "visit set \<Rightarrow> (u64 \<Rightarrow> wire_Transaction \<Rightarrow> wire_Transaction)
    \<Rightarrow> threads \<Rightarrow> threads \<Rightarrow> bool" for orders mutate where
  Read: "\<not> t_exited s \<Longrightarrow> i < length (t_readers s) \<Longrightarrow> t_readers s ! i = Reading \<Longrightarrow> t_in s ! i = m # ms \<Longrightarrow>
    go_step orders mutate s (s\<lparr>t_in := (t_in s)[i := ms], t_readers := (t_readers s)[i := after_read m]\<rparr>)"
| Read_fails: "\<not> t_exited s \<Longrightarrow> i < length (t_readers s) \<Longrightarrow> t_readers s ! i = Reading \<Longrightarrow> t_in s ! i = [] \<Longrightarrow>
    go_step orders mutate s (s\<lparr>t_exited := True\<rparr>)"
| Receive: "\<not> t_exited s \<Longrightarrow> t_route s = Route_Waiting \<Longrightarrow> i < length (t_readers s) \<Longrightarrow>
    t_readers s ! i = Offering m \<Longrightarrow> order \<in> orders \<Longrightarrow> route order mutate m (t_router s) = Ret (r, outs, on) \<Longrightarrow>
    go_step orders mutate s (s\<lparr>t_router := r, t_readers := (t_readers s)[i := Reading],
      t_route := after_round outs on\<rparr>)"
| Receive_fails: "\<not> t_exited s \<Longrightarrow> t_route s = Route_Waiting \<Longrightarrow> i < length (t_readers s) \<Longrightarrow>
    t_readers s ! i = Offering m \<Longrightarrow> order \<in> orders \<Longrightarrow> route order mutate m (t_router s) = Fault e \<Longrightarrow>
    go_step orders mutate s (s\<lparr>t_exited := True\<rparr>)"
| Send: "\<not> t_exited s \<Longrightarrow> t_route s = Route_Sending ((c, m) # outs) on \<Longrightarrow> unat c < length (t_writers s) \<Longrightarrow>
    t_writers s ! unat c = Writer_Idle \<Longrightarrow>
    go_step orders mutate s (s\<lparr>t_writers := (t_writers s)[unat c := Writing m], t_route := after_round outs on\<rparr>)"
| Write: "\<not> t_exited s \<Longrightarrow> i < length (t_writers s) \<Longrightarrow> t_writers s ! i = Writing m \<Longrightarrow>
    go_step orders mutate s (s\<lparr>t_out := (t_out s)[i := t_out s ! i @ [m]],
      t_writers := (t_writers s)[i := after_write m]\<rparr>)"
| Write_fails: "\<not> t_exited s \<Longrightarrow> i < length (t_writers s) \<Longrightarrow> t_writers s ! i = Writing m \<Longrightarrow>
    go_step orders mutate s (s\<lparr>t_exited := True\<rparr>)"

abbreviation go_run where
  "go_run orders mutate \<equiv> rtranclp (go_step orders mutate)"

inductive_cases go_stepE: "go_step orders mutate s s'"

text \<open>\<^verbatim>\<open>wg.Wait\<close> returns when all goroutines have ended.\<close>

definition all_done :: "threads \<Rightarrow> bool" where
  "all_done s \<longleftrightarrow> \<not> t_exited s \<and> t_route s = Route_Done \<and> (\<forall>w \<in> set (t_writers s). w = Writer_Done)
     \<and> (\<forall>w \<in> set (t_readers s). w = Reader_Done)"

section \<open>The routing loop without the goroutines\<close>

text \<open>
  The loop over a list of messages, each with the order in which its round visits the address map: what it
  sends, in order, and whether it would go on.
\<close>

fun routed ::
  "(u64 \<Rightarrow> wire_Transaction \<Rightarrow> wire_Transaction) \<Rightarrow> router \<Rightarrow> (visit \<times> wire_Message) list \<Rightarrow>
    (router \<times> (u64 \<times> wire_Message) list \<times> bool) outcome" where
  "routed mutate r [] = Ret (r, [], True)"
| "routed mutate r ((order, m) # ms) = bind_outcome (route order mutate m r) (\<lambda>(r1, outs, on).
     if on then bind_outcome (routed mutate r1 ms) (\<lambda>(r2, outs2, on2). Ret (r2, outs @ outs2, on2))
     else Ret (r1, outs, False))"

lemma routed_snoc:
  "routed mutate r ms = Ret (r1, outs, True) \<Longrightarrow> route order mutate m r1 = Ret (r2, outs2, on) \<Longrightarrow>
   routed mutate r (ms @ [(order, m)]) = Ret (r2, outs @ outs2, on)"
proof (induction ms arbitrary: r outs)
  case (Cons x ms)
  obtain order' a where x: "x = (order', a)"
    by (cases x)
  obtain r3 outs3 where a: "route order' mutate a r = Ret (r3, outs3, True)"
    using Cons.prems(1) by (auto simp: x bind_outcome_eq_Ret split: if_splits)
  obtain outs4 where ms: "routed mutate r3 ms = Ret (r1, outs4, True)" "outs = outs3 @ outs4"
    using Cons.prems(1) a by (auto simp: x bind_outcome_eq_Ret)
  show ?case
    using a ms Cons.IH [OF ms(1) Cons.prems(2)] by (simp add: x)
qed auto

lemma route_keeps_clients: "route order mutate m r = Ret (r1, outs, on) \<Longrightarrow> r_clients r1 = r_clients r"
  by (auto simp: route_def Let_def client_of_ip_def go_index_def deref_eq_Ret
      split: if_splits sum.splits prod.splits)

lemma route_goes_on:
  assumes "route order mutate m r = Ret (r1, outs, True)"
  shows "\<forall>(c, m') \<in> set outs. unat c < length (r_clients r) \<and> wm_type m' \<noteq> Type_DONE"
  using assms
  by (auto simp: route_def Let_def client_of_ip_def go_index_def deref_eq_Ret createErrorTxn_def new_Message_def
      Type_defs split: if_splits sum.splits prod.splits)

lemma route_ends:
  assumes "route order mutate m r = Ret (r1, outs, False)"
  shows "outs = map (\<lambda>i. (of_nat i, new_Message Type_DONE)) [0..<length (r_clients r)]"
  using assms
  by (auto simp: route_def Let_def client_of_ip_def go_index_def deref_eq_Ret split: if_splits sum.splits prod.splits)

section \<open>The goroutines against the routing loop\<close>

text \<open>What a reader holds, what a writer has not yet written, what the routing loop has not yet sent.\<close>

fun held :: "go_reader \<Rightarrow> wire_Message list \<Rightarrow> bool" where
  "held Reading ms \<longleftrightarrow> ms = []"
| "held (Offering m) ms \<longleftrightarrow> ms = [m] \<and> wm_type m \<noteq> Type_DONE"
| "held Reader_Done ms \<longleftrightarrow> (\<exists>m. ms = [m] \<and> wm_type m = Type_DONE)"

fun unwritten :: "go_writer \<Rightarrow> wire_Message list" where
  "unwritten (Writing m) = [m]"
| "unwritten _ = []"

fun unsent :: "go_route \<Rightarrow> (u64 \<times> wire_Message) list" where
  "unsent (Route_Sending outs on) = outs"
| "unsent _ = []"

fun goes_on :: "go_route \<Rightarrow> bool" where
  "goes_on Route_Waiting = True"
| "goes_on (Route_Sending outs on) = on"
| "goes_on Route_Done = False"

definition from_client :: "nat \<Rightarrow> (nat \<times> visit \<times> wire_Message) list \<Rightarrow> wire_Message list" where
  "from_client i hist = map (snd \<circ> snd) (filter (\<lambda>x. fst x = i) hist)"

definition to_client :: "nat \<Rightarrow> (u64 \<times> wire_Message) list \<Rightarrow> wire_Message list" where
  "to_client i outs = map snd (filter (\<lambda>x. unat (fst x) = i) outs)"

lemma client_lists [simp]:
  "from_client i [] = []" "from_client i (hist @ [(j, order, m)]) = from_client i hist @ (if j = i then [m] else [])"
  "to_client i [] = []" "to_client i (outs @ outs') = to_client i outs @ to_client i outs'"
  "to_client i ((c, m) # outs) = (if unat c = i then [m] else []) @ to_client i outs"
  by (simp_all add: from_client_def to_client_def)

lemma after_round_simps [simp]: "unsent (after_round outs on) = outs" "goes_on (after_round outs on) = on"
  by (cases outs; simp)+

lemma held_after_read [simp]: "held (after_read m) [m]"
  by (simp add: after_read_def)

lemma unwritten_after_write [simp]: "unwritten (after_write m) = []"
  by (simp add: after_write_def)

text \<open>
  \<open>tracks orders mutate arriving r hist outs s\<close>: the messages \<open>hist\<close> have been received, from each client in
  the order in which they arrived, and each round had one of \<open>orders\<close>; the routing loop over them has produced \<open>outs\<close>, and what of it has not
  been written to the client is on the way, in order.
\<close>

definition tracks where
  "tracks orders mutate arriving r hist outs s \<longleftrightarrow>
     length (t_in s) = length (r_clients r) \<and> length (t_out s) = length (r_clients r)
   \<and> length (t_readers s) = length (r_clients r) \<and> length (t_writers s) = length (r_clients r)
   \<and> r_clients (t_router s) = r_clients r
   \<and> (\<forall>x \<in> set hist. fst (snd x) \<in> orders)
   \<and> routed mutate r (map snd hist) = Ret (t_router s, outs, goes_on (t_route s))
   \<and> (\<forall>i < length (r_clients r). \<exists>ms. arriving ! i = from_client i hist @ ms @ t_in s ! i \<and> held (t_readers s ! i) ms)
   \<and> (\<forall>i < length (r_clients r). to_client i outs
       = t_out s ! i @ unwritten (t_writers s ! i) @ to_client i (unsent (t_route s)))"

lemma tracks_start:
  "length arriving = length (r_clients r) \<Longrightarrow> tracks orders mutate arriving r [] [] (start_threads arriving r)"
  by (simp add: tracks_def start_threads_def)

lemma tracks_parts:
  assumes "tracks orders mutate arriving r hist outs s"
  shows "length (t_in s) = length (r_clients r)" "length (t_out s) = length (r_clients r)"
    "length (t_readers s) = length (r_clients r)" "length (t_writers s) = length (r_clients r)"
    "r_clients (t_router s) = r_clients r"
    "routed mutate r (map snd hist) = Ret (t_router s, outs, goes_on (t_route s))"
    "i < length (r_clients r) \<Longrightarrow> \<exists>ms. arriving ! i = from_client i hist @ ms @ t_in s ! i \<and> held (t_readers s ! i) ms"
    "i < length (r_clients r) \<Longrightarrow> to_client i outs
       = t_out s ! i @ unwritten (t_writers s ! i) @ to_client i (unsent (t_route s))"
    "\<forall>x \<in> set hist. fst (snd x) \<in> orders"
  using assms unfolding tracks_def by blast+

lemma tracks_read:
  assumes t: "tracks orders mutate arriving r hist outs s"
    and i: "t_readers s ! i = Reading" "t_in s ! i = m # ms"
  shows "tracks orders mutate arriving r hist outs
    (s\<lparr>t_in := (t_in s)[i := ms], t_readers := (t_readers s)[i := after_read m]\<rparr>)" (is "tracks _ _ _ _ _ _ ?s")
proof -
  have "\<exists>ks. arriving ! j = from_client j hist @ ks @ t_in ?s ! j \<and> held (t_readers ?s ! j) ks"
    if j: "j < length (r_clients r)" for j
  proof -
    obtain ks where ks: "arriving ! j = from_client j hist @ ks @ t_in s ! j" "held (t_readers s ! j) ks"
      using tracks_parts(7) [OF t j] by blast
    show ?thesis
    proof (cases "i = j")
      case True
      then show ?thesis
        using ks i j tracks_parts(1,3) [OF t] by (intro exI [of _ "[m]"]) simp
    next
      case False
      then show ?thesis
        using ks by (intro exI [of _ ks]) simp
    qed
  qed
  then show ?thesis
    unfolding tracks_def [of _ _ _ _ _ _ ?s] using tracks_parts [OF t] by simp
qed

lemma tracks_receive:
  assumes t: "tracks orders mutate arriving r hist outs s"
    and i: "i < length (r_clients r)" "t_readers s ! i = Offering m" "t_route s = Route_Waiting"
    and m: "order \<in> orders" "route order mutate m (t_router s) = Ret (r1, outs1, on)"
  shows "tracks orders mutate arriving r (hist @ [(i, order, m)]) (outs @ outs1)
    (s\<lparr>t_router := r1, t_readers := (t_readers s)[i := Reading], t_route := after_round outs1 on\<rparr>)"
    (is "tracks _ _ _ _ _ _ ?s")
proof -
  have routed: "routed mutate r (map snd (hist @ [(i, order, m)])) = Ret (r1, outs @ outs1, on)"
    using tracks_parts(6) [OF t] i(3) m by (simp add: routed_snoc)
  have readers: "\<exists>ks. arriving ! j = from_client j (hist @ [(i, order, m)]) @ ks @ t_in ?s ! j \<and> held (t_readers ?s ! j) ks"
    if j: "j < length (r_clients r)" for j
  proof -
    obtain ks where ks: "arriving ! j = from_client j hist @ ks @ t_in s ! j" "held (t_readers s ! j) ks"
      using tracks_parts(7) [OF t j] by blast
    show ?thesis
    proof (cases "i = j")
      case True
      then show ?thesis
        using ks i j tracks_parts(3) [OF t] by (intro exI [of _ "[]"]) simp
    next
      case False
      then show ?thesis
        using ks by (intro exI [of _ ks]) simp
    qed
  qed
  have "to_client j (outs @ outs1) = t_out ?s ! j @ unwritten (t_writers ?s ! j) @ to_client j (unsent (t_route ?s))"
    if "j < length (r_clients r)" for j
    using tracks_parts(8) [OF t that] i(3) by simp
  moreover have "r_clients r1 = r_clients r"
    using route_keeps_clients [OF m(2)] tracks_parts(5) [OF t] by simp
  ultimately show ?thesis
    unfolding tracks_def [of _ _ _ _ _ _ ?s] using tracks_parts(1-5,9) [OF t] m(1) routed readers by simp
qed

lemma tracks_send:
  assumes t: "tracks orders mutate arriving r hist outs s"
    and c: "t_route s = Route_Sending ((c, m) # outs1) on" "t_writers s ! unat c = Writer_Idle"
  shows "tracks orders mutate arriving r hist outs
    (s\<lparr>t_writers := (t_writers s)[unat c := Writing m], t_route := after_round outs1 on\<rparr>)"
    (is "tracks _ _ _ _ _ _ ?s")
proof -
  have "to_client j outs = t_out ?s ! j @ unwritten (t_writers ?s ! j) @ to_client j (unsent (t_route ?s))"
    if j: "j < length (r_clients r)" for j
    using tracks_parts(8) [OF t j] c j tracks_parts(4) [OF t] by (cases "j = unat c") simp_all
  then show ?thesis
    unfolding tracks_def [of _ _ _ _ _ _ ?s] using tracks_parts(1-7,9) [OF t] c(1) by simp
qed

lemma tracks_write:
  assumes t: "tracks orders mutate arriving r hist outs s" and i: "t_writers s ! i = Writing m"
  shows "tracks orders mutate arriving r hist outs
    (s\<lparr>t_out := (t_out s)[i := t_out s ! i @ [m]], t_writers := (t_writers s)[i := after_write m]\<rparr>)"
    (is "tracks _ _ _ _ _ _ ?s")
proof -
  have "to_client j outs = t_out ?s ! j @ unwritten (t_writers ?s ! j) @ to_client j (unsent (t_route ?s))"
    if j: "j < length (r_clients r)" for j
    using tracks_parts(8) [OF t j] i j tracks_parts(2,4) [OF t] by (cases "j = i") simp_all
  then show ?thesis
    unfolding tracks_def [of _ _ _ _ _ _ ?s] using tracks_parts(1-7,9) [OF t] by simp
qed

lemma tracks_exit:
  assumes t: "tracks orders mutate arriving r hist outs s"
  shows "tracks orders mutate arriving r hist outs (s\<lparr>t_exited := True\<rparr>)" (is "tracks _ _ _ _ _ _ ?s")
  unfolding tracks_def [of _ _ _ _ _ _ ?s] using tracks_parts [OF t] by simp

lemma tracks_step:
  assumes t: "tracks orders mutate arriving r hist outs s" and "go_step orders mutate s s'"
  shows "\<exists>hist' outs'. tracks orders mutate arriving r hist' outs' s'"
  using assms(2)
proof cases
  case (Read i m ms)
  then show ?thesis using tracks_read [OF t] by blast
next
  case (Receive i m order r1 outs1 on)
  then have "i < length (r_clients r)"
    using tracks_parts(3) [OF t] by simp
  then show ?thesis
    using tracks_receive [OF t _ Receive(5,3,6,7)] Receive(1) by blast
next
  case (Send c m outs1 on)
  then show ?thesis using tracks_send [OF t] by blast
next
  case (Write i m)
  then show ?thesis using tracks_write [OF t] by blast
qed (use tracks_exit [OF t] in blast)+

lemma tracks_run:
  assumes "go_run orders mutate (start_threads arriving r) s" "length arriving = length (r_clients r)"
  obtains hist outs where "tracks orders mutate arriving r hist outs s"
proof -
  have "\<exists>hist outs. tracks orders mutate arriving r hist outs s"
    using assms(1)
  proof induction
    case base
    then show ?case using tracks_start [OF assms(2)] by blast
  next
    case (step s1 s2)
    then show ?case using tracks_step by blast
  qed
  with that show ?thesis by blast
qed

section \<open>The end of the router\<close>

text \<open>
  While the loop goes on no writer has ended and no DONE is on the way. Once it has ended, what is still to
  be sent is the DONE of the clients from some \<open>k\<close> on, and exactly the writers below have theirs.
\<close>

definition fresh_writer :: "go_writer \<Rightarrow> bool" where
  "fresh_writer w \<longleftrightarrow> w \<noteq> Writer_Done \<and> (\<forall>m \<in> set (unwritten w). wm_type m \<noteq> Type_DONE)"

definition told_writer :: "go_writer \<Rightarrow> bool" where
  "told_writer w \<longleftrightarrow> w = Writer_Done \<or> (\<exists>m. w = Writing m \<and> wm_type m = Type_DONE)"

lemma writer_simps [simp]:
  "fresh_writer Writer_Idle" "\<not> fresh_writer Writer_Done" "fresh_writer (Writing m) \<longleftrightarrow> wm_type m \<noteq> Type_DONE"
  "told_writer Writer_Done" "\<not> told_writer Writer_Idle" "told_writer (Writing m) \<longleftrightarrow> wm_type m = Type_DONE"
  "wm_type (new_Message t) = t"
  by (simp_all add: fresh_writer_def told_writer_def new_Message_def)

lemma after_write_told: "told_writer (Writing m) \<Longrightarrow> told_writer (after_write m)"
  by (simp add: after_write_def)

lemma after_write_fresh: "fresh_writer (Writing m) \<Longrightarrow> fresh_writer (after_write m)"
  by (simp add: after_write_def)

definition done_from :: "nat \<Rightarrow> nat \<Rightarrow> (u64 \<times> wire_Message) list" where
  "done_from k n = map (\<lambda>i. (of_nat i, new_Message Type_DONE)) [k..<n]"

definition working :: "nat \<Rightarrow> threads \<Rightarrow> bool" where
  "working n s \<longleftrightarrow> (\<forall>i < n. fresh_writer (t_writers s ! i))
     \<and> (\<forall>(c, m) \<in> set (unsent (t_route s)). unat c < n \<and> wm_type m \<noteq> Type_DONE)"

definition ending :: "nat \<Rightarrow> nat \<Rightarrow> threads \<Rightarrow> bool" where
  "ending n k s \<longleftrightarrow> k \<le> n \<and> unsent (t_route s) = done_from k n
     \<and> (\<forall>i < k. told_writer (t_writers s ! i)) \<and> (\<forall>i < n. k \<le> i \<longrightarrow> fresh_writer (t_writers s ! i))"

definition winding :: "nat \<Rightarrow> threads \<Rightarrow> bool" where
  "winding n s \<longleftrightarrow> length (t_readers s) = n \<and> length (t_writers s) = n \<and> length (r_clients (t_router s)) = n
     \<and> (\<forall>on. t_route s \<noteq> Route_Sending [] on)
     \<and> (if goes_on (t_route s) then working n s else \<exists>k. ending n k s)"

lemma after_round_not_empty: "after_round outs on \<noteq> Route_Sending [] on'"
  by (cases outs) auto

lemma done_from_Cons:
  assumes "done_from k n = (c, m) # outs" "n < 2 ^ 64"
  shows "k < n" "unat c = k" "m = new_Message Type_DONE" "outs = done_from (Suc k) n"
proof -
  show k: "k < n"
    using assms(1) by (cases "k < n") (simp_all add: done_from_def)
  have "done_from k n = (of_nat k, new_Message Type_DONE) # done_from (Suc k) n"
    using k by (simp add: done_from_def upt_conv_Cons)
  then show "unat c = k" "m = new_Message Type_DONE" "outs = done_from (Suc k) n"
    using assms k by (auto simp: unat_of_nat take_bit_nat_eq_self)
qed

lemma winding_start: "winding (length (r_clients r)) (start_threads arriving r)"
  by (simp add: winding_def start_threads_def working_def)

lemma winding_receive:
  assumes w: "winding n s" "t_route s = Route_Waiting" and m: "route order mutate m (t_router s) = Ret (r1, outs, on)"
  shows "winding n (s\<lparr>t_router := r1, t_readers := (t_readers s)[i := Reading], t_route := after_round outs on\<rparr>)"
proof -
  have wk: "working n s" "length (r_clients (t_router s)) = n"
    using w by (simp_all add: winding_def)
  have n: "length (r_clients r1) = n"
    using route_keeps_clients [OF m] wk(2) by simp
  show ?thesis
  proof (cases on)
    case True
    then show ?thesis
      using w(1) wk n route_goes_on [of order mutate m "t_router s" r1 outs] m after_round_not_empty
      by (simp add: winding_def working_def)
  next
    case False
    have "outs = done_from 0 n"
      using route_ends [of order mutate m "t_router s" r1 outs] m False wk(2) by (simp add: done_from_def)
    then have "ending n 0 (s\<lparr>t_router := r1, t_readers := (t_readers s)[i := Reading], t_route := after_round outs on\<rparr>)"
      using wk(1) by (simp add: ending_def working_def)
    then show ?thesis
      using w(1) n False after_round_not_empty unfolding winding_def by auto
  qed
qed

lemma winding_send:
  assumes w: "winding n s" and n: "n < 2 ^ 64"
    and c: "t_route s = Route_Sending ((c, m) # outs) on" "unat c < n"
  shows "winding n (s\<lparr>t_writers := (t_writers s)[unat c := Writing m], t_route := after_round outs on\<rparr>)"
    (is "winding n ?s")
proof (cases on)
  case True
  then have wk: "working n s" "length (t_writers s) = n"
    using w c(1) by (simp_all add: winding_def)
  have "fresh_writer (t_writers ?s ! i)" if "i < n" for i
    using wk c that by (cases "i = unat c") (simp_all add: working_def)
  then have "working n ?s"
    using wk(1) c(1) by (simp add: working_def)
  then show ?thesis
    using w True after_round_not_empty by (simp add: winding_def)
next
  case False
  then obtain k where k: "ending n k s" and len: "length (t_writers s) = n"
    using w c(1) by (auto simp: winding_def)
  have parts: "k < n" "unat c = k" "m = new_Message Type_DONE" "outs = done_from (Suc k) n"
    using done_from_Cons [of k n c m outs] k n c(1) by (simp_all add: ending_def)
  have "told_writer (t_writers ?s ! i)" if "i < Suc k" for i
    using k that len parts by (cases "i = k") (simp_all add: ending_def)
  moreover have "fresh_writer (t_writers ?s ! i)" if "i < n" "Suc k \<le> i" for i
    using k that parts by (simp add: ending_def)
  ultimately have "ending n (Suc k) ?s"
    using parts by (simp add: ending_def)
  then show ?thesis
    using w False after_round_not_empty unfolding winding_def by auto
qed

lemma winding_write:
  assumes w: "winding n s" and i: "t_writers s ! i = Writing m" "i < n"
  shows "winding n (s\<lparr>t_out := out, t_writers := (t_writers s)[i := after_write m]\<rparr>)" (is "winding n ?s")
proof -
  have len: "length (t_writers s) = n"
    using w by (simp add: winding_def)
  have told: "told_writer (t_writers s ! j) \<Longrightarrow> told_writer (t_writers ?s ! j)" for j
    using i len after_write_told [of m] by (cases "i = j") simp_all
  have fresh: "fresh_writer (t_writers s ! j) \<Longrightarrow> fresh_writer (t_writers ?s ! j)" for j
    using i len after_write_fresh [of m] by (cases "i = j") simp_all
  show ?thesis
  proof (cases "goes_on (t_route s)")
    case True
    then have "working n ?s"
      using w fresh by (simp add: winding_def working_def)
    then show ?thesis
      using w True by (simp add: winding_def)
  next
    case False
    then obtain k where "ending n k s"
      using w by (auto simp: winding_def)
    then have "ending n k ?s"
      using told fresh by (simp add: ending_def)
    then show ?thesis
      using w False unfolding winding_def by auto
  qed
qed

lemma winding_cong:
  assumes "winding n s" and eq: "t_writers s' = t_writers s" "t_route s' = t_route s" "t_router s' = t_router s"
    "length (t_readers s') = length (t_readers s)"
  shows "winding n s'"
proof -
  have "working n s' = working n s" "ending n k s' = ending n k s" for k
    by (simp_all add: working_def ending_def eq)
  then show ?thesis
    using assms(1) by (simp add: winding_def eq)
qed

lemma winding_step:
  assumes w: "winding n s" and n: "n < 2 ^ 64" and step: "go_step orders mutate s s'"
  shows "winding n s'"
  using step
proof cases
  case (Read i m ms)
  show ?thesis unfolding Read(1) by (rule winding_cong [OF w]) simp_all
next
  case (Receive i m order r1 outs on)
  show ?thesis unfolding Receive(1) by (rule winding_receive [OF w Receive(3,7)])
next
  case (Send c m outs on)
  then have "unat c < n"
    using w by (simp add: winding_def)
  then show ?thesis unfolding Send(1) by (rule winding_send [OF w n Send(3)])
next
  case (Write i m)
  then have "i < n"
    using w by (simp add: winding_def)
  then show ?thesis unfolding Write(1) by (rule winding_write [OF w Write(4)])
next
  case (Read_fails i)
  show ?thesis unfolding Read_fails(1) by (rule winding_cong [OF w]) simp_all
next
  case (Receive_fails i m order e)
  show ?thesis unfolding Receive_fails(1) by (rule winding_cong [OF w]) simp_all
next
  case (Write_fails i m)
  show ?thesis unfolding Write_fails(1) by (rule winding_cong [OF w]) simp_all
qed

lemma winding_run:
  assumes "go_run orders mutate s s'" "winding n s" "n < 2 ^ 64"
  shows "winding n s'"
  using assms(1,2) by induction (use winding_step assms(3) in blast)+

text \<open>A reader that will end: it has, or DONE is the next message.\<close>

definition logs_out :: "go_reader \<Rightarrow> wire_Message list \<Rightarrow> bool" where
  "logs_out w ms \<longleftrightarrow> w = Reader_Done \<or> w = Reading \<and> (\<exists>m ms'. ms = m # ms' \<and> wm_type m = Type_DONE)"

lemma logs_out_simps [simp]: "logs_out Reader_Done ms" "\<not> logs_out (Offering m) ms" "\<not> logs_out Reading []"
  "logs_out Reading (m # ms) \<longleftrightarrow> wm_type m = Type_DONE"
  by (simp_all add: logs_out_def)

lemma logs_out_after_read: "\<not> logs_out Reading (m # ms) \<Longrightarrow> \<not> logs_out (after_read m) ms"
  by (simp add: after_read_def)

text \<open>One that will not keeps the router from finishing: nobody receives what it has to say.\<close>

definition stuck :: "nat \<Rightarrow> threads \<Rightarrow> bool" where
  "stuck i s \<longleftrightarrow> i < length (t_readers s) \<and> i < length (t_in s) \<and> \<not> goes_on (t_route s)
     \<and> \<not> logs_out (t_readers s ! i) (t_in s ! i)"

lemma stuck_step:
  assumes st: "stuck i s" and step: "go_step orders mutate s s'"
  shows "stuck i s'"
  using step
proof cases
  case (Read j m ms)
  show ?thesis
  proof (cases "j = i")
    case True
    then show ?thesis
      using st Read logs_out_after_read [of m ms] by (simp add: stuck_def)
  next
    case False
    then show ?thesis
      unfolding Read(1) using st by (simp add: stuck_def)
  qed
next
  case (Receive j m order r1 outs on)
  then show ?thesis using st by (simp add: stuck_def)
next
  case (Send c m outs on)
  show ?thesis unfolding Send(1) using st Send(3) by (simp add: stuck_def)
next
  case (Write j m)
  show ?thesis unfolding Write(1) using st by (simp add: stuck_def)
next
  case (Read_fails j)
  show ?thesis unfolding Read_fails(1) using st by (simp add: stuck_def)
next
  case (Receive_fails j m order e)
  show ?thesis unfolding Receive_fails(1) using st by (simp add: stuck_def)
next
  case (Write_fails j m)
  show ?thesis unfolding Write_fails(1) using st by (simp add: stuck_def)
qed

lemma stuck_run: "go_run orders mutate s s' \<Longrightarrow> stuck i s \<Longrightarrow> stuck i s'"
  by (induction rule: rtranclp_induct) (use stuck_step in blast)+

lemma stuck_not_done: "stuck i s \<Longrightarrow> \<not> all_done s"
proof
  assume st: "stuck i s" and d: "all_done s"
  then have "t_readers s ! i = Reader_Done"
    by (simp add: stuck_def all_done_def)
  with st show False
    by (simp add: stuck_def)
qed

lemma filter_update:
  "i < length xs \<Longrightarrow> length (filter P (xs[i := y])) + of_bool (P (xs ! i)) = length (filter P xs) + of_bool (P y)"
proof (induction xs arbitrary: i)
  case (Cons x xs)
  then show ?case
    using Cons.IH [of "i - 1"] by (cases i) simp_all
qed simp

definition is_writing :: "go_writer \<Rightarrow> bool" where
  "is_writing w \<longleftrightarrow> unwritten w \<noteq> []"

definition left_to_do :: "threads \<Rightarrow> nat" where
  "left_to_do s = 2 * length (unsent (t_route s)) + length (filter is_writing (t_writers s))
     + length (filter (\<lambda>w. w = Reading) (t_readers s))"

definition shutting :: "nat \<Rightarrow> threads \<Rightarrow> bool" where
  "shutting n s \<longleftrightarrow> winding n s \<and> length (t_in s) = n \<and> \<not> t_exited s \<and> \<not> goes_on (t_route s)
     \<and> (\<forall>i < n. logs_out (t_readers s ! i) (t_in s ! i))"

lemma shutting_read:
  assumes c: "shutting n s" and n: "n < 2 ^ 64" and i: "i < n" "t_readers s ! i = Reading"
  shows "\<exists>s'. go_step orders mutate s s' \<and> shutting n s' \<and> left_to_do s' < left_to_do s"
proof -
  have len: "length (t_readers s) = n" "length (t_in s) = n" "winding n s" "\<not> t_exited s"
    using c by (simp_all add: shutting_def winding_def)
  have "logs_out Reading (t_in s ! i)"
    using c i unfolding shutting_def by metis
  then obtain m ms where m: "t_in s ! i = m # ms" "wm_type m = Type_DONE"
    by (auto simp: logs_out_def)
  let ?s = "s\<lparr>t_in := (t_in s)[i := ms], t_readers := (t_readers s)[i := after_read m]\<rparr>"
  have step: "go_step orders mutate s ?s"
    by (rule go_step.Read) (use len i m in simp_all)
  have rd: "after_read m = Reader_Done"
    using m(2) by (simp add: after_read_def)
  have "logs_out (t_readers ?s ! j) (t_in ?s ! j)" if "j < n" for j
    using c that len rd by (cases "i = j") (simp_all add: shutting_def)
  then have "shutting n ?s"
    using c winding_step [OF len(3) n step] by (simp add: shutting_def)
  moreover have "left_to_do ?s < left_to_do s"
    using filter_update [of i "t_readers s" "\<lambda>w. w = Reading" Reader_Done] i len
    by (simp add: left_to_do_def rd)
  ultimately show ?thesis
    using step by blast
qed

lemma shutting_write:
  assumes c: "shutting n s" and n: "n < 2 ^ 64" and i: "i < n" "t_writers s ! i = Writing m"
  shows "\<exists>s'. go_step orders mutate s s' \<and> shutting n s' \<and> left_to_do s' < left_to_do s"
proof -
  have len: "length (t_writers s) = n" "winding n s" "\<not> t_exited s"
    using c by (simp_all add: shutting_def winding_def)
  let ?s = "s\<lparr>t_out := (t_out s)[i := t_out s ! i @ [m]], t_writers := (t_writers s)[i := after_write m]\<rparr>"
  have step: "go_step orders mutate s ?s"
    by (rule go_step.Write) (use len i in simp_all)
  have "shutting n ?s"
    using c winding_step [OF len(2) n step] by (simp add: shutting_def)
  moreover have "left_to_do ?s < left_to_do s"
    using filter_update [of i "t_writers s" is_writing "after_write m"] i len
    by (simp add: left_to_do_def is_writing_def)
  ultimately show ?thesis
    using step by blast
qed

lemma shutting_send:
  assumes c: "shutting n s" and n: "n < 2 ^ 64" and k: "ending n k s" "k < n" "t_writers s ! k = Writer_Idle"
  shows "\<exists>s'. go_step orders mutate s s' \<and> shutting n s' \<and> left_to_do s' < left_to_do s"
proof -
  have len: "length (t_writers s) = n" "winding n s" "\<not> t_exited s" "\<not> goes_on (t_route s)"
    using c by (simp_all add: shutting_def winding_def)
  have "unsent (t_route s) = (of_nat k, new_Message Type_DONE) # done_from (Suc k) n"
    using k(1,2) by (simp add: ending_def done_from_def upt_conv_Cons)
  then have r: "t_route s = Route_Sending ((of_nat k, new_Message Type_DONE) # done_from (Suc k) n) False"
    using len(4) by (cases "t_route s") simp_all
  have unat: "unat (of_nat k :: u64) = k"
    using k(2) n by (simp add: unat_of_nat take_bit_nat_eq_self)
  let ?s = "s\<lparr>t_writers := (t_writers s)[unat (of_nat k :: u64) := Writing (new_Message Type_DONE)],
    t_route := after_round (done_from (Suc k) n) False\<rparr>"
  have step: "go_step orders mutate s ?s"
    by (rule go_step.Send [OF len(3) r]) (use len k unat in simp_all)
  have "shutting n ?s"
    using c winding_step [OF len(2) n step] by (simp add: shutting_def)
  moreover have "left_to_do ?s < left_to_do s"
    using filter_update [of k "t_writers s" is_writing "Writing (new_Message Type_DONE)"] k len r unat
    by (simp add: left_to_do_def is_writing_def)
  ultimately show ?thesis
    using step by blast
qed

lemma shutting_idle:
  assumes c: "shutting n s" and idle: "\<forall>i < n. t_readers s ! i \<noteq> Reading" "\<forall>i < n. \<not> is_writing (t_writers s ! i)"
    and k: "ending n n s"
  shows "all_done s"
proof -
  have len: "length (t_readers s) = n" "length (t_writers s) = n" "\<not> t_exited s" "\<not> goes_on (t_route s)"
      "\<And>on. t_route s \<noteq> Route_Sending [] on"
    using c by (simp_all add: shutting_def winding_def)
  have "t_readers s ! i = Reader_Done" if "i < n" for i
    using c idle(1) that unfolding shutting_def logs_out_def by blast
  moreover have "t_writers s ! i = Writer_Done" if "i < n" for i
  proof -
    have "told_writer (t_writers s ! i)" "\<not> is_writing (t_writers s ! i)"
      using k idle(2) that by (simp_all add: ending_def)
    then show ?thesis
      by (cases "t_writers s ! i") (simp_all add: is_writing_def)
  qed
  moreover have "t_route s = Route_Done"
    using k len(4,5) by (cases "t_route s") (simp_all add: ending_def done_from_def)
  ultimately show ?thesis
    using len by (simp add: all_done_def all_set_conv_all_nth)
qed

lemma shutting_progress:
  assumes c: "shutting n s" and n: "n < 2 ^ 64"
  shows "all_done s \<or> (\<exists>s'. go_step orders mutate s s' \<and> shutting n s' \<and> left_to_do s' < left_to_do s)"
proof (cases "\<exists>i < n. t_readers s ! i = Reading")
  case True
  then show ?thesis using shutting_read [OF c n] by blast
next
  case readers: False
  show ?thesis
  proof (cases "\<exists>i < n. is_writing (t_writers s ! i)")
    case True
    then obtain i m where "i < n" "t_writers s ! i = Writing m"
      by (metis is_writing_def unwritten.elims)
    then show ?thesis using shutting_write [OF c n] by blast
  next
    case writers: False
    obtain k where k: "ending n k s"
      using c by (auto simp: shutting_def winding_def)
    show ?thesis
    proof (cases "k < n")
      case True
      then have "fresh_writer (t_writers s ! k)" "\<not> is_writing (t_writers s ! k)"
        using k writers by (simp_all add: ending_def)
      then have "t_writers s ! k = Writer_Idle"
        by (cases "t_writers s ! k") (simp_all add: is_writing_def)
      then show ?thesis using shutting_send [OF c n k True] by blast
    next
      case False
      then have "k = n" using k by (simp add: ending_def)
      then show ?thesis using shutting_idle [OF c] readers writers k by blast
    qed
  qed
qed

lemma shutting_finishes:
  assumes "shutting n s" "n < 2 ^ 64"
  shows "\<exists>s'. go_run orders mutate s s' \<and> all_done s'"
  using assms(1)
proof (induction "left_to_do s" arbitrary: s rule: less_induct)
  case less
  from shutting_progress [OF less.prems assms(2), of orders mutate] show ?case
  proof
    assume "\<exists>s'. go_step orders mutate s s' \<and> shutting n s' \<and> left_to_do s' < left_to_do s"
    then show ?thesis
      using less.hyps by (meson converse_rtranclp_into_rtranclp)
  qed blast
qed

section \<open>Properties\<close>

text \<open>
  C24: however the goroutines interleave, and in whatever orders the rounds visit the address map, the router does
  what its routing loop does on some merge of what
  its clients send: the messages received so far are, client by client, what has arrived, in that order
  and but for at most one message that a reader holds; the state of the router is what the loop makes of
  the merge; and what has been written to a client is, in order, what the loop has produced for it so
  far, all of it once the goroutines have ended.
\<close>

theorem goroutines_route:
  assumes "go_run orders mutate (start_threads arriving r) s" "length arriving = length (r_clients r)"
  shows "\<exists>hist outs. routed mutate r (map snd hist) = Ret (t_router s, outs, goes_on (t_route s))
    \<and> (\<forall>x \<in> set hist. fst (snd x) \<in> orders)
    \<and> (\<forall>i < length (r_clients r).
        (\<exists>ms. length ms \<le> 1 \<and> arriving ! i = from_client i hist @ ms @ t_in s ! i)
      \<and> prefix (t_out s ! i) (to_client i outs)
      \<and> (all_done s \<longrightarrow> t_out s ! i = to_client i outs))"
proof -
  obtain hist outs where t: "tracks orders mutate arriving r hist outs s"
    using tracks_run [OF assms] .
  have held: "length ms \<le> 1" if "held w ms" for w ms
    using that by (cases w) auto
  have out: "to_client i outs = t_out s ! i @ unwritten (t_writers s ! i) @ to_client i (unsent (t_route s))"
    if "i < length (r_clients r)" for i
    using tracks_parts(8) [OF t that] .
  have "t_out s ! i = to_client i outs" if "all_done s" "i < length (r_clients r)" for i
  proof -
    have "t_writers s ! i = Writer_Done" "t_route s = Route_Done"
      using that tracks_parts(4) [OF t] by (simp_all add: all_done_def)
    then show ?thesis
      using out [OF that(2)] by simp
  qed
  moreover have "prefix (t_out s ! i) (to_client i outs)" if "i < length (r_clients r)" for i
    using out [OF that] by (simp add: prefix_def)
  moreover have "\<exists>ms. length ms \<le> 1 \<and> arriving ! i = from_client i hist @ ms @ t_in s ! i"
    if "i < length (r_clients r)" for i
    using tracks_parts(7) [OF t that] held by blast
  ultimately show ?thesis
    using tracks_parts(6,9) [OF t] by blast
qed

text \<open>
  C25: when the routing loop has ended, which it does at the last TERMINATE, the router can still finish
  exactly if no client has anything left to say but DONE: each reader has ended or finds DONE next. Then
  the goroutines can go on until all have ended. Any other message, a response on its way to a
  master that did not wait for it for example, is offered to a loop that is no longer there, and the
  router never finishes.
\<close>

theorem router_finishes_iff:
  assumes "go_run orders mutate (start_threads arriving r) s" "length arriving = length (r_clients r)"
    and "length (r_clients r) < 2 ^ 64" "\<not> goes_on (t_route s)" "\<not> t_exited s"
  shows "(\<exists>s'. go_run orders mutate s s' \<and> all_done s') \<longleftrightarrow>
    (\<forall>i < length (r_clients r). t_readers s ! i = Reader_Done
      \<or> t_readers s ! i = Reading \<and> (\<exists>m ms. t_in s ! i = m # ms \<and> wm_type m = Type_DONE))"
    (is "?finishes \<longleftrightarrow> ?quiet")
proof -
  let ?n = "length (r_clients r)"
  obtain hist outs where t: "tracks orders mutate arriving r hist outs s"
    using tracks_run [OF assms(1,2)] .
  have len: "length (t_in s) = ?n" "length (t_readers s) = ?n"
    using tracks_parts [OF t] by simp_all
  have quiet: "?quiet \<longleftrightarrow> (\<forall>i < ?n. logs_out (t_readers s ! i) (t_in s ! i))"
    by (simp add: logs_out_def)
  have w: "winding ?n s"
    by (rule winding_run [OF assms(1) winding_start assms(3)])
  show ?thesis
  proof
    assume ?finishes
    then obtain s' where s': "go_run orders mutate s s'" "all_done s'"
      by blast
    have "logs_out (t_readers s ! i) (t_in s ! i)" if "i < ?n" for i
    proof (rule ccontr)
      assume "\<not> logs_out (t_readers s ! i) (t_in s ! i)"
      then have "stuck i s"
        using assms(4) len that by (simp add: stuck_def)
      then show False
        using stuck_not_done [OF stuck_run [OF s'(1)]] s'(2) by blast
    qed
    then show ?quiet
      using quiet by blast
  next
    assume ?quiet
    then have "shutting ?n s"
      using w len assms(4,5) quiet by (simp add: shutting_def)
    then show ?finishes
      by (rule shutting_finishes [OF _ assms(3)])
  qed
qed

text \<open>
  The instances: a router with two clients, the first with a slave, the second with the only master, whose
  TERMINATE has been received.
\<close>

definition example_hub :: router where
  "example_hub = NewRouter\<lparr>r_clients := [newClient 0, newClient 1], r_ipCount := 2, r_masterCount := 1,
     r_ips := [example_block 0x1000 0x100, (example_block 0 0)\<lparr>ii_type := MASTER, ii_id := 1\<rparr>]\<rparr>"

definition example_terminate :: wire_Message where
  "example_terminate = (new_Message Type_TERMINATE)\<lparr>wm_ipId := 1\<rparr>"

definition example_ended :: "wire_Message list \<Rightarrow> wire_Message list \<Rightarrow> threads" where
  "example_ended ms0 ms1 = \<lparr>t_router = example_hub\<lparr>r_masterCount := 0\<rparr>, t_in = [ms0, ms1], t_out = [[], []],
     t_readers = [Reading, Reading], t_writers = [Writer_Idle, Writer_Idle],
     t_route = Route_Sending [(0, new_Message Type_DONE), (1, new_Message Type_DONE)] False, t_exited = False\<rparr>"

lemma example_terminates:
  "order \<in> orders \<Longrightarrow> go_run orders mutate (start_threads [ms0, example_terminate # ms1] example_hub) (example_ended ms0 ms1)"
proof -
  assume order: "order \<in> orders"
  let ?s0 = "start_threads [ms0, example_terminate # ms1] example_hub"
  let ?s1 = "?s0\<lparr>t_in := (t_in ?s0)[1 := ms1], t_readers := (t_readers ?s0)[1 := after_read example_terminate]\<rparr>"
  have read: "go_step orders mutate ?s0 ?s1"
    by (rule go_step.Read) (simp_all add: start_threads_def example_hub_def)
  have offers: "t_readers ?s1 ! 1 = Offering example_terminate"
    by (simp add: start_threads_def example_hub_def after_read_def example_terminate_def new_Message_def Type_defs)
  have route: "route order mutate example_terminate (t_router ?s1)
      = Ret (example_hub\<lparr>r_masterCount := 0\<rparr>, [(0, new_Message Type_DONE), (1, new_Message Type_DONE)], False)"
    by (simp add: start_threads_def route_def example_terminate_def new_Message_def Type_defs client_of_ip_def
        go_index_def example_hub_def example_block_def)
  let ?s2 = "?s1\<lparr>t_router := example_hub\<lparr>r_masterCount := 0\<rparr>, t_readers := (t_readers ?s1)[1 := Reading],
     t_route := after_round [(0, new_Message Type_DONE), (1, new_Message Type_DONE)] False\<rparr>"
  have receive: "go_step orders mutate ?s1 ?s2"
    by (rule go_step.Receive [OF _ _ _ offers order route]) (simp_all add: start_threads_def example_hub_def)
  have "?s2 = example_ended ms0 ms1"
    by (simp add: start_threads_def example_hub_def example_ended_def)
  then show ?thesis
    using read receive by (metis rtranclp.simps)
qed

lemma example_hub_clients: "length (r_clients example_hub) = 2"
  by (simp add: example_hub_def)

theorem goroutines_route_witness:
  "\<exists>hist outs. routed (\<lambda>i w. w) example_hub (map snd hist)
      = Ret (example_hub\<lparr>r_masterCount := 0\<rparr>, outs, False)
    \<and> (\<forall>x \<in> set hist. fst (snd x) \<in> {map snd, rev \<circ> map snd})
    \<and> (\<exists>ms. length ms \<le> 1 \<and> [example_terminate] = from_client 1 hist @ ms @ [])"
proof -
  have s: "t_router (example_ended [] []) = example_hub\<lparr>r_masterCount := 0\<rparr>" "goes_on (t_route (example_ended [] [])) = False"
    "t_in (example_ended [] []) ! 1 = []"
    by (simp_all add: example_ended_def)
  have n: "length [[], example_terminate # []] = length (r_clients example_hub)" "1 < length (r_clients example_hub)"
    by (simp_all add: example_hub_def)
  have order: "map snd \<in> {map snd, rev \<circ> map snd :: visit}"
    by simp
  from goroutines_route [OF example_terminates [OF order, of "\<lambda>i w. w" "[]" "[]"] n(1)] obtain hist outs where
    h: "routed (\<lambda>i w. w) example_hub (map snd hist) = Ret (example_hub\<lparr>r_masterCount := 0\<rparr>, outs, False)"
      "\<forall>x \<in> set hist. fst (snd x) \<in> {map snd, rev \<circ> map snd}"
    and all: "\<forall>i < length (r_clients example_hub).
        (\<exists>ms. length ms \<le> 1 \<and> [[], [example_terminate]] ! i = from_client i hist @ ms @ t_in (example_ended [] []) ! i)
      \<and> prefix (t_out (example_ended [] []) ! i) (to_client i outs)
      \<and> (all_done (example_ended [] []) \<longrightarrow> t_out (example_ended [] []) ! i = to_client i outs)"
    unfolding s by blast
  have "\<exists>ms. length ms \<le> 1 \<and> [[], [example_terminate]] ! 1 = from_client 1 hist @ ms @ t_in (example_ended [] []) ! 1"
    using all n(2) by blast
  then have "\<exists>ms. length ms \<le> 1 \<and> [example_terminate] = from_client 1 hist @ ms @ []"
    unfolding s by simp
  with h show ?thesis
    by blast
qed

theorem router_finishes_iff_witness:
  "(\<exists>s'. go_run {map snd} (\<lambda>i w. w) (example_ended [new_Message Type_DONE] [new_Message Type_DONE]) s' \<and> all_done s')
   \<and> \<not> (\<exists>s'. go_run {map snd} (\<lambda>i w. w) (example_ended [createErrorTxn 1 0 1 ''late''] [new_Message Type_DONE]) s'
      \<and> all_done s')"
proof -
  have iff: "(\<exists>s'. go_run {map snd} (\<lambda>i w. w) (example_ended [m0] [m1]) s' \<and> all_done s')
      \<longleftrightarrow> wm_type m0 = Type_DONE \<and> wm_type m1 = Type_DONE" for m0 m1
  proof -
    have two: "(\<forall>i < 2. P i) \<longleftrightarrow> P 0 \<and> P 1" for P :: "nat \<Rightarrow> bool"
      by (auto simp: less_2_cases_iff)
    have n: "length [[m0], example_terminate # [m1]] = length (r_clients example_hub)"
      "length (r_clients example_hub) < 2 ^ 64" "\<not> goes_on (t_route (example_ended [m0] [m1]))"
      "\<not> t_exited (example_ended [m0] [m1])"
      by (simp_all add: example_hub_def example_ended_def)
    have order: "map snd \<in> {map snd :: visit}"
      by simp
    show ?thesis
      unfolding router_finishes_iff [OF example_terminates [OF order, of "\<lambda>i w. w" "[m0]" "[m1]"] n]
        example_hub_clients two
      by (simp add: example_ended_def)
  qed
  show ?thesis
    unfolding iff by (simp add: createErrorTxn_def new_Message_def Type_defs)
qed

end
