(* ===== verification/Router_Run.thy ===== *)
theory Router_Run
  imports Router_Threads
begin

text \<open>
  \<^verbatim>\<open>Run\<close> of the router (\<^verbatim>\<open>src/router/sw_axi/router.go\<close>) up to the start of the goroutines: it accepts the
  clients, then shakes hands with each and serves its registrations, one client after the other, and
  at last commits to all. What a client sends is a list of messages; a list that ends early is a
  connection that fails.
\<close>

section \<open>The loops\<close>

text \<open>\<^verbatim>\<open>NewRouter\<close> with its arguments; it fails for an address that is not a UNIX socket and without clients.\<close>

definition go_NewRouter :: "string \<Rightarrow> int \<Rightarrow> string + router" where
  "go_NewRouter uri numClients =
     (if take 7 uri \<noteq> ''unix://'' then Inl ''Only unix:// protocol is supported''
      else if numClients \<le> 0 then Inl ''You'd probably really like to have at least some clients''
      else Inr NewRouter)"

lemma go_NewRouter_registered:
  "go_NewRouter uri n = Inr r \<Longrightarrow> 0 < n \<and> registered (nat n) (accept_clients (nat n) r)"
  by (auto simp: go_NewRouter_def intro: registered.Accept split: if_splits)

text \<open>
  The registration loop for one client: the router, what is left of the client's messages, and the replies.
  \<open>None\<close>: \<^verbatim>\<open>Run\<close> returns an error.
\<close>

fun serve_client ::
  "go_client \<Rightarrow> wire_Message list \<Rightarrow> router \<Rightarrow> (router \<times> wire_Message list \<times> wire_Message list) option outcome" where
  "serve_client c [] r = Ret None"
| "serve_client c (m # ms) r = bind_outcome (serve_ip c m r) (\<lambda>x. case x of
     None \<Rightarrow> Ret None
   | Some (r1, None) \<Rightarrow> Ret (Some (r1, ms, []))
   | Some (r1, Some reply) \<Rightarrow> bind_outcome (serve_client c ms r1) (\<lambda>y.
       Ret (map_option (\<lambda>(r2, rest, replies). (r2, rest, reply # replies)) y)))"

text \<open>The outer loop, from client \<open>i\<close> on: for each client what is left and what has been sent.\<close>

fun serve_clients ::
  "go_env \<Rightarrow> nat \<Rightarrow> wire_Message list list \<Rightarrow> router
    \<Rightarrow> (router \<times> (wire_Message list \<times> wire_Message list) list) option outcome" where
  "serve_clients E i [] r = Ret (Some (r, []))"
| "serve_clients E i (ms # mss) r = (case ms of
     [] \<Rightarrow> Ret None
   | hello # ms1 \<Rightarrow> if length (r_clients r) \<le> i then Fault OutOfBounds else
       bind_outcome (shakeHands E hello (r_clients r ! i)) (\<lambda>x. case x of
         None \<Rightarrow> Ret None
       | Some (c, answer) \<Rightarrow>
           bind_outcome (serve_client c ms1 (r\<lparr>r_clients := (r_clients r)[i := c]\<rparr>)) (\<lambda>y. case y of
             None \<Rightarrow> Ret None
           | Some (r1, rest, replies) \<Rightarrow>
               bind_outcome (serve_clients E (Suc i) mss r1) (\<lambda>z. Ret (map_option
                 (\<lambda>(r2, ends). (r2, (rest, answer # replies) # ends)) z)))))"

text \<open>
  The whole of it: the threads that run afterwards, with what is left to arrive and what has been
  written to each client.
\<close>

definition go_Run :: "go_env \<Rightarrow> wire_Message list list \<Rightarrow> threads option outcome" where
  "go_Run E mss =
     bind_outcome (serve_clients E 0 mss (accept_clients (length mss) NewRouter)) (\<lambda>x. Ret (map_option (\<lambda>(r, ends).
       (start_threads (map fst ends) r)\<lparr>t_out := map (\<lambda>(rest, sent).
          sent @ commit (map gc_SystemInfo (r_clients r)) (r_ips r)) ends\<rparr>) x))"

section \<open>What it registers\<close>

text \<open>A client that does as the protocol says: its hello, its IP, the commit, and what it sends afterwards.\<close>

definition joins :: "wire_Message \<times> wire_Message list \<times> wire_Message \<Rightarrow> bool" where
  "joins x \<longleftrightarrow> (case x of (hello, ips, cm) \<Rightarrow>
     wm_type hello = Type_SYSTEM_INFO \<and> wm_systemInfo hello \<noteq> None \<and> wm_type cm = Type_COMMIT
     \<and> (\<forall>m \<in> set ips. wm_type m = Type_IP_INFO \<and> wm_ipInfo m \<noteq> None))"

text \<open>The information a client announces.\<close>

definition info_of :: "wire_Message \<Rightarrow> SystemInfo" where
  "info_of hello = (case wm_systemInfo hello of None \<Rightarrow> gc_SystemInfo (newClient 0) | Some si \<Rightarrow>
     \<lparr>si_name = go_string (ws_name si), si_systemName = go_string (ws_systemName si), si_pid = ws_pid si,
      si_hostname = go_string (ws_hostname si)\<rparr>)"

definition asks_for_master :: "wire_Message \<Rightarrow> bool" where
  "asks_for_master m \<longleftrightarrow> (\<exists>w t. wm_ipInfo m = Some w \<and> IpType_of_wire (wi_type w) = Some t \<and> is_master t)"

text \<open>\<open>answers r reply r'\<close>: the reply to a registration and the router after it.\<close>

definition answers :: "router \<Rightarrow> wire_Message \<Rightarrow> router \<Rightarrow> bool" where
  "answers r reply r' \<longleftrightarrow>
     reply = ackIpInfo (of_nat (length (r_ips r))) \<and> length (r_ips r') = Suc (length (r_ips r))
   \<or> (\<exists>err. reply = createErrorMessage err) \<and> r_ips r' = r_ips r"

lemma serve_ip_request:
  assumes "wm_type m = Type_IP_INFO" "wm_ipInfo m \<noteq> None" "unat (gc_Id c) < length (r_clients r)"
    and "r_ipCount r = of_nat (length (r_ips r))"
  shows "\<exists>r' reply. serve_ip c m r = Ret (Some (r', Some reply)) \<and> answers r reply r'
    \<and> r_clients r' = r_clients r \<and> r_ipCount r' = of_nat (length (r_ips r'))
    \<and> r_masterCount r' = r_masterCount r + of_bool (asks_for_master m)
    \<and> (\<exists>ips. r_ips r' = r_ips r @ ips)"
proof -
  obtain w where w: "wm_ipInfo m = Some w"
    using assms(2) by blast
  obtain ip where ip: "receiveIpInfo c m = Ret (Ip_request ip)" "ii_client ip = gc_Id c"
      "is_master (ii_type ip) \<longleftrightarrow> asks_for_master m"
    using assms(1) w
    by (simp add: receiveIpInfo_def Type_defs asks_for_master_def is_master_def split: option.split)
  let ?n = "r_masterCount r + of_bool (asks_for_master m)"
  let ?r1 = "r\<lparr>r_masterCount := ?n\<rparr>"
  have r1: "(if is_master (ii_type ip) then r\<lparr>r_masterCount := r_masterCount r + 1\<rparr> else r) = ?r1"
    using ip(3) by simp
  show ?thesis
  proof (cases "find (conflicts ip) (r_ips r)")
    case None
    let ?r' = "?r1\<lparr>r_ipCount := r_ipCount r + 1,
      r_ipMMap := AList.update (ii_address ip) (ip\<lparr>ii_id := r_ipCount r\<rparr>) (r_ipMMap r),
      r_ips := r_ips r @ [ip\<lparr>ii_id := r_ipCount r\<rparr>]\<rparr>"
    have "registerIp ip r = Ret (?r', Inr (r_ipCount r))"
      using None ip(2) assms(3) unfolding registerIp_def r1 by (simp add: Let_def)
    then have "serve_ip c m r = Ret (Some (?r', Some (ackIpInfo (r_ipCount r))))"
      by (simp add: serve_ip_def ip(1))
    then show ?thesis
      using assms(4) by (intro exI [of _ ?r'] exI [of _ "ackIpInfo (r_ipCount r)"]) (simp add: answers_def)
  next
    case (Some rIp)
    let ?err = "''Address space overlaps with already registered '' @ ii_name rIp @ '' IP block''"
    have "registerIp ip r = Ret (?r1, Inl ?err)"
      using Some unfolding registerIp_def r1 by (simp add: Let_def)
    then have "serve_ip c m r = Ret (Some (?r1, Some (createErrorMessage ?err)))"
      by (simp add: serve_ip_def ip(1))
    then show ?thesis
      using assms(4) by (intro exI [of _ ?r1] exI [of _ "createErrorMessage ?err"]) (simp add: answers_def, blast)
  qed
qed

text \<open>The identifiers that some replies acknowledge.\<close>

definition acked :: "wire_Message list \<Rightarrow> u64 list" where
  "acked ms = map wm_ipId (filter (\<lambda>m. wm_type m = Type_IP_ACK) ms)"

lemma acked_simps [simp]: "acked [] = []"
  "acked (m # ms) = (if wm_type m = Type_IP_ACK then [wm_ipId m] else []) @ acked ms"
  by (simp_all add: acked_def)

lemma answers_acked:
  assumes "answers r reply r'"
  shows "acked [reply] = map of_nat [length (r_ips r)..<length (r_ips r')]" "length (r_ips r) \<le> length (r_ips r')"
  using assms by (auto simp: answers_def ackIpInfo_def createErrorMessage_def new_Message_def Type_defs)

text \<open>What serving some clients, or one, has added to the router.\<close>

definition served :: "wire_Message list \<Rightarrow> u64 list \<Rightarrow> router \<Rightarrow> router \<Rightarrow> bool" where
  "served requests ids r r' \<longleftrightarrow> ids = map of_nat [length (r_ips r)..<length (r_ips r')]
     \<and> length (r_ips r) \<le> length (r_ips r') \<and> r_ipCount r' = of_nat (length (r_ips r'))
     \<and> r_masterCount r' = r_masterCount r + of_nat (length (filter asks_for_master requests))"

lemma served_refl: "r_ipCount r = of_nat (length (r_ips r)) \<Longrightarrow> served [] [] r r"
  by (simp add: served_def)

lemma served_trans:
  assumes "served a ids r r1" "served b ids' r1 r2"
  shows "served (a @ b) (ids @ ids') r r2"
proof -
  have "[length (r_ips r)..<length (r_ips r2)]
      = [length (r_ips r)..<length (r_ips r1)] @ [length (r_ips r1)..<length (r_ips r2)]"
    using assms upt_add_eq_append [of "length (r_ips r)" "length (r_ips r1)" "length (r_ips r2) - length (r_ips r1)"]
    by (simp add: served_def)
  then show ?thesis
    using assms by (simp add: served_def)
qed

lemma serve_client_requests:
  assumes "\<forall>m \<in> set ips. wm_type m = Type_IP_INFO \<and> wm_ipInfo m \<noteq> None" "wm_type cm = Type_COMMIT"
    and "unat (gc_Id c) < length (r_clients r)" "r_ipCount r = of_nat (length (r_ips r))"
  shows "\<exists>r' replies. serve_client c (ips @ cm # rest) r = Ret (Some (r', rest, replies))
    \<and> length replies = length ips \<and> served ips (acked replies) r r' \<and> r_clients r' = r_clients r"
  using assms
proof (induction ips arbitrary: r)
  case Nil
  then have "serve_client c ([] @ cm # rest) r = Ret (Some (r, rest, []))"
    by (simp add: serve_ip_def receiveIpInfo_def)
  then show ?case
    using served_refl [OF Nil.prems(4)] by simp
next
  case (Cons m ips)
  obtain r1 reply where m: "serve_ip c m r = Ret (Some (r1, Some reply))" "answers r reply r1"
      "r_clients r1 = r_clients r" "r_ipCount r1 = of_nat (length (r_ips r1))"
      "r_masterCount r1 = r_masterCount r + of_bool (asks_for_master m)"
    using serve_ip_request [of m c r] Cons.prems by auto
  obtain r2 replies where ips: "serve_client c (ips @ cm # rest) r1 = Ret (Some (r2, rest, replies))"
      "length replies = length ips" "served ips (acked replies) r1 r2" "r_clients r2 = r_clients r1"
    using Cons.IH [of r1] Cons.prems m(3,4) by auto
  have "served [m] (acked [reply]) r r1"
    using answers_acked [OF m(2)] m(4,5) by (simp add: served_def del: acked_simps)
  from served_trans [OF this ips(3)] have "served (m # ips) (acked (reply # replies)) r r2"
    by simp
  then show ?case
    using m(1,3) ips(1,2,4) by (intro exI [of _ r2] exI [of _ "reply # replies"]) simp
qed

definition router_info :: "go_env \<Rightarrow> string \<Rightarrow> wire_Message" where
  "router_info E hn = system_info_message \<lparr>si_name = ''router'', si_systemName = go_systemName E,
     si_pid = g_pid E, si_hostname = hn\<rparr>"

lemma shakeHands_joins:
  assumes "g_hostname E = Some hn" "wm_type hello = Type_SYSTEM_INFO" "wm_systemInfo hello \<noteq> None"
  shows "shakeHands E hello c = Ret (Some (c\<lparr>gc_SystemInfo := info_of hello\<rparr>, router_info E hn))"
  using assms by (auto simp: shakeHands_def info_of_def router_info_def)

text \<open>What such a client sends.\<close>

definition says :: "wire_Message \<times> wire_Message list \<times> wire_Message \<Rightarrow> wire_Message list \<Rightarrow> wire_Message list" where
  "says x rest = (case x of (hello, ips, cm) \<Rightarrow> hello # ips @ cm # rest)"

abbreviation requests :: "wire_Message \<times> wire_Message list \<times> wire_Message \<Rightarrow> wire_Message list" where
  "requests x \<equiv> fst (snd x)"

lemma serve_clients_joins:
  assumes hn: "g_hostname E = Some hn"
  shows "list_all joins xs \<Longrightarrow> length rests = length xs \<Longrightarrow> length (r_clients r) = i + length xs \<Longrightarrow>
    \<forall>c \<in> set (r_clients r). gc_Id c = 0 \<Longrightarrow>
    r_ipCount r = of_nat (length (r_ips r)) \<Longrightarrow>
    \<exists>r' replies. serve_clients E i (map2 says xs rests) r
        = Ret (Some (r', zip rests (map ((#) (router_info E hn)) replies)))
      \<and> map length replies = map (length \<circ> requests) xs
      \<and> map gc_SystemInfo (r_clients r') = take i (map gc_SystemInfo (r_clients r)) @ map (info_of \<circ> fst) xs
      \<and> served (concat (map requests xs)) (concat (map acked replies)) r r'"
proof (induction xs arbitrary: rests r i)
  case Nil
  then show ?case
    using served_refl [of r] by simp
next
  case (Cons x xs)
  obtain hello ips cm where x: "x = (hello, ips, cm)"
    by (cases x)
  obtain rest rests' where rests: "rests = rest # rests'" "length rests' = length xs"
    using Cons.prems(2) by (cases rests) auto
  have j: "wm_type hello = Type_SYSTEM_INFO" "wm_systemInfo hello \<noteq> None" "wm_type cm = Type_COMMIT"
      "\<forall>m \<in> set ips. wm_type m = Type_IP_INFO \<and> wm_ipInfo m \<noteq> None"
    using Cons.prems(1) by (simp_all add: x joins_def)
  have i: "i < length (r_clients r)"
    using Cons.prems(3) by simp
  let ?c = "(r_clients r ! i)\<lparr>gc_SystemInfo := info_of hello\<rparr>"
  let ?r = "r\<lparr>r_clients := (r_clients r)[i := ?c]\<rparr>"
  have c: "gc_Id ?c = 0"
    using Cons.prems(4) i by simp
  have "0 < length (r_clients r)"
    using i by linarith
  then have pre: "unat (gc_Id ?c) < length (r_clients ?r)" "r_ipCount ?r = of_nat (length (r_ips ?r))"
    using c Cons.prems(5) by simp_all
  obtain r1 replies where r1: "serve_client ?c (ips @ cm # rest) ?r = Ret (Some (r1, rest, replies))"
      "length replies = length ips" "served ips (acked replies) ?r r1" "r_clients r1 = r_clients ?r"
    using serve_client_requests [OF j(4,3) pre, of rest] by blast
  have "\<forall>c \<in> set (r_clients r1). gc_Id c = 0"
    using Cons.prems(4) c set_update_subset_insert [of "r_clients r" i ?c] unfolding r1(4) by auto
  moreover have "r_ipCount r1 = of_nat (length (r_ips r1))" "length (r_clients r1) = length (r_clients r)"
    using r1(3,4) by (simp_all add: served_def)
  ultimately obtain r2 repliess where r2: "serve_clients E (Suc i) (map2 says xs rests') r1
        = Ret (Some (r2, zip rests' (map ((#) (router_info E hn)) repliess)))"
      "map length repliess = map (length \<circ> requests) xs"
      "map gc_SystemInfo (r_clients r2) = take (Suc i) (map gc_SystemInfo (r_clients r1)) @ map (info_of \<circ> fst) xs"
      "served (concat (map requests xs)) (concat (map acked repliess)) r1 r2"
    using Cons.IH [of rests' r1 "Suc i"] Cons.prems rests(2) by auto
  have "serve_clients E i (map2 says (x # xs) rests) r
      = Ret (Some (r2, zip rests (map ((#) (router_info E hn)) (replies # repliess))))"
    using i r1(1) r2(1) by (simp add: x rests(1) says_def shakeHands_joins [OF hn j(1,2)])
  moreover have "map gc_SystemInfo (r_clients r2)
      = take i (map gc_SystemInfo (r_clients r)) @ map (info_of \<circ> fst) (x # xs)"
    using i unfolding r2(3) r1(4) by (simp add: x take_Suc_conv_app_nth take_map map_update)
  moreover have "served (concat (map requests (x # xs))) (concat (map acked (replies # repliess))) r r2"
    using served_trans [of ips "acked replies" r r1] r1(3) r2(4) by (simp add: x served_def)
  ultimately show ?case
    using r1(2) r2(2) by (intro exI [of _ r2] exI [of _ "replies # repliess"]) (simp add: x)
qed

text \<open>
  C26: the registration of a whole group. If each client says hello, asks for IP, and commits, \<^verbatim>\<open>Run\<close> gets
  to its goroutines. Each client has by then been sent the information of the router, one reply to each
  request, and then the information of all clients, in the order in which they connected, and all
  IP. The identifiers acknowledged, over all clients in that order, are 0, 1, 2 and so on, without
  gap or repetition, one for each IP on the list. What the clients send after the commit is left
  for the routing. The masters counted are those asked for, registered or refused.
\<close>

theorem Run_registers:
  assumes "g_hostname E = Some hn" "list_all joins xs" "length rests = length xs"
  shows "\<exists>s replies. go_Run E (map2 says xs rests) = Ret (Some s) \<and> t_in s = rests
    \<and> map gc_SystemInfo (r_clients (t_router s)) = map (info_of \<circ> fst) xs
    \<and> map length replies = map (length \<circ> requests) xs
    \<and> t_out s = map (\<lambda>rs. router_info E hn # rs @ commit (map (info_of \<circ> fst) xs) (r_ips (t_router s))) replies
    \<and> concat (map acked replies) = map of_nat [0..<length (r_ips (t_router s))]
    \<and> r_masterCount (t_router s) = of_nat (length (filter asks_for_master (concat (map requests xs))))"
proof -
  let ?r = "accept_clients (length xs) NewRouter"
  have r: "length (r_clients ?r) = 0 + length xs" "\<forall>c \<in> set (r_clients ?r). gc_Id c = 0"
    "r_ipCount ?r = of_nat (length (r_ips ?r))" "r_ips ?r = []" "r_masterCount ?r = 0"
    by (auto simp: accept_clients_def NewRouter_def newClient_def)
  obtain r' replies where run: "serve_clients E 0 (map2 says xs rests) ?r
        = Ret (Some (r', zip rests (map ((#) (router_info E hn)) replies)))"
      "map length replies = map (length \<circ> requests) xs"
      "map gc_SystemInfo (r_clients r') = map (info_of \<circ> fst) xs"
      "served (concat (map requests xs)) (concat (map acked replies)) ?r r'"
    using serve_clients_joins [OF assms(1,2,3) r(1,2,3)] by auto
  have len: "length replies = length rests" "length (map2 says xs rests) = length xs"
    using map_eq_imp_length_eq [OF run(2)] assms(3) by simp_all
  have out: "map (\<lambda>(rest, sent). sent @ ms) (zip rests (map ((#) a) replies)) = map (\<lambda>rs. a # rs @ ms) replies" for a ms
    using len(1) by (simp add: zip_map2 map_zip_map2 list_eq_iff_nth_eq)
  let ?s = "(start_threads rests r')\<lparr>t_out := map (\<lambda>rs. router_info E hn # rs
      @ commit (map (info_of \<circ> fst) xs) (r_ips r')) replies\<rparr>"
  have "go_Run E (map2 says xs rests) = Ret (Some ?s)"
    unfolding go_Run_def len(2) using run(1,3) len(1) out by simp
  then show ?thesis
    using run(2,3,4) r(4,5) by (intro exI [of _ ?s] exI [of _ replies]) (simp add: start_threads_def served_def)
qed

section \<open>The whole run\<close>

lemma serve_client_registered:
  "registered n r \<Longrightarrow> c \<in> set (r_clients r) \<Longrightarrow> serve_client c ms r = Ret (Some (r', rest, replies)) \<Longrightarrow> registered n r'"
proof (induction ms arbitrary: r replies)
  case (Cons m ms)
  obtain x where x: "serve_ip c m r = Ret x"
    using Cons.prems(3) by (auto simp: bind_outcome_eq_Ret)
  obtain r1 reply where m: "serve_ip c m r = Ret (Some (r1, reply))"
    using Cons.prems(3) x by (cases x) auto
  have r1: "registered n r1"
    by (rule registered.Serve [OF Cons.prems(1,2) m])
  have c: "c \<in> set (r_clients r1)"
    using serve_ip_registers [OF m] registerIp_ips Cons.prems(2) by metis
  show ?case
  proof (cases reply)
    case None
    then show ?thesis
      using Cons.prems(3) m r1 by simp
  next
    case (Some a)
    then obtain y where "serve_client c ms r1 = Ret (Some y)" "r' = fst y" "rest = fst (snd y)"
      using Cons.prems(3) m by (auto simp: bind_outcome_eq_Ret)
    then show ?thesis
      using Cons.IH [OF r1 c] by (cases y) simp
  qed
qed simp

lemma serve_clients_registered:
  "registered n r \<Longrightarrow> serve_clients E i mss r = Ret (Some (r', ends)) \<Longrightarrow> registered n r' \<and> length ends = length mss"
proof (induction mss arbitrary: i r ends)
  case (Cons ms mss)
  obtain hello ms1 where ms: "ms = hello # ms1"
    using Cons.prems(2) by (cases ms) simp_all
  have i: "i < length (r_clients r)"
    using Cons.prems(2) ms by (simp split: if_splits)
  obtain x where x: "shakeHands E hello (r_clients r ! i) = Ret x"
    using Cons.prems(2) ms i by (auto simp: bind_outcome_eq_Ret)
  obtain c answer where c: "shakeHands E hello (r_clients r ! i) = Ret (Some (c, answer))"
    using Cons.prems(2) ms i x by (cases x) auto
  let ?r = "r\<lparr>r_clients := (r_clients r)[i := c]\<rparr>"
  obtain y where y: "serve_client c ms1 ?r = Ret y"
    using Cons.prems(2) ms i c by (auto simp: bind_outcome_eq_Ret)
  obtain r1 rest replies where r1: "serve_client c ms1 ?r = Ret (Some (r1, rest, replies))"
    using Cons.prems(2) ms i c y by (cases y) auto
  obtain z where z: "serve_clients E (Suc i) mss r1 = Ret z"
    using Cons.prems(2) ms i c r1 by (auto simp: bind_outcome_eq_Ret)
  obtain ends' where ends: "serve_clients E (Suc i) mss r1 = Ret (Some (r', ends'))" "ends = (rest, answer # replies) # ends'"
    using Cons.prems(2) ms i c r1 z by (cases z) auto
  have "registered n ?r"
    by (rule registered.Shake [OF Cons.prems(1) i c])
  moreover have "c \<in> set (r_clients ?r)"
    using i by (simp add: set_update_memI)
  ultimately have "registered n r1"
    using serve_client_registered r1 by blast
  from Cons.IH [OF this ends(1)] show ?case
    using ends(2) by simp
qed simp

lemma go_Run_registered:
  assumes "go_Run E mss = Ret (Some s)"
  obtains r ends where "registered (length mss) r" "length ends = length mss"
    "s = (start_threads (map fst ends) r)\<lparr>t_out := map (\<lambda>(rest, sent).
       sent @ commit (map gc_SystemInfo (r_clients r)) (r_ips r)) ends\<rparr>"
proof -
  obtain r ends where "serve_clients E 0 mss (accept_clients (length mss) NewRouter) = Ret (Some (r, ends))"
      "s = (start_threads (map fst ends) r)\<lparr>t_out := map (\<lambda>(rest, sent).
       sent @ commit (map gc_SystemInfo (r_clients r)) (r_ips r)) ends\<rparr>"
    using assms by (auto simp: go_Run_def bind_outcome_eq_Ret)
  then show ?thesis
    using that serve_clients_registered [OF registered.Accept] by blast
qed

text \<open>
  \<open>only_done i base s\<close>: what client \<open>i\<close> gets after \<open>base\<close> is at most the DONE.
\<close>

definition only_done :: "nat \<Rightarrow> nat \<Rightarrow> wire_Message list \<Rightarrow> threads \<Rightarrow> bool" where
  "only_done n i base s \<longleftrightarrow> winding n s \<and> length (t_out s) = n \<and> first_only (t_router s)
     \<and> (goes_on (t_route s) \<longrightarrow> (\<forall>(c, m) \<in> set (unsent (t_route s)). c = 0))
     \<and> (\<forall>m. t_writers s ! i = Writing m \<longrightarrow> wm_type m = Type_DONE)
     \<and> t_out s ! i @ unwritten (t_writers s ! i)
         = base @ (if told_writer (t_writers s ! i) then [new_Message Type_DONE] else [])"

lemma route_keeps_ips:
  "route order mutate m r = Ret (r1, outs, on) \<Longrightarrow> r_ips r1 = r_ips r \<and> r_ipMMap r1 = r_ipMMap r"
  by (auto simp: route_def Let_def client_of_ip_def go_index_def deref_eq_Ret
      split: if_splits sum.splits prod.splits)

lemma only_done_receive:
  assumes o: "only_done n i base s" and r: "t_route s = Route_Waiting"
    and m: "route order mutate m (t_router s) = Ret (r1, outs, on)"
    and order: "\<And>mm. set (order mm) \<subseteq> snd ` set mm"
  shows "only_done n i base (s\<lparr>t_router := r1, t_readers := (t_readers s)[j := Reading], t_route := after_round outs on\<rparr>)"
proof -
  have parts: "winding n s" "length (t_out s) = n" "first_only (t_router s)"
    "t_out s ! i @ unwritten (t_writers s ! i) = base @ (if told_writer (t_writers s ! i) then [new_Message Type_DONE] else [])"
    "\<forall>m. t_writers s ! i = Writing m \<longrightarrow> wm_type m = Type_DONE"
    using o unfolding only_done_def by blast+
  have "first_only r1"
    using route_keeps_ips [OF m] parts(3) by (simp add: first_only_def)
  moreover have "\<forall>(c, m) \<in> set outs. c = 0" if on
    using route_first_only [OF parts(3), of order mutate m r1 outs] order m that by simp
  ultimately show ?thesis
    unfolding only_done_def using winding_receive [OF parts(1) r m] parts(2,4,5) by simp
qed

lemma only_done_send:
  assumes o: "only_done n i base s" and n: "n < 2 ^ 64" "0 < i" "i < n"
    and c: "t_route s = Route_Sending ((c, m) # outs) on" "t_writers s ! unat c = Writer_Idle"
  shows "only_done n i base (s\<lparr>t_writers := (t_writers s)[unat c := Writing m], t_route := after_round outs on\<rparr>)"
    (is "only_done n i base ?s")
proof -
  have parts: "winding n s" "length (t_out s) = n" "first_only (t_router s)"
    "goes_on (t_route s) \<longrightarrow> (\<forall>(c, m) \<in> set (unsent (t_route s)). c = 0)"
    "t_out s ! i @ unwritten (t_writers s ! i) = base @ (if told_writer (t_writers s ! i) then [new_Message Type_DONE] else [])"
    "length (t_writers s) = n" "\<forall>m. t_writers s ! i = Writing m \<longrightarrow> wm_type m = Type_DONE"
    using o unfolding only_done_def winding_def by blast+
  have cm: "unat c < n" "unat c = i \<Longrightarrow> m = new_Message Type_DONE"
  proof -
    show "unat c < n"
    proof (cases on)
      case True
      then show ?thesis using parts(1) c(1) by (simp add: winding_def working_def)
    next
      case False
      then obtain k where "ending n k s"
        using parts(1) c(1) by (auto simp: winding_def)
      then show ?thesis
        using done_from_Cons [of k n c m outs] n(1) c(1) by (simp add: ending_def)
    qed
    assume ci: "unat c = i"
    have "\<not> on"
      using parts(4) c(1) ci n(2) by auto
    then obtain k where "ending n k s"
      using parts(1) c(1) by (auto simp: winding_def)
    then show "m = new_Message Type_DONE"
      using done_from_Cons [of k n c m outs] n(1) c(1) by (simp add: ending_def)
  qed
  have "winding n ?s"
    by (rule winding_send [OF parts(1) n(1) c(1) cm(1)])
  moreover have "t_out ?s ! i @ unwritten (t_writers ?s ! i)
      = base @ (if told_writer (t_writers ?s ! i) then [new_Message Type_DONE] else [])"
    using parts(5,6) c(2) cm n(3) by (cases "unat c = i") simp_all
  moreover have "\<forall>m'. t_writers ?s ! i = Writing m' \<longrightarrow> wm_type m' = Type_DONE"
    using parts(6,7) cm n(3) by (cases "unat c = i") simp_all
  ultimately show ?thesis
    unfolding only_done_def using parts(2,3,4) c(1) by simp
qed

lemma only_done_write:
  assumes o: "only_done n i base s" and n: "i < n" and j: "j < n" "t_writers s ! j = Writing m"
  shows "only_done n i base (s\<lparr>t_out := (t_out s)[j := t_out s ! j @ [m]], t_writers := (t_writers s)[j := after_write m]\<rparr>)"
    (is "only_done n i base ?s")
proof -
  have parts: "winding n s" "length (t_out s) = n" "first_only (t_router s)"
    "goes_on (t_route s) \<longrightarrow> (\<forall>(c, m) \<in> set (unsent (t_route s)). c = 0)"
    "t_out s ! i @ unwritten (t_writers s ! i) = base @ (if told_writer (t_writers s ! i) then [new_Message Type_DONE] else [])"
    "length (t_writers s) = n" "\<forall>m. t_writers s ! i = Writing m \<longrightarrow> wm_type m = Type_DONE"
    using o unfolding only_done_def winding_def by blast+
  have told: "told_writer (after_write m) \<longleftrightarrow> told_writer (Writing m)"
    by (simp add: after_write_def)
  have "t_out ?s ! i @ unwritten (t_writers ?s ! i)
      = base @ (if told_writer (t_writers ?s ! i) then [new_Message Type_DONE] else [])"
    using parts(2,5,6) j n told by (cases "j = i") simp_all
  moreover have "\<forall>m'. t_writers ?s ! i = Writing m' \<longrightarrow> wm_type m' = Type_DONE"
    using parts(6,7) n by (cases "j = i") (simp_all add: after_write_def)
  ultimately show ?thesis
    unfolding only_done_def using winding_write [OF parts(1) j(2,1)] parts(2,3,4) by simp
qed

lemma only_done_step:
  assumes o: "only_done n i base s" and n: "n < 2 ^ 64" "0 < i" "i < n"
    and order: "\<And>order mm. order \<in> orders \<Longrightarrow> set (order mm) \<subseteq> snd ` set mm" and step: "go_step orders mutate s s'"
  shows "only_done n i base s'"
  using step
proof cases
  case (Read j m ms)
  then show ?thesis
    using o winding_cong [of n s s'] by (simp add: only_done_def)
next
  case (Receive j m order r1 outs on)
  show ?thesis unfolding Receive(1) by (rule only_done_receive [OF o Receive(3,7) order [OF Receive(6)]])
next
  case (Send c m outs on)
  show ?thesis unfolding Send(1) by (rule only_done_send [OF o n Send(3,5)])
next
  case (Write j m)
  then have "j < n"
    using o by (simp add: only_done_def winding_def)
  then show ?thesis unfolding Write(1) by (rule only_done_write [OF o n(3) _ Write(4)])
next
  case (Read_fails j)
  then show ?thesis
    using o winding_cong [of n s s'] by (simp add: only_done_def)
next
  case (Receive_fails j m order e)
  then show ?thesis
    using o winding_cong [of n s s'] by (simp add: only_done_def)
next
  case (Write_fails j m)
  then show ?thesis
    using o winding_cong [of n s s'] by (simp add: only_done_def)
qed

lemma only_done_run:
  assumes "go_run orders mutate s s'" "only_done n i base s" "n < 2 ^ 64" "0 < i" "i < n"
    and "\<And>order mm. order \<in> orders \<Longrightarrow> set (order mm) \<subseteq> snd ` set mm"
  shows "only_done n i base s'"
  using assms(1,2) by induction (use only_done_step assms(3-6) in blast)+

text \<open>
  C27: in a whole run of the router, from the first connection on, a client other than the first is sent
  the handshake, the answers to its registrations and the lists, and afterwards nothing but at most one
  DONE, whatever the clients send, however the goroutines interleave and in whatever orders the loops of the router
  visit the address map: no request ever reaches
  a slave of such a client, and no response a master of it.
\<close>

theorem Run_serves_only_first:
  assumes "go_Run E mss = Ret (Some s0)" "go_run orders mutate s0 s" "\<forall>order \<in> orders. \<forall>mm. set (order mm) \<subseteq> snd ` set mm"
    and "0 < i" "i < length mss" "length mss < 2 ^ 64"
  shows "t_out s ! i = t_out s0 ! i \<or> t_out s ! i = t_out s0 ! i @ [new_Message Type_DONE]"
proof -
  let ?n = "length mss"
  obtain r ends where r: "registered ?n r" "length ends = ?n"
    and s0: "s0 = (start_threads (map fst ends) r)\<lparr>t_out := map (\<lambda>(rest, sent).
       sent @ commit (map gc_SystemInfo (r_clients r)) (r_ips r)) ends\<rparr>" (is "_ = ?s\<lparr>t_out := ?out\<rparr>")
    using go_Run_registered [OF assms(1)] .
  have n: "length (r_clients r) = ?n"
    using registered_shape [OF r(1)] by blast
  have "winding (length (r_clients r)) s0"
    by (rule winding_cong [OF winding_start [of r "map fst ends"]]) (simp_all add: s0)
  then have "winding ?n s0"
    by (simp add: n)
  moreover have "first_only (t_router s0)" "length (t_out s0) = ?n" "t_writers s0 ! i = Writer_Idle"
      "t_route s0 = Route_Waiting"
    using registered_first_only [OF r(1)] r(2) assms(5) n by (simp_all add: s0 start_threads_def)
  ultimately have "only_done ?n i (t_out s0 ! i) s0"
    by (simp add: only_done_def)
  from only_done_run [OF assms(2) this assms(6,4,5)] assms(3)
  have "t_out s ! i @ unwritten (t_writers s ! i)
      = t_out s0 ! i @ (if told_writer (t_writers s ! i) then [new_Message Type_DONE] else [])"
    "\<forall>m. t_writers s ! i = Writing m \<longrightarrow> wm_type m = Type_DONE"
    unfolding only_done_def by blast+
  then show ?thesis
    by (cases "t_writers s ! i") (auto split: if_splits)
qed

text \<open>The instance: two clients, the second with a slave.\<close>

definition example_group :: "(wire_Message \<times> wire_Message list \<times> wire_Message) list" where
  "example_group = [(example_hello, [], new_Message Type_COMMIT),
     (example_hello, [ip_message (example_block 0x1000 0x100)], new_Message Type_COMMIT)]"

lemma example_group_joins: "list_all joins example_group"
  by (simp add: example_group_def joins_def example_hello_def system_info_message_def ip_message_def new_Message_def)

lemma example_go_env_host: "g_hostname example_go_env = Some ''host''"
  by (simp add: example_go_env_def)

theorem Run_registers_witness:
  "\<exists>s. go_Run example_go_env (map2 says example_group [[example_read], []]) = Ret (Some s)
    \<and> t_in s = [[example_read], []] \<and> length (t_out s) = 2 \<and> r_masterCount (t_router s) = 0"
proof -
  have len: "length [[example_read], []] = length example_group"
    by (simp add: example_group_def)
  have masters: "filter asks_for_master (concat (map requests example_group)) = []"
    by (simp add: example_group_def asks_for_master_def ip_message_def new_Message_def example_block_def
        IpType_of_wire_def is_master_def)
  obtain s replies where s: "go_Run example_go_env (map2 says example_group [[example_read], []]) = Ret (Some s)"
      "t_in s = [[example_read], []]" "map length replies = map (length \<circ> requests) example_group"
      "t_out s = map (\<lambda>rs. router_info example_go_env ''host'' # rs
        @ commit (map (info_of \<circ> fst) example_group) (r_ips (t_router s))) replies"
      "r_masterCount (t_router s) = 0"
    using Run_registers [OF example_go_env_host example_group_joins len] unfolding masters by auto
  have "length replies = 2"
    using map_eq_imp_length_eq [OF s(3)] by (simp add: example_group_def)
  then have "length (t_out s) = 2"
    unfolding s(4) by simp
  with s(1,2,5) show ?thesis
    by blast
qed

text \<open>The first client reads from the block of the second.\<close>

theorem Run_serves_only_first_witness:
  "\<exists>s0 s. go_Run example_go_env (map2 says example_group [[example_read], []]) = Ret (Some s0)
    \<and> go_run {map snd} (\<lambda>i w. w) s0 s \<and> t_in s = [[], []]
    \<and> (t_out s ! 1 = t_out s0 ! 1 \<or> t_out s ! 1 = t_out s0 ! 1 @ [new_Message Type_DONE])"
proof -
  let ?mss = "map2 says example_group [[example_read], []]"
  have n: "length ?mss = 2"
    by (simp add: example_group_def)
  have pre: "length [[example_read], []] = length example_group"
    "length (r_clients (accept_clients 2 NewRouter)) = 0 + length example_group"
    "\<forall>c \<in> set (r_clients (accept_clients 2 NewRouter)). gc_Id c = 0"
    "r_ipCount (accept_clients 2 NewRouter) = of_nat (length (r_ips (accept_clients 2 NewRouter)))"
    by (auto simp: example_group_def accept_clients_def NewRouter_def newClient_def)
  obtain r' replies where run: "serve_clients example_go_env 0 ?mss (accept_clients 2 NewRouter)
      = Ret (Some (r', zip [[example_read], []] (map ((#) (router_info example_go_env ''host'')) replies)))"
      "map length replies = map (length \<circ> requests) example_group"
      "map gc_SystemInfo (r_clients r') = take 0 (map gc_SystemInfo (r_clients (accept_clients 2 NewRouter)))
        @ map (info_of \<circ> fst) example_group"
    using serve_clients_joins [OF example_go_env_host example_group_joins pre] by blast
  have len: "length replies = 2" "length (r_clients r') = 2"
    using map_eq_imp_length_eq [OF run(2)] map_eq_imp_length_eq [OF run(3) [simplified]]
    by (simp_all add: example_group_def)
  then obtain s0 where s0: "go_Run example_go_env ?mss = Ret (Some s0)" "t_in s0 = [[example_read], []]"
      "t_readers s0 ! 0 = Reading" "length (t_readers s0) = 2" "\<not> t_exited s0"
    using run(1) unfolding go_Run_def n by (auto simp: start_threads_def)
  let ?s = "s0\<lparr>t_in := (t_in s0)[0 := []], t_readers := (t_readers s0)[0 := after_read example_read]\<rparr>"
  have "go_step {map snd} (\<lambda>i w. w) s0 ?s"
    by (rule go_step.Read) (use s0 in simp_all)
  then have step: "go_run {map snd} (\<lambda>i w. w) s0 ?s" ..
  have "t_in ?s = [[], []]"
    using s0(2) by simp
  moreover have "t_out ?s ! 1 = t_out s0 ! 1 \<or> t_out ?s ! 1 = t_out s0 ! 1 @ [new_Message Type_DONE]"
    by (rule Run_serves_only_first [OF s0(1) step]) (simp_all add: example_group_def)
  ultimately show ?thesis
    using s0(1) step by blast
qed

end
