(* ===== verification/Go_Socket.thy ===== *)
theory Go_Socket
  imports Socket_IO
begin

text \<open>
  The framing functions of the router, \<^verbatim>\<open>readMsg\<close> and \<^verbatim>\<open>writeMsg\<close> of \<^verbatim>\<open>src/router/sw_axi/client.go\<close>, over the
  same kernel as those of the C++ side, and how the two sides understand each other. \<^verbatim>\<open>io.ReadFull\<close> and the
  \<^verbatim>\<open>Write\<close> of a connection, which \<^verbatim>\<open>io.Copy\<close> calls, are loops of Go's library.
\<close>

section \<open>Reading\<close>

text \<open>
  \<^verbatim>\<open>io.ReadFull\<close>: it reads until the slice is full, and fails on an error and at the end of the stream,
  where a read returns nothing.
\<close>

function go_readFull :: "nat \<Rightarrow> rd_event list \<Rightarrow> u8 list option \<times> rd_event list" where
  "go_readFull n k =
     (if n = 0 then (Some [], k)
      else (case sys_read k (of_nat n) of
        (RdFail, k1) \<Rightarrow> (None, k1)
      | (RdBytes bs, k1) \<Rightarrow>
          if bs = [] then (None, k1)
          else (case go_readFull (n - length bs) k1 of (r, k2) \<Rightarrow> (map_option ((@) bs) r, k2))))"
  by pat_completeness auto
termination
  by (relation "measure fst") auto

declare go_readFull.simps [simp del]

text \<open>
  \<^verbatim>\<open>readMsg\<close>; \<open>None\<close> is an error. \<^verbatim>\<open>make\<close> panics beyond the largest slice the runtime can allocate, \<open>limit\<close>.
\<close>

definition readMsg :: "nat \<Rightarrow> rd_event list \<Rightarrow> (u8 list option \<times> rd_event list) outcome" where
  "readMsg limit k =
     (case go_readFull 8 k of
        (None, k1) \<Rightarrow> Ret (None, k1)
      | (Some sizeArr, k1) \<Rightarrow>
          let sz = unat (un_le64 sizeArr) in
          if limit < sz then Fault Terminate else Ret (go_readFull sz k1))"

section \<open>Writing\<close>

function go_writeAll :: "wr_chan \<Rightarrow> u8 list \<Rightarrow> bool \<times> wr_chan" where
  "go_writeAll w bs =
     (if bs = [] then (True, w)
      else (case sys_write w bs of
        (None, w1) \<Rightarrow> (False, w1)
      | (Some n, w1) \<Rightarrow> if n = 0 then (False, w1) else go_writeAll w1 (drop n bs)))"
  by pat_completeness auto
termination
  by (relation "measure (\<lambda>(w, bs). length bs)") auto

declare go_writeAll.simps [simp del]

definition writeMsg :: "wr_chan \<Rightarrow> u8 list \<Rightarrow> bool \<times> wr_chan" where
  "writeMsg w msg =
     (case go_writeAll w (le64 (of_nat (length msg))) of
        (False, w1) \<Rightarrow> (False, w1)
      | (True, w1) \<Rightarrow> go_writeAll w1 msg)"

section \<open>What they do\<close>

lemma go_readFull_eq:
  "n < 2 ^ 64 \<Longrightarrow> go_readFull n k =
     (if n \<le> length (kbytes k) then (Some (take n (kbytes k)), kdrop n k) else (None, kafter k))"
proof (induction n arbitrary: k rule: less_induct)
  case (less n)
  show ?case
  proof (cases "n = 0")
    case True
    then show ?thesis by (simp add: go_readFull.simps)
  next
    case False
    have n: "unat (of_nat n :: u64) = n" "(of_nat n :: u64) \<noteq> 0"
      using less.prems False by (simp_all add: unat_of_nat_u64 flip: unat_eq_0)
    show ?thesis
    proof (cases k rule: kbytes.cases)
      case 1
      with False show ?thesis by (simp add: go_readFull.simps)
    next
      case (2 es)
      with False show ?thesis by (simp add: go_readFull.simps)
    next
      case (3 b bs es)
      define m where "m = min n (Suc (length bs))"
      note rd = sys_read_Chunk [OF n(2), where bs = bs, unfolded n(1), folded m_def]
      let ?xs = "take m (b # bs)"
      have xs: "?xs \<noteq> []" "length ?xs = m" "m \<le> n"
        using rd(2-4) by (simp_all add: take_Cons')
      have pre: "?xs = take m (kbytes k)" and mk: "m \<le> length (kbytes k)"
        using 3 rd(4) by (simp_all add: take_Cons')
      have cmp: "n - m \<le> length (kbytes k) - m \<longleftrightarrow> n \<le> length (kbytes k)"
        using xs(3) mk by auto
      have rest: "go_readFull (n - m) (kdrop m k) =
          (if n \<le> length (kbytes k) then (Some (take (n - m) (drop m (kbytes k))), kdrop n k) else (None, kafter k))"
        using less.IH [of "n - m" "kdrop m k"] less.prems rd(2) False xs(3) mk
        by (simp add: kbytes_kdrop cmp)
      have "go_readFull n k = (case go_readFull (n - m) (kdrop m k) of (r, k2) \<Rightarrow> (map_option ((@) ?xs) r, k2))"
        using False xs(1,2) rd(1) unfolding 3 by (subst go_readFull.simps) (simp del: sys_read.simps kdrop.simps)
      moreover have "?xs @ take (n - m) (drop m (kbytes k)) = take n (kbytes k)"
        unfolding pre using xs(3) by (metis le_add_diff_inverse take_add)
      ultimately show ?thesis
        using rest by simp
    qed
  qed
qed

lemma readMsg_eq:
  "readMsg limit k =
    (if length (kbytes k) < 8 then Ret (None, kafter k)
     else (let n = unat (un_le64 (take 8 (kbytes k))); body = drop 8 (kbytes k) in
       if limit < n then Fault Terminate
       else if n \<le> length body then Ret (Some (take n body), kdrop (8 + n) k)
       else Ret (None, kafter k)))"
proof (cases "length (kbytes k) < 8")
  case True
  then show ?thesis by (simp add: readMsg_def go_readFull_eq)
next
  case False
  have "unat (un_le64 (take 8 (kbytes k))) < 2 ^ 64"
    using unsigned_less [of "un_le64 (take 8 (kbytes k))", where ?'a = nat] by simp
  then show ?thesis
    using False by (simp add: readMsg_def go_readFull_eq Let_def kbytes_kdrop)
qed

lemma go_writeAll_spec:
  "\<exists>j \<le> length bs. wr_sent (snd (go_writeAll w bs)) = wr_sent w @ take j bs
     \<and> (fst (go_writeAll w bs) \<longleftrightarrow> j = length bs)"
proof (induction "length bs" arbitrary: w bs rule: less_induct)
  case less
  show ?case
  proof (cases "bs = []")
    case True
    then show ?thesis by (simp add: go_writeAll.simps)
  next
    case False
    then have pos: "0 < length bs"
      by simp
    show ?thesis
    proof (rule sys_write_cases [of w bs])
      fix w1 assume "sys_write w bs = (None, w1)" "wr_sent w1 = wr_sent w"
      then show ?thesis
        using False pos by (intro exI [of _ 0]) (simp add: go_writeAll.simps)
    next
      fix n w1 assume w1: "sys_write w bs = (Some n, w1)" "n \<le> length bs" "wr_sent w1 = wr_sent w @ take n bs"
      show ?thesis
      proof (cases "n = 0")
        case True
        then show ?thesis
          using False pos w1 by (intro exI [of _ 0]) (simp add: go_writeAll.simps)
      next
        case n: False
        then have "length (drop n bs) < length bs"
          using pos by simp
        from less [OF this, of w1] obtain j where j: "j \<le> length (drop n bs)"
            "wr_sent (snd (go_writeAll w1 (drop n bs))) = wr_sent w1 @ take j (drop n bs)"
            "fst (go_writeAll w1 (drop n bs)) \<longleftrightarrow> j = length (drop n bs)"
          by blast
        have "go_writeAll w bs = go_writeAll w1 (drop n bs)"
          using False w1(1) n by (subst go_writeAll.simps) simp
        moreover have "take n bs @ take j (drop n bs) = take (n + j) bs"
          by (simp add: take_add)
        ultimately show ?thesis
          using j w1(2,3) by (intro exI [of _ "n + j"]) auto
      qed
    qed
  qed
qed

lemma writeMsg_spec:
  "fst (writeMsg w msg) \<Longrightarrow> wr_sent (snd (writeMsg w msg)) = wr_sent w @ frame msg"
  "\<not> fst (writeMsg w msg) \<Longrightarrow> \<exists>j < length (frame msg). wr_sent (snd (writeMsg w msg)) = wr_sent w @ take j (frame msg)"
proof -
  let ?h = "le64 (of_nat (length msg))"
  obtain j where j: "j \<le> length ?h" "wr_sent (snd (go_writeAll w ?h)) = wr_sent w @ take j ?h"
      "fst (go_writeAll w ?h) \<longleftrightarrow> j = length ?h"
    using go_writeAll_spec by blast
  obtain ok w1 where h: "go_writeAll w ?h = (ok, w1)"
    by (cases "go_writeAll w ?h")
  obtain i where i: "i \<le> length msg" "wr_sent (snd (go_writeAll w1 msg)) = wr_sent w1 @ take i msg"
      "fst (go_writeAll w1 msg) \<longleftrightarrow> i = length msg"
    using go_writeAll_spec by blast
  show "wr_sent (snd (writeMsg w msg)) = wr_sent w @ frame msg" if "fst (writeMsg w msg)"
    using that h i j by (cases ok) (simp_all add: writeMsg_def frame_def)
  show "\<exists>j < length (frame msg). wr_sent (snd (writeMsg w msg)) = wr_sent w @ take j (frame msg)"
    if fail: "\<not> fst (writeMsg w msg)"
  proof (cases ok)
    case True
    then have "wr_sent (snd (writeMsg w msg)) = wr_sent w @ take (8 + i) (frame msg)" "i < length msg"
      using fail h i j by (auto simp: writeMsg_def frame_def)
    then show ?thesis
      by (intro exI [of _ "8 + i"]) simp
  next
    case False
    then have "wr_sent (snd (writeMsg w msg)) = wr_sent w @ take j (frame msg)" "j < 8"
      using h j by (auto simp: writeMsg_def frame_def)
    then show ?thesis
      by (intro exI [of _ j]) simp
  qed
qed

section \<open>The two sides together\<close>

text \<open>The functions with results like those of the C++ side, 0 and -1.\<close>

definition readMsg_result :: "nat \<Rightarrow> int \<Rightarrow> rd_event list \<Rightarrow> u8 list \<Rightarrow> (int \<times> u8 list \<times> rd_event list) outcome" where
  "readMsg_result limit s k buf = bind_outcome (readMsg limit k) (\<lambda>(r, k1).
     Ret (case r of None \<Rightarrow> (-1, buf, k1) | Some p \<Rightarrow> (0, p, k1)))"

definition writeMsg_result :: "int \<Rightarrow> wr_chan \<Rightarrow> u8 list \<Rightarrow> int \<times> wr_chan" where
  "writeMsg_result s w p = (case writeMsg w p of (ok, w1) \<Rightarrow> (if ok then 0 else -1, w1))"

text \<open>Frames that arrive in full, cut in any way, each within the limit.\<close>

fun go_pending :: "nat \<Rightarrow> rd_event list \<Rightarrow> u8 list list \<Rightarrow> bool" where
  "go_pending limit k [] = True"
| "go_pending limit k (p # ps) =
     (length p \<le> limit \<and> length p \<le> vector_max_size
      \<and> take (8 + length p) (kbytes k) = frame p \<and> go_pending limit (kdrop (8 + length p) k) ps)"

definition go_arrives :: "nat \<Rightarrow> rd_event list \<Rightarrow> u8 list \<Rightarrow> nat list \<Rightarrow> bool" where
  "go_arrives limit k bs ns \<longleftrightarrow> take (length bs) (kbytes k) = bs \<and> (\<forall>n \<in> set ns. n \<le> limit)"

lemma readMsg_frame:
  assumes "length p \<le> limit" "length p \<le> vector_max_size" "take (8 + length p) (kbytes k) = frame p"
  shows "readMsg limit k = Ret (Some p, kdrop (8 + length p) k)"
proof -
  have n: "unat (of_nat (length p) :: u64) = length p"
    using assms(2) by (intro unat_of_nat_u64) (simp add: vector_max_size_def)
  note split = take_split [OF assms(3) [unfolded frame_def]]
  have "un_le64 (take 8 (kbytes k)) = of_nat (length p)"
    using split(1) by simp
  moreover have "8 + length p \<le> length (kbytes k)"
    using arg_cong [where f = length, OF assms(3)] by simp
  ultimately show ?thesis
    using assms(1) split(2,3) n by (simp add: readMsg_eq Let_def)
qed

lemma go_pending_arrival:
  "go_arrives limit k (concat (map frame ps)) (map length ps) \<Longrightarrow>
   \<forall>p \<in> set ps. length p \<le> vector_max_size \<Longrightarrow> go_pending limit k ps"
proof (induction ps arbitrary: k)
  case (Cons p ps)
  let ?n = "8 + length p" and ?rest = "concat (map frame ps)"
  have "take (?n + length ?rest) (kbytes k) = frame p @ ?rest"
    using Cons.prems(1) by (simp add: go_arrives_def ac_simps)
  note split = take_split [OF this length_frame refl]
  have "kbytes (kdrop ?n k) = drop ?n (kbytes k)"
    using split(3) by (intro kbytes_kdrop) simp
  then have "go_arrives limit (kdrop ?n k) ?rest (map length ps)"
    using Cons.prems(1) split(2) by (simp add: go_arrives_def)
  then have "go_pending limit (kdrop ?n k) ps"
    using Cons.prems(2) by (intro Cons.IH) simp_all
  then show ?case
    using Cons.prems split(1) by (simp add: go_arrives_def)
qed simp

interpretation cpp_go: frame_pipe "readMsg_result limit" "go_pending limit" writeToSocket wr_sent "go_arrives limit"
  for limit
proof unfold_locales
  fix s :: int and k p ps buf
  assume "go_pending limit k (p # ps)"
  then show "\<exists>k'. readMsg_result limit s k buf = Ret (0, p, k') \<and> go_pending limit k' ps"
    using readMsg_frame [of p limit k] by (simp add: readMsg_result_def)
next
  fix k ps
  assume "go_arrives limit k (concat (map frame ps)) (map length ps)" "\<forall>p \<in> set ps. length p \<le> vector_max_size"
  then show "go_pending limit k ps"
    by (rule go_pending_arrival)
qed

interpretation go_cpp: frame_pipe readFromSocket framed writeMsg_result wr_sent socket_arrives
proof unfold_locales
  fix s :: int and w p
  show "fst (writeMsg_result s w p) = 0 \<or> fst (writeMsg_result s w p) = -1"
    by (simp add: writeMsg_result_def split_def)
next
  fix s :: int and w p
  assume "fst (writeMsg_result s w p) = 0"
  then show "wr_sent (snd (writeMsg_result s w p)) = wr_sent w @ frame p"
    using writeMsg_spec(1) [of w p] by (simp add: writeMsg_result_def split_def split: if_splits)
next
  fix s :: int and w p
  assume "fst (writeMsg_result s w p) = -1"
  then show "\<exists>j < length (frame p). wr_sent (snd (writeMsg_result s w p)) = wr_sent w @ take j (frame p)"
    using writeMsg_spec(2) [of w p] by (simp add: writeMsg_result_def split_def split: if_splits)
qed (rule framed_arrival)

section \<open>Properties\<close>

text \<open>
  C33: the two sides of a connection understand each other. What the C++ side has written the router
  reads, message by message, however the bytes are cut on the way; what the router has written the
  C++ side reads as long as no chunk ends inside a header. Messages are at most as long as either
  side can take.
\<close>

theorem frames_cross:
  assumes "\<forall>p \<in> set ps. length p \<le> limit \<and> length p \<le> vector_max_size" "s \<noteq> -1"
  shows "(fst (write_each (writeToSocket s') w ps) = 0
      \<and> take (length (concat (map frame ps))) (kbytes k)
        = drop (length (wr_sent w)) (wr_sent (snd (write_each (writeToSocket s') w ps)))
      \<longrightarrow> (\<exists>k'. read_each (readMsg_result limit s) (length ps) k = Ret (0, ps, k')))
    \<and> (fst (write_each (writeMsg_result s') w ps) = 0
      \<and> socket_arrives k (drop (length (wr_sent w)) (wr_sent (snd (write_each (writeMsg_result s') w ps))))
        (map length ps)
      \<longrightarrow> (\<exists>k'. read_each (readFromSocket s) (length ps) k = Ret (0, ps, k')))"
proof (intro conjI impI; elim conjE)
  assume w: "fst (write_each (writeToSocket s') w ps) = 0"
    and k: "take (length (concat (map frame ps))) (kbytes k)
      = drop (length (wr_sent w)) (wr_sent (snd (write_each (writeToSocket s') w ps)))"
  have "drop (length (wr_sent w)) (wr_sent (snd (write_each (writeToSocket s') w ps))) = concat (map frame ps)"
    using sock.sent_write_each [OF w] by simp
  then have "go_arrives limit k (drop (length (wr_sent w)) (wr_sent (snd (write_each (writeToSocket s') w ps))))
      (map length ps)"
    using k assms(1) by (simp add: go_arrives_def)
  then show "\<exists>k'. read_each (readMsg_result limit s) (length ps) k = Ret (0, ps, k')"
    using cpp_go.pipe_roundtrip [OF w _ _ assms(2)] assms(1) by blast
next
  assume "fst (write_each (writeMsg_result s') w ps) = 0"
    and "socket_arrives k (drop (length (wr_sent w)) (wr_sent (snd (write_each (writeMsg_result s') w ps))))
      (map length ps)"
  then show "\<exists>k'. read_each (readFromSocket s) (length ps) k = Ret (0, ps, k')"
    using go_cpp.pipe_roundtrip [OF _ _ _ assms(2)] assms(1) by blast
qed

theorem frames_cross_witness:
  "(\<exists>k'. read_each (readMsg_result 100 4) 2
      [Chunk 2 [0, 0], Chunk 0 [0, 0, 0, 0, 10, 20, 1, 0], Chunk 0 [0, 0, 0, 0, 0, 30]] = Ret (0, [[10, 20], [30]], k'))
   \<and> (\<exists>k'. read_each (readFromSocket 4) 2
      [Chunk 2 [0, 0, 0, 0, 0, 0, 0, 10], Chunk 20 [], Chunk 1 [0, 0, 0, 0, 0, 0, 0, 30]] = Ret (0, [[10, 20], [30]], k'))"
proof -
  let ?w = "\<lparr>wr_script = [Accept 8, Accept 1], wr_sent = []\<rparr>" and ?ps = "[[10, 20], [30 :: u8]]"
  let ?k1 = "[Chunk 2 [0, 0], Chunk 0 [0, 0, 0, 0, 10, 20, 1, 0], Chunk 0 [0, 0, 0, 0, 0, 30]]"
  let ?k2 = "[Chunk 2 [0, 0, 0, 0, 0, 0, 0, 10], Chunk 20 [], Chunk 1 [0, 0, 0, 0, 0, 0, 0, 30]]"
  have len: "\<forall>p \<in> set ?ps. length p \<le> 100 \<and> length p \<le> vector_max_size" "length ?ps = 2" "(4 :: int) \<noteq> -1"
    by (simp_all add: vector_max_size_def)
  have "fst (write_each (writeToSocket 3) ?w ?ps) = 0
      \<and> take (length (concat (map frame ?ps))) (kbytes ?k1)
        = drop (length (wr_sent ?w)) (wr_sent (snd (write_each (writeToSocket 3) ?w ?ps)))"
    by code_simp
  moreover have "fst (write_each (writeMsg_result 3) ?w ?ps) = 0
      \<and> socket_arrives ?k2 (drop (length (wr_sent ?w)) (wr_sent (snd (write_each (writeMsg_result 3) ?w ?ps))))
        (map length ?ps)"
    by code_simp
  ultimately show ?thesis
    using frames_cross [OF len(1,3), of 3 ?w ?k1] frames_cross [OF len(1,3), of 3 ?w ?k2] unfolding len(2) by blast
qed

text \<open>
  C34: \<^verbatim>\<open>readMsg\<close> against \<^verbatim>\<open>readFromSocket\<close> on the same connection: for a message both can take, the C++
  function returns it exactly if the first chunk holds the whole header and \<^verbatim>\<open>readMsg\<close> returns it, and
  both leave the same behind. Where the C++ function does not return at all, \<^verbatim>\<open>readMsg\<close> reports an error, or
  panics if the announced size is beyond its limit.
\<close>

theorem readMsg_as_readFromSocket:
  assumes "sock \<noteq> -1" "length p \<le> limit" "length p \<le> vector_max_size"
  shows "(readFromSocket sock k buf = Ret (0, p, k') \<longleftrightarrow> 8 \<le> head_len k \<and> readMsg limit k = Ret (Some p, k'))
    \<and> (readFromSocket sock k buf = Hang \<longrightarrow> readMsg limit k = Ret (None, []) \<or> readMsg limit k = Fault Terminate)"
proof -
  let ?n = "unat (un_le64 (take 8 (kbytes k)))"
  have after: "\<not> kfails k \<Longrightarrow> kafter k = []"
    by (induction k rule: kbytes.induct) simp_all
  show ?thesis
  proof (cases "head_len k < 8")
    case True
    then show ?thesis
      using assms(1) by (simp add: readFromSocket_eq)
  next
    case False
    then have head: "8 \<le> head_len k"
      by simp
    have eight: "8 \<le> length (kbytes k)"
      by (rule sys_read_whole_header(2) [OF head])
    show ?thesis
      using head eight assms after
      by (auto simp: readFromSocket_eq [OF assms(1)] readMsg_eq Let_def)
  qed
qed

theorem readMsg_as_readFromSocket_witness:
  "readMsg 100 [Chunk 1 [0, 0, 0, 0, 0, 0, 0], Chunk 42 []] = Ret (Some [42], [])"
proof -
  let ?k = "[Chunk 1 [0, 0, 0, 0, 0, 0, 0], Chunk (42 :: u8) []]"
  have "readFromSocket 3 ?k [] = Ret (0, [42], [])"
    by (rule readFromSocket_frame [of 3 ?k "[42]" "[]", simplified, THEN trans])
      (simp_all add: head_len_def frame_def vector_max_size_def, code_simp+)
  then show ?thesis
    using readMsg_as_readFromSocket [of 3 "[42]" 100 ?k "[]" "[]"] by (simp add: vector_max_size_def)
qed

end
