(* ===== verification/Request_Machine.thy ===== *)
theory Request_Machine
  imports End_To_End
begin

text \<open>
  What a user of the bridge may think happens: the abstract specifications of the system of
  \<open>Closed_System\<close>. First a machine with one first-in first-out list in which requests become answers and
  answers complete futures; then the atomic service, in which every call has been served when it returns.
  The machine is shown to simulate the atomic service.
\<close>

section \<open>Runs with calls, and simulations\<close>

text \<open>A step is labelled with the call of the user that it is, or with \<open>None\<close>.\<close>

inductive labelled_run :: "('s \<Rightarrow> 'c option \<Rightarrow> 's \<Rightarrow> bool) \<Rightarrow> 's \<Rightarrow> 'c list \<Rightarrow> 's \<Rightarrow> bool" for step s where
  Run_none: "labelled_run step s [] s"
| Run_internal: "labelled_run step s cs s1 \<Longrightarrow> step s1 None s2 \<Longrightarrow> labelled_run step s cs s2"
| Run_call: "labelled_run step s cs s1 \<Longrightarrow> step s1 (Some c) s2 \<Longrightarrow> labelled_run step s (cs @ [c]) s2"

lemma labelled_run_internal:
  "(\<lambda>s s'. step s None s')\<^sup>*\<^sup>* s1 s2 \<Longrightarrow> labelled_run step s cs s1 \<Longrightarrow> labelled_run step s cs s2"
  by (induction rule: rtranclp_induct) (auto intro: Run_internal)

text \<open>
  The concrete side makes the calls the abstract side makes; its other steps are steps of the abstract side
  or none.
\<close>

locale simulation =
  fixes cstep :: "'s \<Rightarrow> 'c option \<Rightarrow> 's \<Rightarrow> bool"
    and astep :: "'a \<Rightarrow> 'c option \<Rightarrow> 'a \<Rightarrow> bool"
    and R :: "'s \<Rightarrow> 'a \<Rightarrow> bool"
  assumes internal: "R s a \<Longrightarrow> cstep s None s' \<Longrightarrow> R s' a \<or> (\<exists>a'. astep a None a' \<and> R s' a')"
    and call: "R s a \<Longrightarrow> cstep s (Some c) s' \<Longrightarrow> \<exists>a'. astep a (Some c) a' \<and> R s' a'"
begin

lemma simulated:
  "labelled_run cstep s cs s' \<Longrightarrow> R s a \<Longrightarrow> \<exists>a'. labelled_run astep a cs a' \<and> R s' a'"
proof (induction rule: labelled_run.induct)
  case Run_none
  then show ?case by (blast intro: labelled_run.Run_none)
next
  case (Run_internal cs s1 s2)
  then show ?case by (metis internal labelled_run.Run_internal)
next
  case (Run_call cs s1 c s2)
  then show ?case by (metis call labelled_run.Run_call)
qed

end

section \<open>Calls\<close>

text \<open>
  A call of \<^verbatim>\<open>Master::read\<close> or \<^verbatim>\<open>Master::write\<close> is the buffer to fill and the transaction it makes (for a write
  with the bytes copied at the call). The user may also write into memory of its own.
\<close>

datatype call = Call ptr Transaction | Store nat "u8 list"

definition fits :: "memory \<Rightarrow> ptr \<Rightarrow> nat \<Rightarrow> bool" where
  "fits mem p n \<longleftrightarrow> n = 0 \<or> (\<exists>a bs. p = Some a \<and> mem a = Some bs \<and> n \<le> length bs)"

text \<open>A request whose buffer takes what a read may bring.\<close>

definition request_ok :: "memory \<Rightarrow> ptr \<Rightarrow> Transaction \<Rightarrow> bool" where
  "request_ok mem p txn \<longleftrightarrow> (txn_type txn = WRITE_REQ
     \<or> txn_type txn = READ_REQ \<and> unat (txn_size txn) \<le> vector_max_size \<and> fits mem p (unat (txn_size txn)))"

text \<open>The handler of a read fills the buffer it is given; the buffer does not change its size.\<close>

definition slaves_fill :: "'w slaves \<Rightarrow> bool" where
  "slaves_fill S \<longleftrightarrow> (\<forall>s n a buf w. length (fst (snd (handleRead S s n a buf w))) = length buf)"

definition result_status :: "int \<Rightarrow> Status" where
  "result_status ret = (if ret = 0 then status_ok else mk_status 1 ''Slave operation failed'')"

text \<open>The bytes a request brings back.\<close>

definition result_bytes :: "int \<Rightarrow> u8 list \<Rightarrow> u8 list" where
  "result_bytes ret data = (if ret = 0 then data else [])"

lemma handled_length:
  assumes "slaves_fill S" "request_ok mem p txn" "handled S s txn w = (ret, data, w')"
  shows "txn_type txn = READ_REQ \<Longrightarrow> length data = unat (txn_size txn)"
    and "txn_type txn = WRITE_REQ \<Longrightarrow> data = []"
    and "fits mem p (length (result_bytes ret data))"
proof -
  show fill: "length data = unat (txn_size txn)" if "txn_type txn = READ_REQ"
    using assms(1,3) that unfolding slaves_fill_def handled_def
    by (metis TransactionType.distinct(1) fst_conv length_replicate snd_conv)
  show none: "data = []" if "txn_type txn = WRITE_REQ"
    using assms(3) that by (simp add: handled_def split: prod.splits)
  show "fits mem p (length (result_bytes ret data))"
    using assms(2) fill none by (auto simp: request_ok_def result_bytes_def fits_def)
qed

section \<open>Memory\<close>

text \<open>\<open>store_bytes\<close> where it does not fault.\<close>

definition stored :: "memory \<Rightarrow> ptr \<Rightarrow> u8 list \<Rightarrow> memory" where
  "stored mem p xs = (case store_bytes mem p xs of Ret mem' \<Rightarrow> mem' | _ \<Rightarrow> mem)"

lemma store_fits: "fits mem p (length xs) \<Longrightarrow> store_bytes mem p xs = Ret (stored mem p xs)"
  by (auto simp: stored_def fits_def store_bytes_def)

lemma length_overwrite_0: "length xs \<le> length bs \<Longrightarrow> length (overwrite 0 xs bs) = length bs"
  by (simp add: overwrite_def)

lemma stored_cases:
  obtains "stored mem p xs = mem"
  | a bs where "p = Some a" "mem a = Some bs" "length xs \<le> length bs"
      "stored mem p xs = mem(a := Some (overwrite 0 xs bs))"
proof (cases "xs = [] \<or> p = None")
  case True
  then show ?thesis
    by (intro that(1)) (auto simp: stored_def store_bytes_def)
next
  case False
  then obtain a where p: "p = Some a" "xs \<noteq> []" by auto
  show ?thesis
  proof (cases "\<exists>bs. mem a = Some bs \<and> length xs \<le> length bs")
    case True
    then obtain bs where bs: "mem a = Some bs" "length xs \<le> length bs" by blast
    show ?thesis
      by (rule that(2) [OF p(1) bs]) (simp add: stored_def store_bytes_def p bs)
  next
    case False
    then show ?thesis
      by (intro that(1)) (auto simp: stored_def store_bytes_def p split: option.split)
  qed
qed

lemma fits_stored [simp]: "fits (stored mem p xs) q n = fits mem q n"
  by (rule stored_cases [of mem p xs]) (auto simp: fits_def length_overwrite_0)

lemma fits_update:
  "mem a = Some bs \<Longrightarrow> length bs' = length bs \<Longrightarrow> fits (mem(a := Some bs')) p n = fits mem p n"
  by (auto simp: fits_def)

lemma request_ok_cong: "fits mem' p (unat (txn_size txn)) = fits mem p (unat (txn_size txn)) \<Longrightarrow>
    request_ok mem' p txn = request_ok mem p txn"
  by (simp add: request_ok_def)

lemma stored_other: "Some a \<noteq> p \<Longrightarrow> stored (mem(a := bs)) p xs = (stored mem p xs)(a := bs)"
  by (cases p) (auto simp: stored_def store_bytes_def fun_upd_twist split: option.split)

lemma stored_Nil [simp]: "stored mem p [] = mem"
  by (simp add: stored_def store_bytes_def)

section \<open>The machine\<close>

text \<open>
  An item of the list: a request, or the answer to one, with the buffer it may fill and the future it
  completes.
\<close>

datatype item = Request (item_buffer: ptr) (item_future: nat) Transaction
  | Answer (item_buffer: ptr) (item_future: nat) "u8 list" Status

record 'w machine =
  ma_items :: "item list"
  ma_mem :: memory
  ma_futures :: "future list"
  ma_world :: 'w

text \<open>
  Where a request goes: the slave at an address, or the message of an error. The first item of the list is
  served: a request that has a slave is replaced by an answer at the end of the list.
\<close>

type_synonym directory = "u64 \<Rightarrow> u64 \<Rightarrow> string + nat"

definition machine_next :: "'w slaves \<Rightarrow> directory \<Rightarrow> 'w machine \<Rightarrow> 'w machine outcome" where
  "machine_next S D a = (case ma_items a of
     [] \<Rightarrow> Ret a
   | Request p f txn # is \<Rightarrow>
       (case D (txn_address txn) (txn_size txn) of
          Inl err \<Rightarrow> Ret (a\<lparr>ma_items := is, ma_futures := (ma_futures a)[f := Ready (mk_status 1 err)]\<rparr>)
        | Inr s \<Rightarrow> (let (ret, data, w) = handled S s txn (ma_world a)
            in Ret (a\<lparr>ma_items := is @ [Answer p f (result_bytes ret data) (result_status ret)], ma_world := w\<rparr>)))
   | Answer p f bytes st # is \<Rightarrow>
       bind_outcome (store_bytes (ma_mem a) p bytes) (\<lambda>mem.
         Ret (a\<lparr>ma_items := is, ma_mem := mem, ma_futures := (ma_futures a)[f := Ready st]\<rparr>)))"

text \<open>The user must not write into a buffer that a request in the list may still fill.\<close>

fun call_allowed :: "'w machine \<Rightarrow> call \<Rightarrow> bool" where
  "call_allowed a (Call p txn) = request_ok (ma_mem a) p txn"
| "call_allowed a (Store i bs) =
     (map_option length (ma_mem a i) = Some (length bs) \<and> Some i \<notin> item_buffer ` set (ma_items a))"

fun machine_call :: "call \<Rightarrow> 'w machine \<Rightarrow> 'w machine" where
  "machine_call (Call p txn) a = a\<lparr>ma_items := ma_items a @ [Request p (length (ma_futures a)) txn],
     ma_futures := ma_futures a @ [Pending]\<rparr>"
| "machine_call (Store i bs) a = a\<lparr>ma_mem := (ma_mem a)(i := Some bs)\<rparr>"

definition machine_step :: "'w slaves \<Rightarrow> directory \<Rightarrow> 'w machine \<Rightarrow> call option \<Rightarrow> 'w machine \<Rightarrow> bool" where
  "machine_step S D a l a' \<longleftrightarrow> (case l of
     None \<Rightarrow> ma_items a \<noteq> [] \<and> machine_next S D a = Ret a'
   | Some c \<Rightarrow> call_allowed a c \<and> a' = machine_call c a)"

subsection \<open>Its invariant\<close>

text \<open>
  The futures of the items are exactly the pending ones, each once, and every buffer takes what will be
  stored in it.
\<close>

fun item_ok :: "memory \<Rightarrow> item \<Rightarrow> bool" where
  "item_ok mem (Request p f txn) = request_ok mem p txn"
| "item_ok mem (Answer p f bytes st) = fits mem p (length bytes)"

definition machine_inv :: "'w machine \<Rightarrow> bool" where
  "machine_inv a \<longleftrightarrow> distinct (map item_future (ma_items a))
     \<and> (\<forall>f. f \<in> item_future ` set (ma_items a) \<longleftrightarrow> f < length (ma_futures a) \<and> ma_futures a ! f = Pending)
     \<and> (\<forall>i \<in> set (ma_items a). item_ok (ma_mem a) i)"

lemma item_ok_cong: "(\<And>p n. fits mem' p n = fits mem p n) \<Longrightarrow> item_ok mem' i = item_ok mem i"
  by (cases i) (simp_all add: request_ok_def)

lemma item_ok_stored [simp]: "item_ok (stored mem p xs) i = item_ok mem i"
  by (rule item_ok_cong) simp

lemma machine_next_Answer:
  assumes "machine_inv a" "ma_items a = Answer p f bytes st # is"
  shows "machine_next S D a = Ret (a\<lparr>ma_items := is, ma_mem := stored (ma_mem a) p bytes,
    ma_futures := (ma_futures a)[f := Ready st]\<rparr>)"
proof -
  have "fits (ma_mem a) p (length bytes)"
    using assms by (auto simp: machine_inv_def)
  then show ?thesis
    by (simp add: machine_next_def assms(2) store_fits)
qed

text \<open>The three moves of the machine.\<close>

lemma machine_next_cases:
  assumes "machine_inv a" "ma_items a \<noteq> []" "machine_next S D a = Ret a'"
  obtains (serve) p f txn "is" s ret data w where "ma_items a = Request p f txn # is"
      "D (txn_address txn) (txn_size txn) = Inr s" "handled S s txn (ma_world a) = (ret, data, w)"
      "a' = a\<lparr>ma_items := is @ [Answer p f (result_bytes ret data) (result_status ret)], ma_world := w\<rparr>"
  | (reject) p f txn "is" err where "ma_items a = Request p f txn # is"
      "D (txn_address txn) (txn_size txn) = Inl err"
      "a' = a\<lparr>ma_items := is, ma_futures := (ma_futures a)[f := Ready (mk_status 1 err)]\<rparr>"
  | (complete) p f bytes st "is" where "ma_items a = Answer p f bytes st # is"
      "a' = a\<lparr>ma_items := is, ma_mem := stored (ma_mem a) p bytes, ma_futures := (ma_futures a)[f := Ready st]\<rparr>"
proof (cases "ma_items a")
  case Nil
  with assms(2) show ?thesis by simp
next
  case (Cons i "is")
  show ?thesis
  proof (cases i)
    case (Request p f txn)
    show ?thesis
    proof (cases "D (txn_address txn) (txn_size txn)")
      case (Inl err)
      then show ?thesis
        using reject assms(3) Cons Request by (simp add: machine_next_def)
    next
      case (Inr s)
      obtain ret data w where h: "handled S s txn (ma_world a) = (ret, data, w)"
        by (rule prod_cases3)
      then show ?thesis
        using serve [OF _ Inr h] assms(3) Cons Request Inr by (simp add: machine_next_def)
    qed
  next
    case (Answer p f bytes st)
    then show ?thesis
      using complete assms(3) Cons machine_next_Answer [OF assms(1), of p f bytes st "is"] by simp
  qed
qed

lemma ready_pending: "f < length fs \<Longrightarrow> fs[k := Ready st] ! f = Pending \<longleftrightarrow> f \<noteq> k \<and> fs ! f = Pending"
  by (cases "f = k") simp_all

lemma machine_inv_done:
  assumes "machine_inv a" "ma_items a = i # is"
  shows "machine_inv (a\<lparr>ma_items := is, ma_futures := (ma_futures a)[item_future i := Ready st]\<rparr>)"
  using assms unfolding machine_inv_def by (simp add: ready_pending cong: conj_cong) blast

lemma machine_next_inv:
  assumes S: "slaves_fill S" and inv: "machine_inv a" and "ma_items a \<noteq> []" "machine_next S D a = Ret a'"
  shows "machine_inv a'"
  using inv assms(3,4)
proof (cases rule: machine_next_cases)
  case (serve p f txn "is" s ret data w)
  have "request_ok (ma_mem a) p txn"
    using inv serve(1) by (auto simp: machine_inv_def)
  then have "fits (ma_mem a) p (length (result_bytes ret data))"
    using S serve(3) by (blast intro: handled_length(3))
  then show ?thesis
    using inv serve(1) by (auto simp: serve(4) machine_inv_def)
next
  case (reject p f txn "is" err)
  then show ?thesis
    using machine_inv_done [OF inv reject(1)] by simp
next
  case (complete p f bytes st "is")
  then show ?thesis
    using machine_inv_done [OF inv complete(1), of st] by (simp add: machine_inv_def)
qed

lemma machine_call_inv:
  assumes "machine_inv a" "call_allowed a c"
  shows "machine_inv (machine_call c a)"
proof (cases c)
  case (Call p txn)
  then show ?thesis
    using assms by (auto simp: machine_inv_def nth_append less_Suc_eq)
next
  case (Store i bs)
  obtain bs' where bs': "ma_mem a i = Some bs'" "length bs = length bs'"
    using assms(2) by (auto simp: Store)
  have "item_ok ((ma_mem a)(i := Some bs)) j = item_ok (ma_mem a) j" for j
    using bs' by (intro item_ok_cong) (simp add: fits_update)
  then show ?thesis
    using assms(1) by (simp add: Store machine_inv_def)
qed

section \<open>The atomic service\<close>

text \<open>A call is served and completed at once; there are only memory, futures and the user's world.\<close>

type_synonym 'w shared = "memory \<times> future list \<times> 'w"

fun atomic :: "'w slaves \<Rightarrow> directory \<Rightarrow> call \<Rightarrow> 'w shared \<Rightarrow> 'w shared" where
  "atomic S D (Call p txn) (mem, fs, w) =
     (case D (txn_address txn) (txn_size txn) of
        Inl err \<Rightarrow> (mem, fs @ [Ready (mk_status 1 err)], w)
      | Inr s \<Rightarrow> (let (ret, data, w') = handled S s txn w
          in (stored mem p (result_bytes ret data), fs @ [Ready (result_status ret)], w')))"
| "atomic S D (Store i bs) (mem, fs, w) = (mem(i := Some bs), fs, w)"

definition atomic_step :: "'w slaves \<Rightarrow> directory \<Rightarrow> 'w shared \<Rightarrow> call option \<Rightarrow> 'w shared \<Rightarrow> bool" where
  "atomic_step S D x l x' \<longleftrightarrow> (\<exists>c. l = Some c \<and> x' = atomic S D c x)"

lemma atomic_run: "labelled_run (atomic_step S D) x cs x' \<longleftrightarrow> x' = fold (atomic S D) cs x"
proof
  show "labelled_run (atomic_step S D) x cs x' \<Longrightarrow> x' = fold (atomic S D) cs x"
    by (induction rule: labelled_run.induct) (auto simp: atomic_step_def)
next
  have "labelled_run (atomic_step S D) x cs (fold (atomic S D) cs x)"
    by (induction cs rule: rev_induct)
      (auto simp: atomic_step_def intro: labelled_run.Run_none labelled_run.Run_call)
  then show "x' = fold (atomic S D) cs x \<Longrightarrow> labelled_run (atomic_step S D) x cs x'"
    by simp
qed

section \<open>The machine simulates the atomic service\<close>

text \<open>
  What the items of a list still do: first its answers complete, then its requests are served and completed,
  each in their order. This is what the atomic service has already done.
\<close>

fun settle :: "item \<Rightarrow> 'w shared \<Rightarrow> 'w shared" where
  "settle (Answer p f bytes st) (mem, fs, w) = (stored mem p bytes, fs[f := Ready st], w)"
| "settle (Request p f txn) x = x"

fun perform :: "'w slaves \<Rightarrow> directory \<Rightarrow> item \<Rightarrow> 'w shared \<Rightarrow> 'w shared" where
  "perform S D (Request p f txn) (mem, fs, w) =
     (case D (txn_address txn) (txn_size txn) of
        Inl err \<Rightarrow> (mem, fs[f := Ready (mk_status 1 err)], w)
      | Inr s \<Rightarrow> (let (ret, data, w') = handled S s txn w
          in (stored mem p (result_bytes ret data), fs[f := Ready (result_status ret)], w')))"
| "perform S D (Answer p f bytes st) x = x"

definition drained :: "'w slaves \<Rightarrow> directory \<Rightarrow> 'w machine \<Rightarrow> 'w shared" where
  "drained S D a = fold (perform S D) (ma_items a) (fold settle (ma_items a)
     (ma_mem a, ma_futures a, ma_world a))"

text \<open>The world moves through the requests alone, futures move independently of each other.\<close>

lemma settle_world: "fold settle is (mem, fs, w) = (m, g, v) \<Longrightarrow>
    v = w \<and> fold settle is (mem, fs, w') = (m, g, w')"
proof (induction "is" arbitrary: mem fs)
  case (Cons i "is")
  then show ?case by (cases i) simp_all
qed simp

lemma settle_future:
  "f \<notin> item_future ` set is \<Longrightarrow> fold settle is (mem, fs, w) = (m, g, v) \<Longrightarrow>
   fold settle is (mem, fs[f := x], w) = (m, g[f := x], v)"
proof (induction "is" arbitrary: mem fs)
  case (Cons i "is")
  then show ?case by (cases i) (simp_all add: list_update_swap [of f])
qed simp

lemma settle_length: "fold settle is (mem, fs, w) = (m, g, v) \<Longrightarrow> length g = length fs"
proof (induction "is" arbitrary: mem fs)
  case (Cons i "is")
  then show ?case by (cases i) simp_all
qed simp

lemma settle_grow: "\<forall>i \<in> set is. item_future i < length fs \<Longrightarrow> fold settle is (mem, fs, w) = (m, g, v) \<Longrightarrow>
    fold settle is (mem, fs @ [x], w) = (m, g @ [x], v)"
proof (induction "is" arbitrary: mem fs)
  case (Cons i "is")
  then show ?case by (cases i) (simp_all add: list_update_append1)
qed simp

lemma settle_store: "Some a \<notin> item_buffer ` set is \<Longrightarrow> fold settle is (mem, fs, w) = (m, g, v) \<Longrightarrow>
    fold settle is (mem(a := bs), fs, w) = (m(a := bs), g, v)"
proof (induction "is" arbitrary: mem fs)
  case (Cons i "is")
  then show ?case by (cases i) (simp_all add: stored_other del: fun_upd_apply)
qed simp

lemma perform_cases:
  obtains mem' fs' w' where "perform S D i (mem, fs, w) = (mem', fs', w')"
    "length fs' = length fs"
    "\<And>x. item_future i < length fs \<Longrightarrow> perform S D i (mem, fs @ [x], w) = (mem', fs' @ [x], w')"
    "\<And>a bs. Some a \<noteq> item_buffer i \<Longrightarrow> perform S D i (mem(a := bs), fs, w) = (mem'(a := bs), fs', w')"
proof (cases i)
  case (Request p f txn)
  show ?thesis
  proof (cases "D (txn_address txn) (txn_size txn)")
    case (Inl err)
    then show ?thesis
      by (intro that) (simp_all add: Request list_update_append1)
  next
    case (Inr s)
    then show ?thesis
      by (cases "handled S s txn w")
        (intro that, simp_all add: Request list_update_append1 stored_other)
  qed
next
  case (Answer p f bytes st)
  then show ?thesis by (intro that) simp_all
qed

lemma perform_grow: "\<forall>i \<in> set is. item_future i < length fs \<Longrightarrow> fold (perform S D) is (mem, fs, w) = (m, g, v) \<Longrightarrow>
    length g = length fs \<and> fold (perform S D) is (mem, fs @ [x], w) = (m, g @ [x], v)"
proof (induction "is" arbitrary: mem fs w)
  case (Cons i "is")
  obtain mem' fs' w' where "perform S D i (mem, fs, w) = (mem', fs', w')" "length fs' = length fs"
    "item_future i < length fs \<Longrightarrow> perform S D i (mem, fs @ [x], w) = (mem', fs' @ [x], w')"
    by (rule perform_cases) blast
  then show ?case
    using Cons.prems Cons.IH [of fs' mem' w'] by simp
qed simp

lemma perform_store: "Some a \<notin> item_buffer ` set is \<Longrightarrow> fold (perform S D) is (mem, fs, w) = (m, g, v) \<Longrightarrow>
    fold (perform S D) is (mem(a := bs), fs, w) = (m(a := bs), g, v)"
proof (induction "is" arbitrary: mem fs w)
  case (Cons i "is")
  obtain mem' fs' w' where "perform S D i (mem, fs, w) = (mem', fs', w')"
    "Some a \<noteq> item_buffer i \<Longrightarrow> perform S D i (mem(a := bs), fs, w) = (mem'(a := bs), fs', w')"
    by (rule perform_cases) blast
  then show ?case
    using Cons.prems Cons.IH [of mem' fs' w'] by (simp del: fun_upd_apply)
qed simp

text \<open>The machine's own moves change nothing of what will have happened in the end.\<close>

lemma drained_next:
  assumes inv: "machine_inv a" and "ma_items a \<noteq> []" "machine_next S D a = Ret a'"
  shows "drained S D a' = drained S D a"
  using assms
proof (cases rule: machine_next_cases)
  case (serve p f txn "is" s ret data w)
  obtain m g v where settle: "fold settle is (ma_mem a, ma_futures a, ma_world a) = (m, g, v)"
    by (rule prod_cases3)
  from settle_world [OF this, of w] have v: "v = ma_world a"
    "fold settle is (ma_mem a, ma_futures a, w) = (m, g, w)" by simp_all
  show ?thesis
    using settle v serve(2,3) by (simp add: drained_def serve(1,4))
next
  case (reject p f txn "is" err)
  obtain m g v where settle: "fold settle is (ma_mem a, ma_futures a, ma_world a) = (m, g, v)"
    by (rule prod_cases3)
  have "f \<notin> item_future ` set is"
    using inv reject(1) by (auto simp: machine_inv_def)
  from settle_future [OF this settle] show ?thesis
    using settle reject(2) by (simp add: drained_def reject(1,3))
next
  case (complete p f bytes st "is")
  then show ?thesis by (simp add: drained_def)
qed

lemma drained_call:
  assumes inv: "machine_inv a" and allowed: "call_allowed a c"
  shows "drained S D (machine_call c a) = atomic S D c (drained S D a)"
proof -
  obtain m g v where settle: "fold settle (ma_items a) (ma_mem a, ma_futures a, ma_world a) = (m, g, v)"
    by (rule prod_cases3)
  obtain m' g' v' where perform: "fold (perform S D) (ma_items a) (m, g, v) = (m', g', v')"
    by (rule prod_cases3)
  have below: "\<forall>i \<in> set (ma_items a). item_future i < length (ma_futures a)"
    using inv by (auto simp: machine_inv_def)
  have g: "length g = length (ma_futures a)"
    using settle by (rule settle_length)
  show ?thesis
  proof (cases c)
    case (Call p txn)
    have settle': "fold settle (ma_items a) (ma_mem a, ma_futures a @ [Pending], ma_world a) = (m, g @ [Pending], v)"
      using below settle by (rule settle_grow)
    have perform': "fold (perform S D) (ma_items a) (m, g @ [Pending], v) = (m', g' @ [Pending], v')"
      and g': "length g' = length g"
      using perform_grow [OF _ perform] below g by simp_all
    show ?thesis
      using g g' settle perform settle' perform'
      by (simp add: drained_def Call list_update_append split: sum.split prod.split)
  next
    case (Store i bs)
    then have "Some i \<notin> item_buffer ` set (ma_items a)"
      using allowed by simp
    from settle_store [OF this settle] perform_store [OF this perform] show ?thesis
      using settle perform by (simp add: drained_def Store)
  qed
qed

definition serves_atomically :: "'w slaves \<Rightarrow> directory \<Rightarrow> 'w machine \<Rightarrow> 'w shared \<Rightarrow> bool" where
  "serves_atomically S D a x \<longleftrightarrow> slaves_fill S \<and> machine_inv a \<and> drained S D a = x"

interpretation ma: simulation "machine_step S D" "atomic_step S D" "serves_atomically S D" for S D
proof unfold_locales
  show "serves_atomically S D a x \<Longrightarrow> machine_step S D a None a' \<Longrightarrow>
      serves_atomically S D a' x \<or> (\<exists>x'. atomic_step S D x None x' \<and> serves_atomically S D a' x')" for a x a'
    by (auto simp: serves_atomically_def machine_step_def intro: machine_next_inv drained_next)
  show "serves_atomically S D a x \<Longrightarrow> machine_step S D a (Some c) a' \<Longrightarrow>
      \<exists>x'. atomic_step S D x (Some c) x' \<and> serves_atomically S D a' x'" for a x c a'
    by (simp add: serves_atomically_def machine_step_def atomic_step_def machine_call_inv drained_call)
qed

text \<open>When no future is pending the list is empty, and the atomic service is all there is.\<close>

lemma drained_quiet:
  assumes "machine_inv a" "Pending \<notin> set (ma_futures a)"
  shows "ma_items a = []" "drained S D a = (ma_mem a, ma_futures a, ma_world a)"
proof -
  show "ma_items a = []"
    using assms unfolding machine_inv_def by (metis image_is_empty nth_mem set_empty all_not_in_conv)
  then show "drained S D a = (ma_mem a, ma_futures a, ma_world a)"
    by (simp add: drained_def)
qed

end
