(* ===== verification/Closed_System.thy ===== *)
theory Closed_System
  imports Request_Machine Router_Threads
begin

text \<open>
  The system of one bridge and the router it is connected to, both running: the reader and the writer thread
  of the bridge, its queue with the condition variable, the user's calls, the socket between the two processes
  and the three goroutines of the router. Every interleaving of their steps is a run of the step relation.
\<close>

section \<open>The kernel\<close>

text \<open>One message, cut into chunks, as it comes out of the socket: the header arrives in one piece.\<close>

definition delivered :: "rd_event list \<Rightarrow> u8 list \<Rightarrow> bool" where
  "delivered es p \<longleftrightarrow> kbytes es = frame p \<and> \<not> kfails es \<and> 8 \<le> head_len es \<and> length p \<le> vector_max_size"

text \<open>A socket that holds these messages and nothing else.\<close>

definition exactly :: "rd_event list \<Rightarrow> u8 list list \<Rightarrow> bool" where
  "exactly k ps \<longleftrightarrow> framed k ps \<and> kbytes k = concat (map frame ps) \<and> \<not> kfails k"

lemma kbytes_append: "\<not> kfails k \<Longrightarrow> kbytes (k @ es) = kbytes k @ kbytes es"
  by (induction k rule: kbytes.induct) auto

lemma kfails_append: "\<not> kfails k \<Longrightarrow> kfails (k @ es) = kfails es"
  by (induction k rule: kbytes.induct) auto

lemma kdrop_append: "\<not> kfails k \<Longrightarrow> n \<le> length (kbytes k) \<Longrightarrow> kdrop n (k @ es) = kdrop n k @ es"
proof (induction n k rule: kdrop.induct)
  case (1 n)
  then show ?case by simp
next
  case (3 n b bs k)
  then show ?case
    by (cases "drop n (b # bs)") auto
qed simp

lemma head_len_append: "0 < head_len k \<Longrightarrow> head_len (k @ es) = head_len k"
  by (cases k rule: kbytes.cases) (simp_all add: head_len_def)

lemma kbytes_Nil: "kbytes k = [] \<Longrightarrow> \<not> kfails k \<Longrightarrow> k = []"
  by (cases k rule: kbytes.cases) auto

lemma exactly_Nil [simp]: "exactly k [] \<longleftrightarrow> k = []"
  by (auto simp: exactly_def dest: kbytes_Nil)

lemma exactly_Cons:
  assumes "exactly k (p # ps)"
  shows "8 \<le> head_len k" "length p \<le> vector_max_size" "take (8 + length p) (kbytes k) = frame p"
    "exactly (kdrop (8 + length p) k) ps"
proof -
  have "kbytes (kdrop (8 + length p) k) = concat (map frame ps)"
    using assms by (simp add: exactly_def kbytes_kdrop)
  then show "8 \<le> head_len k" "length p \<le> vector_max_size" "take (8 + length p) (kbytes k) = frame p"
    "exactly (kdrop (8 + length p) k) ps"
    using assms by (simp_all add: exactly_def)
qed

lemma exactly_append:
  assumes "delivered es p" "exactly k ps"
  shows "exactly (k @ es) (ps @ [p])"
  using assms(2)
proof (induction ps arbitrary: k)
  case Nil
  then have "k = []" by simp
  then show ?case
    using assms(1) by (simp add: exactly_def delivered_def)
next
  case (Cons q ps)
  note k = exactly_Cons [OF Cons.prems]
  have len: "\<not> kfails k" "8 + length q \<le> length (kbytes k)" "kbytes k = concat (map frame (q # ps))"
    using Cons.prems by (simp_all add: exactly_def)
  have "framed (kdrop (8 + length q) k @ es) (ps @ [p])"
    using Cons.IH [OF k(4)] by (simp add: exactly_def)
  moreover have "0 < head_len k"
    using k(1) by simp
  ultimately show ?case
    using k(1-3) len assms(1)
    by (simp add: exactly_def delivered_def kbytes_append kfails_append kdrop_append head_len_append)
qed

text \<open>Streams like this keep the contract of a source of frames, so the client's calls are known on them.\<close>

interpretation ex: client_source exactly
proof unfold_locales
  fix s :: int and k p ps buf
  assume s: "s \<noteq> -1" and k: "exactly k (p # ps)"
  have "readFromSocket s k buf = Ret (0, p, kdrop (8 + length p) k)"
    by (rule readFromSocket_frame [OF s exactly_Cons(1-3) [OF k]])
  then show "\<exists>k'. readFromSocket s k buf = Ret (0, p, k') \<and> exactly k' ps"
    using exactly_Cons(4) [OF k] by blast
qed

section \<open>Steps\<close>

text \<open>The bridge is the only client of the router, number 0.\<close>

record 'w system =
  sy_bridge :: "'w bridge"
  sy_router :: threads

definition arrive :: "wire_Message \<Rightarrow> threads \<Rightarrow> threads" where
  "arrive m r = r\<lparr>t_in := (t_in r)[0 := t_in r ! 0 @ [m]]\<rparr>"

definition receive_events :: "rd_event list \<Rightarrow> 'w bridge \<Rightarrow> 'w bridge" where
  "receive_events es b = b\<lparr>br_client := (br_client b)\<lparr>c_in := c_in (br_client b) @ es\<rparr>\<rparr>"

text \<open>The transactions of the two calls, and the buffers that are lent to the library.\<close>

definition read_call :: "u64 \<Rightarrow> Buffer \<Rightarrow> call" where
  "read_call m buffer = Call (bf_data buffer) ((new_Transaction True)\<lparr>txn_type := READ_REQ,
     txn_initiator := m, txn_address := bf_address buffer, txn_size := bf_size buffer\<rparr>)"

definition write_call :: "u64 \<Rightarrow> Buffer \<Rightarrow> u8 list \<Rightarrow> call" where
  "write_call m buffer bytes = Call None ((new_Transaction True)\<lparr>txn_type := WRITE_REQ,
     txn_initiator := m, txn_address := bf_address buffer, txn_size := bf_size buffer, txn_data := bytes\<rparr>)"

definition lent :: "'w bridge \<Rightarrow> ptr set" where
  "lent b = tx_buffer ` (set (q_items (br_queue b)) \<union> set (writer_txns (br_writer b))
     \<union> (\<Union>(i, md) \<in> set (br_masterMap b). snd ` set (md_txns md)))"

text \<open>
  The steps of the threads. One that reads from its socket waits while nothing arrives (both processes keep the
  socket open); the writer waits while the condition variable does.
\<close>

definition writer_waits :: "'w bridge \<Rightarrow> bool" where
  "writer_waits b \<longleftrightarrow> br_writer b = Writer_Pop \<and> q_popper (br_queue b) = Waiting"

inductive thread_step ::
  "lib \<Rightarrow> 'w slaves \<Rightarrow> visit set \<Rightarrow> (u64 \<Rightarrow> wire_Transaction \<Rightarrow> wire_Transaction)
    \<Rightarrow> 'w system \<Rightarrow> 'w system \<Rightarrow> bool" for L S orders mutate where
  Thr_reader: "br_reader (sy_bridge s) = Reader_Running \<Longrightarrow> c_in (br_client (sy_bridge s)) \<noteq> [] \<Longrightarrow>
    Bridge_reader L S (sy_bridge s) = Ret b \<Longrightarrow> thread_step L S orders mutate s (s\<lparr>sy_bridge := b\<rparr>)"
| Thr_writer: "br_writer (sy_bridge s) \<noteq> Writer_Absent \<Longrightarrow> br_writer (sy_bridge s) \<noteq> Writer_Exited \<Longrightarrow>
    \<not> writer_waits (sy_bridge s) \<Longrightarrow> Bridge_writer L (sy_bridge s) = Ret b \<Longrightarrow>
    wr_sent (c_out (br_client b)) = wr_sent (c_out (br_client (sy_bridge s))) \<Longrightarrow>
    thread_step L S orders mutate s (s\<lparr>sy_bridge := b\<rparr>)"
| Thr_writer_sends: "br_writer (sy_bridge s) \<noteq> Writer_Absent \<Longrightarrow> br_writer (sy_bridge s) \<noteq> Writer_Exited \<Longrightarrow>
    \<not> writer_waits (sy_bridge s) \<Longrightarrow> Bridge_writer L (sy_bridge s) = Ret b \<Longrightarrow>
    wr_sent (c_out (br_client b)) = wr_sent (c_out (br_client (sy_bridge s))) @ frame (lib_encode L m) \<Longrightarrow>
    thread_step L S orders mutate s (s\<lparr>sy_bridge := b, sy_router := arrive m (sy_router s)\<rparr>)"
| Thr_notify: "0 < q_notify (br_queue (sy_bridge s)) \<Longrightarrow> thread_step L S orders mutate s
    (s\<lparr>sy_bridge := (sy_bridge s)\<lparr>br_queue := q_control Notify (br_queue (sy_bridge s))\<rparr>\<rparr>)"
| Thr_router: "go_step orders mutate (sy_router s) r \<Longrightarrow> \<not> t_exited r \<Longrightarrow> t_out r = t_out (sy_router s) \<Longrightarrow>
    thread_step L S orders mutate s (s\<lparr>sy_router := r\<rparr>)"
| Thr_router_sends: "go_step orders mutate (sy_router s) r \<Longrightarrow>
    t_out r = (t_out (sy_router s))[0 := t_out (sy_router s) ! 0 @ [m]] \<Longrightarrow> delivered es (lib_encode L m) \<Longrightarrow>
    thread_step L S orders mutate s (s\<lparr>sy_bridge := receive_events es (sy_bridge s), sy_router := r\<rparr>)"
| Thr_router_exits: "\<not> t_exited (sy_router s) \<Longrightarrow> t_route (sy_router s) = Route_Waiting \<Longrightarrow>
    t_readers (sy_router s) ! 0 = Offering m \<Longrightarrow> order \<in> orders \<Longrightarrow>
    route order mutate m (t_router (sy_router s)) = Fault e \<Longrightarrow>
    thread_step L S orders mutate s (s\<lparr>sy_router := (sy_router s)\<lparr>t_exited := True\<rparr>\<rparr>)"

text \<open>
  With the spurious wake-ups, which the standard allows, and the calls: a user calls a registered master with
  a buffer that is large enough, fewer than \<open>2 ^ 64\<close> times, and does not write into a buffer that is lent.
\<close>

inductive system_step ::
  "lib \<Rightarrow> 'w slaves \<Rightarrow> visit set \<Rightarrow> (u64 \<Rightarrow> wire_Transaction \<Rightarrow> wire_Transaction)
    \<Rightarrow> 'w system \<Rightarrow> call option \<Rightarrow> 'w system \<Rightarrow> bool" for L S orders mutate where
  Sys_thread: "thread_step L S orders mutate s s' \<Longrightarrow> system_step L S orders mutate s None s'"
| Sys_spurious: "system_step L S orders mutate s None
    (s\<lparr>sy_bridge := (sy_bridge s)\<lparr>br_queue := q_control Spurious (br_queue (sy_bridge s))\<rparr>\<rparr>)"
| Sys_read: "map_of (br_masterMap (sy_bridge s)) m \<noteq> None \<Longrightarrow> Suc (length (br_futures (sy_bridge s))) < 2 ^ 64 \<Longrightarrow>
    unat (bf_size buffer) \<le> vector_max_size \<Longrightarrow>
    fits (br_mem (sy_bridge s)) (bf_data buffer) (unat (bf_size buffer)) \<Longrightarrow>
    Master_read m buffer (sy_bridge s) = (b, f) \<Longrightarrow>
    system_step L S orders mutate s (Some (read_call m buffer)) (s\<lparr>sy_bridge := b\<rparr>)"
| Sys_write: "map_of (br_masterMap (sy_bridge s)) m \<noteq> None \<Longrightarrow> Suc (length (br_futures (sy_bridge s))) < 2 ^ 64 \<Longrightarrow>
    load_bytes (br_mem (sy_bridge s)) (bf_data buffer) (unat (bf_size buffer)) = Ret bytes \<Longrightarrow>
    Master_write m buffer (sy_bridge s) = Ret (b, f) \<Longrightarrow>
    system_step L S orders mutate s (Some (write_call m buffer bytes)) (s\<lparr>sy_bridge := b\<rparr>)"
| Sys_store: "map_option length (br_mem (sy_bridge s) i) = Some (length bs) \<Longrightarrow> Some i \<notin> lent (sy_bridge s) \<Longrightarrow>
    system_step L S orders mutate s (Some (Store i bs))
      (s\<lparr>sy_bridge := (sy_bridge s)\<lparr>br_mem := (br_mem (sy_bridge s))(i := Some bs)\<rparr>\<rparr>)"

abbreviation system_run where
  "system_run L S orders mutate \<equiv> labelled_run (system_step L S orders mutate)"

section \<open>Which request an element belongs to\<close>

text \<open>The entry of a request that waits for its response, and what it holds.\<close>

definition entry :: "(u64 \<times> MasterMd) list \<Rightarrow> u64 \<Rightarrow> u64 \<Rightarrow> Txn option" where
  "entry mm i n = (case map_of mm i of None \<Rightarrow> None | Some md \<Rightarrow> map_of (md_txns md) n)"

definition kept_for :: "(u64 \<times> MasterMd) list \<Rightarrow> u64 \<Rightarrow> u64 \<Rightarrow> ptr \<Rightarrow> nat \<Rightarrow> bool" where
  "kept_for mm i n p f \<longleftrightarrow> (\<exists>t. entry mm i n = Some t \<and> tx_buffer t = p \<and> tx_promise t = Some f)"

text \<open>What the master makes of a response: the bytes for its buffer and the status.\<close>

definition tells_of :: "Transaction \<Rightarrow> u8 list \<Rightarrow> Status \<Rightarrow> bool" where
  "tells_of resp bytes st \<longleftrightarrow> (txn_type resp = READ_RESP \<or> txn_type resp = WRITE_RESP)
     \<and> st = (if txn_ok resp then status_ok else mk_status 1 (txn_message resp)) \<and> txn_message resp = st_msg st
     \<and> txn_data resp = bytes \<and> (bytes = [] \<or> txn_type resp = READ_RESP \<and> txn_ok resp)"

text \<open>
  An item of the machine against what represents it: an element of the queue, a message on its way to the
  routing loop, a message the routing loop has passed on. A request that cannot be routed has become a
  response by then; one that can has the number under which the bridge of the slave will look for it, which is
  what \<^verbatim>\<open>MutateTarget\<close> makes of an absent target.
\<close>

definition arrives_as :: "(u64 \<Rightarrow> wire_Transaction \<Rightarrow> wire_Transaction) \<Rightarrow> u64 \<Rightarrow> u64 \<Rightarrow> bool" where
  "arrives_as mutate i k \<longleftrightarrow> (\<forall>w. wt_target w = 0 \<longrightarrow> mutate i w = w\<lparr>wt_target := k\<rparr>)"

lemma arrives_as_unique:
  assumes "arrives_as mutate i k" "arrives_as mutate i j"
  shows "k = j"
proof -
  let ?w = "\<lparr>wt_type = 0, wt_initiator = 0, wt_target = 0, wt_id = 0, wt_address = 0, wt_size = 0,
    wt_data = None, wt_ok = False, wt_message = None\<rparr>"
  have "?w\<lparr>wt_target := k\<rparr> = ?w\<lparr>wt_target := j\<rparr>"
    using assms unfolding arrives_as_def by (metis wire_Transaction.select_convs(3))
  then show ?thesis by simp
qed

text \<open>The generated \<^verbatim>\<open>MutateTarget\<close> leaves an absent target alone: every request arrives for number 0.\<close>

lemma arrives_as_absent: "(\<And>w. wt_target w = 0 \<Longrightarrow> mutate i w = w) \<Longrightarrow> arrives_as mutate i 0"
  by (simp add: arrives_as_def)

fun queued :: "(u64 \<times> MasterMd) list \<Rightarrow> item \<Rightarrow> Txn \<Rightarrow> bool" where
  "queued mm (Request p f txn) t \<longleftrightarrow>
     t = \<lparr>tx_type = TRANSACTION, tx_buffer = p, tx_txn = txn, tx_promise = Some f\<rparr>
     \<and> txn_target txn = 0 \<and> map_of mm (txn_initiator txn) \<noteq> None"
| "queued mm (Answer p f bytes st) t \<longleftrightarrow> tx_type t = TRANSACTION \<and> tx_promise t = None
     \<and> tells_of (tx_txn t) bytes st \<and> kept_for mm (txn_initiator (tx_txn t)) (txn_id (tx_txn t)) p f"

fun outgoing :: "(u64 \<times> MasterMd) list \<Rightarrow> item \<Rightarrow> wire_Message \<Rightarrow> bool" where
  "outgoing mm (Request p f txn) m \<longleftrightarrow> (\<exists>n ty. wire_of_TransactionType (txn_type txn) = Some ty
     \<and> m = Transaction_message (txn\<lparr>txn_id := n\<rparr>) ty \<and> txn_target txn = 0 \<and> kept_for mm (txn_initiator txn) n p f)"
| "outgoing mm (Answer p f bytes st) m \<longleftrightarrow> (\<exists>resp ty. wire_of_TransactionType (txn_type resp) = Some ty
     \<and> m = Transaction_message resp ty \<and> tells_of resp bytes st \<and> kept_for mm (txn_initiator resp) (txn_id resp) p f)"

fun returning :: "visit set \<Rightarrow> (u64 \<Rightarrow> wire_Transaction \<Rightarrow> wire_Transaction) \<Rightarrow> router \<Rightarrow> (u64 \<times> MasterMd) list \<Rightarrow> item
    \<Rightarrow> wire_Message \<Rightarrow> bool" where
  "returning orders mutate r mm (Request p f txn) m \<longleftrightarrow> (\<exists>n ty. wire_of_TransactionType (txn_type txn) = Some ty
     \<and> kept_for mm (txn_initiator txn) n p f
     \<and> (\<exists>order \<in> orders. case findTarget order (txn_address txn) (txn_size txn) r of
         Inl err \<Rightarrow> m = createErrorTxn (txn_initiator txn) n ty err
       | Inr (i, c) \<Rightarrow> \<exists>k. arrives_as mutate i k
           \<and> m = Transaction_message (txn\<lparr>txn_id := n, txn_target := k\<rparr>) ty))"
| "returning orders mutate r mm (Answer p f bytes st) m \<longleftrightarrow> outgoing mm (Answer p f bytes st) m"

text \<open>A change of the master map that keeps what an item relies on.\<close>

definition keeps :: "nat \<Rightarrow> (u64 \<times> MasterMd) list \<Rightarrow> (u64 \<times> MasterMd) list \<Rightarrow> bool" where
  "keeps f mm mm' \<longleftrightarrow> (\<forall>i n p. kept_for mm i n p f \<longrightarrow> kept_for mm' i n p f)
     \<and> (\<forall>i. map_of mm i \<noteq> None \<longrightarrow> map_of mm' i \<noteq> None)"

lemma keeps_queued: "keeps (item_future it) mm mm' \<Longrightarrow> queued mm it t \<Longrightarrow> queued mm' it t"
  by (cases it) (auto simp: keeps_def)

lemma keeps_outgoing: "keeps (item_future it) mm mm' \<Longrightarrow> outgoing mm it m \<Longrightarrow> outgoing mm' it m"
  by (cases it) (auto simp: keeps_def, blast+)

lemma keeps_returning: "keeps (item_future it) mm mm' \<Longrightarrow> returning orders mutate r mm it m \<Longrightarrow> returning orders mutate r mm' it m"
  by (cases it) (auto simp: keeps_def, blast+)

lemma keeps_all:
  assumes "\<And>it. it \<in> set its \<Longrightarrow> keeps (item_future it) mm mm'"
  shows "list_all2 (queued mm) its ts \<Longrightarrow> list_all2 (queued mm') its ts"
    and "list_all2 (outgoing mm) its ms \<Longrightarrow> list_all2 (outgoing mm') its ms"
    and "list_all2 (returning orders mutate r mm) its ms \<Longrightarrow> list_all2 (returning orders mutate r mm') its ms"
  using assms by (blast intro: list.rel_mono_strong keeps_queued keeps_outgoing keeps_returning)+

text \<open>The two changes: a request gets its identifier, a response takes its request out.\<close>

lemma entry_update:
  "entry (AList.update i md mm) j n = (if j = i then map_of (md_txns md) n else entry mm j n)"
  by (simp add: entry_def AList.update_conv')

lemma keeps_assign:
  assumes "map_of mm i = Some md" "map_of (md_txns md) n = None"
  shows "keeps f mm (AList.update i (md\<lparr>md_lastTxnId := m, md_txns := AList.update n t (md_txns md)\<rparr>) mm)"
  using assms by (auto simp: keeps_def kept_for_def entry_update entry_def AList.update_conv')

lemma keeps_response:
  assumes "map_of mm i = Some md" "map_of (md_txns md) n = Some t" "tx_promise t = Some g" "f \<noteq> g"
  shows "keeps f mm (AList.update i (md\<lparr>md_txns := AList.delete n (md_txns md)\<rparr>) mm)"
  using assms by (auto simp: keeps_def kept_for_def entry_update entry_def AList.update_conv' AList.delete_conv')

section \<open>The router as a channel\<close>

text \<open>
  The messages inside the router: those on their way to the routing loop, and those the loop has passed on,
  each in their order.
\<close>

definition offered :: "go_reader \<Rightarrow> wire_Message list" where
  "offered rd = (case rd of Offering m \<Rightarrow> [m] | _ \<Rightarrow> [])"

definition written :: "go_writer \<Rightarrow> wire_Message list" where
  "written w = (case w of Writing m \<Rightarrow> [m] | _ \<Rightarrow> [])"

definition passed :: "go_route \<Rightarrow> wire_Message list" where
  "passed rt = (case rt of Route_Sending outs on \<Rightarrow> map snd outs | _ \<Rightarrow> [])"

definition fabric :: "threads \<Rightarrow> wire_Message list \<Rightarrow> wire_Message list \<Rightarrow> bool" where
  "fabric r back fwd \<longleftrightarrow> \<not> t_exited r
     \<and> (\<exists>rd w ins. t_readers r = [rd] \<and> t_writers r = [w] \<and> t_in r = [ins] \<and> length (t_out r) = 1
        \<and> rd \<noteq> Reader_Done \<and> w \<noteq> Writer_Done
        \<and> (t_route r = Route_Waiting \<or> (\<exists>m. t_route r = Route_Sending [(0, m)] True))
        \<and> back = written w @ passed (t_route r) \<and> fwd = offered rd @ ins)"

text \<open>
  How many messages the router holds, and how far they still have to go: each is weighted by its distance from
  the socket of the bridge.
\<close>

definition router_tokens :: "threads \<Rightarrow> nat" where
  "router_tokens r = length (written (t_writers r ! 0)) + length (passed (t_route r))
     + length (offered (t_readers r ! 0)) + length (t_in r ! 0)"

definition router_work :: "threads \<Rightarrow> nat" where
  "router_work r = 8 * length (written (t_writers r ! 0)) + 12 * length (passed (t_route r))
     + 16 * length (offered (t_readers r ! 0)) + 20 * length (t_in r ! 0)"

text \<open>A step of the goroutines moves a message inside, routes the first one, or writes the first one out.\<close>

lemma fabric_step:
  assumes step: "go_step orders mutate r r'" "\<not> t_exited r'" and fabric: "fabric r back fwd"
    and fwd: "\<forall>m \<in> set fwd. wm_type m \<noteq> Type_DONE"
      "\<forall>m \<in> set fwd. \<forall>order \<in> orders. \<exists>m'. route order mutate m (t_router r) = Ret (t_router r, [(0, m')], True)"
    and bwd: "\<forall>m \<in> set back. wm_type m \<noteq> Type_DONE"
  obtains (move) "fabric r' back fwd" "t_router r' = t_router r" "t_out r' = t_out r"
      "router_tokens r' = router_tokens r" "router_work r' < router_work r"
  | (pass) order m fwd' m' where "fwd = m # fwd'" "order \<in> orders" "route order mutate m (t_router r) = Ret (t_router r, [(0, m')], True)"
      "fabric r' (back @ [m']) fwd'" "t_router r' = t_router r" "t_out r' = t_out r"
      "router_tokens r' = router_tokens r" "router_work r' < router_work r"
  | (out) m back' where "back = m # back'" "fabric r' back' fwd" "t_router r' = t_router r"
      "t_out r' = (t_out r)[0 := t_out r ! 0 @ [m]]"
      "Suc (router_tokens r') = router_tokens r" "router_work r' + 8 = router_work r"
proof -
  obtain rd w ins where r: "t_readers r = [rd]" "t_writers r = [w]" "t_in r = [ins]" "length (t_out r) = 1"
      "rd \<noteq> Reader_Done" "w \<noteq> Writer_Done" "\<not> t_exited r"
      "t_route r = Route_Waiting \<or> (\<exists>m. t_route r = Route_Sending [(0, m)] True)"
      "back = written w @ passed (t_route r)" "fwd = offered rd @ ins"
    using fabric unfolding fabric_def by blast
  from step(1) show ?thesis
  proof cases
    case (Read i m ms)
    have "m \<in> set fwd"
      using Read r by (simp add: offered_def)
    then have "after_read m = Offering m"
      using fwd(1) by (simp add: after_read_def)
    then show ?thesis
      using Read r by (intro move) (auto simp: fabric_def offered_def router_tokens_def router_work_def)
  next
    case (Receive i m order r1 outs on)
    have m: "rd = Offering m" "i = 0"
      using Receive r by simp_all
    have "m \<in> set fwd"
      using r m by (simp add: offered_def)
    then obtain m' where m': "route order mutate m (t_router r) = Ret (t_router r, [(0, m')], True)"
      using fwd(2) Receive(6) by blast
    show ?thesis
      using Receive r m m' by (intro pass [OF _ _ m', of ins]) (auto simp: fabric_def offered_def passed_def router_tokens_def router_work_def)
  next
    case (Send c m outs on)
    then show ?thesis
      using r by (intro move) (auto simp: fabric_def written_def passed_def router_tokens_def router_work_def)
  next
    case (Write i m)
    have "m \<in> set back"
      using Write r by (simp add: written_def)
    then have "after_write m = Writer_Idle"
      using bwd by (simp add: after_write_def)
    then show ?thesis
      using Write r by (intro out [of m "passed (t_route r)"]) (auto simp: fabric_def written_def router_tokens_def router_work_def)
  qed (use step(2) in auto)
qed

lemma fabric_arrive: "fabric r back fwd \<Longrightarrow> fabric (arrive m r) back (fwd @ [m])"
  by (auto simp: fabric_def arrive_def)

lemma arrive_simps [simp]: "t_router (arrive m r) = t_router r" "t_out (arrive m r) = t_out r"
  "t_exited (arrive m r) = t_exited r"
  by (simp_all add: arrive_def)

section \<open>The simulation relation\<close>

text \<open>
  How the bridge and the router fit together. The masters of the bridge are IP of client 0. \<open>D\<close> says what
  becomes of the requests for an address and a size, whatever the order of the map: they are refused, or a block
  is found, and then the number \<open>k\<close> with which they arrive at the bridge is that of one of its slaves, which
  serves them. With the generated \<^verbatim>\<open>MutateTarget\<close> that number is 0 for all blocks (\<open>arrives_as_absent\<close>): the condition
  then is that the bridge has a slave number 0, and it serves the requests for all blocks. Where number 0
  is not a slave, it fails, and the reader ends as \<open>read_of_later_slave\<close> shows.
\<close>

definition wired :: "lib \<Rightarrow> visit set \<Rightarrow> (u64 \<Rightarrow> wire_Transaction \<Rightarrow> wire_Transaction)
    \<Rightarrow> directory \<Rightarrow> router \<Rightarrow> 'w bridge \<Rightarrow> bool" where
  "wired L orders mutate D r b \<longleftrightarrow> codec L \<and> length (r_clients r) = 1
     \<and> (\<forall>i. map_of (br_masterMap b) i \<noteq> None \<longrightarrow>
          unat i < length (r_ips r) \<and> ii_client (r_ips r ! unat i) = 0)
     \<and> orders \<noteq> {}
     \<and> (\<forall>order \<in> orders. \<forall>a n. case findTarget order a n r of
          Inl err \<Rightarrow> D a n = Inl err
        | Inr (i, c) \<Rightarrow> c = 0
            \<and> (\<exists>k s. arrives_as mutate i k \<and> map_of (br_slaveMap b) k = Some (Some s)
                 \<and> s \<notin> set (br_deleted b) \<and> D a n = Inr s))"

text \<open>Both threads are at work, over a connection that takes every byte.\<close>

definition writer_works :: "writer \<Rightarrow> bool" where
  "writer_works w \<longleftrightarrow> (case w of Writer_Pop \<Rightarrow> True | Writer_Popped t \<Rightarrow> True
     | Writer_Send txn key \<Rightarrow> wire_of_TransactionType (txn_type txn) \<noteq> None
         \<and> (key = None \<or> key = Some (txn_initiator txn, txn_id txn))
     | _ \<Rightarrow> False)"

definition at_work :: "'w bridge \<Rightarrow> bool" where
  "at_work b \<longleftrightarrow> c_state (br_client b) = STARTED \<and> c_sock (br_client b) \<noteq> -1
     \<and> wr_script (c_out (br_client b)) = [] \<and> br_reader b = Reader_Running \<and> writer_works (br_writer b)
     \<and> \<not> q_done (br_queue b) \<and> push_wakes (br_queue b)"

text \<open>A master's next identifier is in no use, and will not be before there are \<open>2 ^ 64\<close> futures.\<close>

definition ids_fresh :: "Txn list \<Rightarrow> (u64 \<times> MasterMd) list \<Rightarrow> nat \<Rightarrow> bool" where
  "ids_fresh ts mm k \<longleftrightarrow> k < 2 ^ 64 \<and> (\<forall>i md. map_of mm i = Some md \<longrightarrow>
     unat (md_lastTxnId md) + length (filter is_request ts) \<le> k
     \<and> (\<forall>n. map_of (md_txns md) n \<noteq> None \<longrightarrow> n < md_lastTxnId md))"

text \<open>The elements the writer still has to prepare, and the message it is about to send.\<close>

definition waiting :: "'w bridge \<Rightarrow> Txn list" where
  "waiting b = writer_txns (br_writer b) @ q_items (br_queue b)"

definition departing :: "writer \<Rightarrow> wire_Message list" where
  "departing w = (case w of
     Writer_Send txn key \<Rightarrow> (case wire_of_TransactionType (txn_type txn) of
        None \<Rightarrow> [] | Some ty \<Rightarrow> [Transaction_message txn ty])
   | _ \<Rightarrow> [])"

text \<open>
  The ring: from the socket of the bridge back through the router and the writer to the queue lie the items
  of the machine, in its order.
\<close>

definition ring :: "lib \<Rightarrow> visit set \<Rightarrow> (u64 \<Rightarrow> wire_Transaction \<Rightarrow> wire_Transaction) \<Rightarrow> 'w system \<Rightarrow> item list \<Rightarrow> item list
    \<Rightarrow> item list \<Rightarrow> bool" where
  "ring L orders mutate s is1 is2 is3 \<longleftrightarrow> (\<exists>ms back fwd.
     exactly (c_in (br_client (sy_bridge s))) (map (lib_encode L) ms) \<and> fabric (sy_router s) back fwd
     \<and> list_all2 (returning orders mutate (t_router (sy_router s)) (br_masterMap (sy_bridge s))) is1 (ms @ back)
     \<and> list_all2 (outgoing (br_masterMap (sy_bridge s))) is2 (fwd @ departing (br_writer (sy_bridge s)))
     \<and> list_all2 (queued (br_masterMap (sy_bridge s))) is3 (waiting (sy_bridge s)))"

definition same_user :: "'w bridge \<Rightarrow> 'w machine \<Rightarrow> bool" where
  "same_user b a \<longleftrightarrow> br_mem b = ma_mem a \<and> br_futures b = ma_futures a \<and> br_world b = ma_world a"

definition system_sim :: "lib \<Rightarrow> 'w slaves \<Rightarrow> visit set
    \<Rightarrow> (u64 \<Rightarrow> wire_Transaction \<Rightarrow> wire_Transaction) \<Rightarrow> directory \<Rightarrow> 'w system \<Rightarrow> 'w machine \<Rightarrow> bool" where
  "system_sim L S orders mutate D s a \<longleftrightarrow> slaves_fill S \<and> machine_inv a
     \<and> wired L orders mutate D (t_router (sy_router s)) (sy_bridge s)
     \<and> at_work (sy_bridge s)
     \<and> ids_fresh (waiting (sy_bridge s)) (br_masterMap (sy_bridge s)) (length (br_futures (sy_bridge s)))
     \<and> same_user (sy_bridge s) a
     \<and> (\<exists>is1 is2 is3. ma_items a = is1 @ is2 @ is3 \<and> ring L orders mutate s is1 is2 is3)"

lemma system_simE:
  assumes "system_sim L S orders mutate D s a"
  obtains is1 is2 is3 ms bwd fwd where "slaves_fill S" "machine_inv a"
    "wired L orders mutate D (t_router (sy_router s)) (sy_bridge s)" "at_work (sy_bridge s)"
    "ids_fresh (waiting (sy_bridge s)) (br_masterMap (sy_bridge s)) (length (br_futures (sy_bridge s)))"
    "same_user (sy_bridge s) a" "ma_items a = is1 @ is2 @ is3"
    "exactly (c_in (br_client (sy_bridge s))) (map (lib_encode L) ms)" "fabric (sy_router s) bwd fwd"
    "list_all2 (returning orders mutate (t_router (sy_router s)) (br_masterMap (sy_bridge s))) is1 (ms @ bwd)"
    "list_all2 (outgoing (br_masterMap (sy_bridge s))) is2 (fwd @ departing (br_writer (sy_bridge s)))"
    "list_all2 (queued (br_masterMap (sy_bridge s))) is3 (waiting (sy_bridge s))"
  using assms unfolding system_sim_def ring_def by blast

lemma system_simI:
  assumes "slaves_fill S" "machine_inv a"
    "wired L orders mutate D (t_router (sy_router s)) (sy_bridge s)" "at_work (sy_bridge s)"
    "ids_fresh (waiting (sy_bridge s)) (br_masterMap (sy_bridge s)) (length (br_futures (sy_bridge s)))"
    "same_user (sy_bridge s) a" "ma_items a = is1 @ is2 @ is3"
    "exactly (c_in (br_client (sy_bridge s))) (map (lib_encode L) ms)" "fabric (sy_router s) bwd fwd"
    "list_all2 (returning orders mutate (t_router (sy_router s)) (br_masterMap (sy_bridge s))) is1 (ms @ bwd)"
    "list_all2 (outgoing (br_masterMap (sy_bridge s))) is2 (fwd @ departing (br_writer (sy_bridge s)))"
    "list_all2 (queued (br_masterMap (sy_bridge s))) is3 (waiting (sy_bridge s))"
  shows "system_sim L S orders mutate D s a"
  using assms unfolding system_sim_def ring_def by blast

subsection \<open>The work that is left\<close>

text \<open>
  How many items the bridge holds, and how far they still have to go, as \<open>router_work\<close> does for the router. A
  request goes round twice.
\<close>

definition bridge_tokens :: "'w bridge \<Rightarrow> nat" where
  "bridge_tokens b = length (departing (br_writer b)) + length (waiting b)"

definition bridge_work :: "'w bridge \<Rightarrow> nat" where
  "bridge_work b = 24 * length (departing (br_writer b)) + 28 * length (writer_txns (br_writer b))
     + 32 * length (q_items (br_queue b)) + 2 * q_notify (br_queue b)
     + (if q_popper (br_queue b) = Waiting then 0 else 1)"

definition open_requests :: "'w machine \<Rightarrow> nat" where
  "open_requests a = length (filter is_Request (ma_items a))"

definition work :: "'w system \<Rightarrow> 'w machine \<Rightarrow> nat" where
  "work s a = bridge_work (sy_bridge s) + router_work (sy_router s) + 32 * open_requests a
     + 4 * (length (ma_items a) - (bridge_tokens (sy_bridge s) + router_tokens (sy_router s)))"

lemma sim_tokens:
  assumes "system_sim L S orders mutate D s a"
  obtains ms where "exactly (c_in (br_client (sy_bridge s))) (map (lib_encode L) ms)"
    "length (ma_items a) = length ms + (bridge_tokens (sy_bridge s) + router_tokens (sy_router s))"
proof -
  obtain is1 is2 is3 ms bwd fwd where s: "ma_items a = is1 @ is2 @ is3"
    "exactly (c_in (br_client (sy_bridge s))) (map (lib_encode L) ms)" "fabric (sy_router s) bwd fwd"
    "list_all2 (returning orders mutate (t_router (sy_router s)) (br_masterMap (sy_bridge s))) is1 (ms @ bwd)"
    "list_all2 (outgoing (br_masterMap (sy_bridge s))) is2 (fwd @ departing (br_writer (sy_bridge s)))"
    "list_all2 (queued (br_masterMap (sy_bridge s))) is3 (waiting (sy_bridge s))"
    using assms by (rule system_simE)
  have "length bwd + length fwd = router_tokens (sy_router s)"
    using s(3) by (auto simp: fabric_def router_tokens_def)
  then show ?thesis
    using s(4-6) [THEN list_all2_lengthD] by (intro that [OF s(2)]) (simp add: s(1) bridge_tokens_def)
qed

subsection \<open>Messages of items\<close>

lemma tells_of_message:
  "tells_of resp bytes st \<Longrightarrow> txn_type resp = READ_RESP \<or> txn_type resp = WRITE_RESP"
  by (simp add: tells_of_def)

lemma tells_of_response_to:
  assumes "slaves_fill S" "request_ok mem p txn" "handled S s txn w = (ret, data, w')"
  shows "tells_of (response_to txn ret data) (result_bytes ret data) (result_status ret)"
  using handled_length [OF assms] assms(2)
  by (auto simp: tells_of_def response_to_def result_bytes_def result_status_def request_ok_def status_ok_def
      mk_status_def)

text \<open>A message that comes back is received as a transaction.\<close>

definition comes_as :: "wire_Message \<Rightarrow> Transaction \<Rightarrow> bool" where
  "comes_as m txn \<longleftrightarrow> wm_type m = Type_TRANSACTION \<and> Transaction_of_message m = Ret (Inr txn)"

lemma comes_as_Transaction_message:
  "wire_of_TransactionType (txn_type txn) = Some ty \<Longrightarrow> comes_as (Transaction_message txn ty) txn"
  by (simp add: comes_as_def Transaction_of_Transaction_message) (simp add: Transaction_message_def)

definition refusal :: "u64 \<Rightarrow> u64 \<Rightarrow> TransactionType \<Rightarrow> string \<Rightarrow> Transaction" where
  "refusal i n typ err = \<lparr>txn_type = typ, txn_initiator = i, txn_target = 0, txn_id = n, txn_address = 0,
     txn_size = 0, txn_data = [], txn_ok = False, txn_message = err\<rparr>"

lemma comes_as_createErrorTxn:
  assumes "wire_of_TransactionType typ = Some ty" "typ = READ_REQ \<or> typ = WRITE_REQ"
  shows "comes_as (createErrorTxn i n ty err) (refusal i n (if typ = READ_REQ then READ_RESP else WRITE_RESP) err)"
  using assms by (auto simp: comes_as_def createErrorTxn_def Transaction_of_message_def
      TransactionType_of_wire_def refusal_def)

lemma comes_as_not_DONE: "comes_as m txn \<Longrightarrow> wm_type m \<noteq> Type_DONE"
  by (simp add: comes_as_def Type_defs)

lemma receive_exactly:
  assumes "codec L" "at_work b" "comes_as m txn"
    and "exactly (c_in (br_client b)) (map (lib_encode L) (m # ms))"
  obtains k where "RouterClient_receiveTransaction L (br_client b) = Ret ((br_client b)\<lparr>c_in := k\<rparr>, Some txn, status_ok)"
    "exactly k (map (lib_encode L) ms)"
proof -
  have c: "c_sock (br_client b) \<noteq> -1" "c_state (br_client b) = STARTED"
    using assms(2) by (simp_all add: at_work_def)
  obtain k where k: "client_read L (br_client b) = Ret ((br_client b)\<lparr>c_in := k\<rparr>, Some m)"
    "exactly k (map (lib_encode L) ms)"
    using assms(1) c(1) assms(4) by (rule ex.client_read_pending)
  show ?thesis
    by (rule that [OF _ k(2)])
      (use k(1) c(2) assms(3) in \<open>simp add: RouterClient_receiveTransaction_def comes_as_def Type_defs\<close>)
qed

section \<open>The system at rest\<close>

text \<open>
  Both processes run, nothing is under way, no future is pending. This is the state after \<^verbatim>\<open>start\<close>, and again
  after all calls have completed.
\<close>

definition at_rest :: "lib \<Rightarrow> visit set \<Rightarrow> (u64 \<Rightarrow> wire_Transaction \<Rightarrow> wire_Transaction)
    \<Rightarrow> directory \<Rightarrow> 'w system \<Rightarrow> bool" where
  "at_rest L orders mutate D s \<longleftrightarrow> wired L orders mutate D (t_router (sy_router s)) (sy_bridge s)
     \<and> at_work (sy_bridge s) \<and> c_in (br_client (sy_bridge s)) = [] \<and> br_writer (sy_bridge s) = Writer_Pop
     \<and> q_items (br_queue (sy_bridge s)) = [] \<and> fabric (sy_router s) [] []
     \<and> Pending \<notin> set (br_futures (sy_bridge s))
     \<and> ids_fresh [] (br_masterMap (sy_bridge s)) (length (br_futures (sy_bridge s)))"

end
