(* ===== verification/Closed_Simulation.thy ===== *)
theory Closed_Simulation
  imports Closed_System
begin

text \<open>
  Every step of the system of \<open>Closed_System\<close> is a move of the machine of \<open>Request_Machine\<close> or none at all: the
  reader makes the machine's moves, the writer and the router only carry items round the ring. No step faults,
  and each leaves less work.
\<close>

subsection \<open>The reader\<close>

lemma kept_forE:
  assumes "kept_for mm i n p f"
  obtains md t where "map_of mm i = Some md" "map_of (md_txns md) n = Some t" "tx_buffer t = p" "tx_promise t = Some f"
  using assms by (auto simp: kept_for_def entry_def split: option.splits)

lemma wired_cong:
  assumes "wired L orders mutate D r b" "\<And>i. map_of (br_masterMap b') i \<noteq> None \<Longrightarrow> map_of (br_masterMap b) i \<noteq> None"
    and "br_slaveMap b' = br_slaveMap b" "br_deleted b' = br_deleted b"
  shows "wired L orders mutate D r b'"
  using assms(1,2) unfolding wired_def assms(3,4) by blast

lemma wiredD:
  assumes "wired L orders mutate D r b"
  shows "codec L" "length (r_clients r) = 1"
    and "map_of (br_masterMap b) i \<noteq> None \<Longrightarrow> unat i < length (r_ips r) \<and> ii_client (r_ips r ! unat i) = 0"
    and "order \<in> orders \<Longrightarrow> findTarget order a n r = Inl err \<Longrightarrow> D a n = Inl err"
    and "order \<in> orders \<Longrightarrow> findTarget order a n r = Inr (t, c) \<Longrightarrow> c = 0"
    and "order \<in> orders \<Longrightarrow> findTarget order a n r = Inr (t, c) \<Longrightarrow>
      \<exists>k s. arrives_as mutate t k \<and> map_of (br_slaveMap b) k = Some (Some s) \<and> s \<notin> set (br_deleted b) \<and> D a n = Inr s"
    and "orders \<noteq> {}"
proof -
  have w: "case findTarget order a n r of
          Inl err \<Rightarrow> D a n = Inl err
        | Inr (i, c) \<Rightarrow> c = 0
            \<and> (\<exists>k s. arrives_as mutate i k \<and> map_of (br_slaveMap b) k = Some (Some s)
                 \<and> s \<notin> set (br_deleted b) \<and> D a n = Inr s)" if "order \<in> orders"
    using assms that unfolding wired_def by (elim conjE) (drule (1) bspec, drule spec [where x = a], erule spec)
  show "codec L" "length (r_clients r) = 1" "orders \<noteq> {}"
    "map_of (br_masterMap b) i \<noteq> None \<Longrightarrow> unat i < length (r_ips r) \<and> ii_client (r_ips r ! unat i) = 0"
    using assms unfolding wired_def by blast+
  show "order \<in> orders \<Longrightarrow> findTarget order a n r = Inl err \<Longrightarrow> D a n = Inl err"
    "order \<in> orders \<Longrightarrow> findTarget order a n r = Inr (t, c) \<Longrightarrow> c = 0"
    "order \<in> orders \<Longrightarrow> findTarget order a n r = Inr (t, c) \<Longrightarrow>
      \<exists>k s. arrives_as mutate t k \<and> map_of (br_slaveMap b) k = Some (Some s) \<and> s \<notin> set (br_deleted b) \<and> D a n = Inr s"
    using w by simp_all
qed

lemma ids_fresh_response:
  assumes "ids_fresh ts mm k" "map_of mm i = Some md"
  shows "ids_fresh ts (AList.update i (md\<lparr>md_txns := AList.delete n (md_txns md)\<rparr>) mm) k"
  using assms by (auto simp: ids_fresh_def AList.update_conv' AList.delete_conv')

lemma completed_simps [simp]:
  "br_client (completed i md n f st mem b) = br_client b" "br_queue (completed i md n f st mem b) = br_queue b"
  "br_reader (completed i md n f st mem b) = br_reader b" "br_writer (completed i md n f st mem b) = br_writer b"
  "br_mem (completed i md n f st mem b) = mem" "br_world (completed i md n f st mem b) = br_world b"
  "br_futures (completed i md n f st mem b) = (br_futures b)[f := Ready st]"
  "br_slaveMap (completed i md n f st mem b) = br_slaveMap b" "br_deleted (completed i md n f st mem b) = br_deleted b"
  "br_masterMap (completed i md n f st mem b)
     = AList.update i (md\<lparr>md_txns := AList.delete n (md_txns md)\<rparr>) (br_masterMap b)"
  by (simp_all add: completed_def)

lemma machine_inv_other:
  assumes "machine_inv a" "ma_items a = it # is" "j \<in> set is"
  shows "item_future j \<noteq> item_future it"
proof -
  have "item_future it \<notin> item_future ` set is"
    using assms(1,2) by (simp add: machine_inv_def)
  with assms(3) show ?thesis by (metis imageI)
qed

text \<open>The first item is gone, or its answer has been pushed onto the queue.\<close>

definition reader_moves :: "'w bridge \<Rightarrow> 'w bridge \<Rightarrow> 'w machine \<Rightarrow> 'w machine \<Rightarrow> bool" where
  "reader_moves b b' a a' \<longleftrightarrow> br_writer b' = br_writer b
     \<and> (br_queue b' = br_queue b \<and> ma_items a' = tl (ma_items a)
      \<or> (\<exists>t. br_queue b' = q_push t (br_queue b)) \<and> length (ma_items a') = length (ma_items a)
          \<and> open_requests a = Suc (open_requests a'))"

text \<open>A response, also the refusal of a request: the first item of the machine is completed.\<close>

lemma sim_reader_response:
  assumes sim: "slaves_fill S" "machine_inv a"
      "wired L orders mutate D (t_router (sy_router s)) (sy_bridge s)" "at_work (sy_bridge s)"
      "ids_fresh (waiting (sy_bridge s)) (br_masterMap (sy_bridge s)) (length (br_futures (sy_bridge s)))"
      "same_user (sy_bridge s) a" "ma_items a = (it # is1) @ is2 @ is3"
      "exactly (c_in (br_client (sy_bridge s))) (map (lib_encode L) (m # ms))" "fabric (sy_router s) bwd fwd"
      "list_all2 (returning orders mutate (t_router (sy_router s)) (br_masterMap (sy_bridge s))) is1 (ms @ bwd)"
      "list_all2 (outgoing (br_masterMap (sy_bridge s))) is2 (fwd @ departing (br_writer (sy_bridge s)))"
      "list_all2 (queued (br_masterMap (sy_bridge s))) is3 (waiting (sy_bridge s))"
    and m: "comes_as m txn" "tells_of txn bytes st"
      "kept_for (br_masterMap (sy_bridge s)) (txn_initiator txn) (txn_id txn) p (item_future it)"
      "fits (ma_mem a) p (length bytes)"
    and next_: "machine_next S D a = Ret a'" "a' = a\<lparr>ma_items := is1 @ is2 @ is3, ma_mem := stored (ma_mem a) p bytes,
      ma_futures := (ma_futures a)[item_future it := Ready st]\<rparr>"
  shows "\<exists>b'. Bridge_reader L S (sy_bridge s) = Ret b' \<and> system_sim L S orders mutate D (s\<lparr>sy_bridge := b'\<rparr>) a'
    \<and> reader_moves (sy_bridge s) b' a a'"
proof -
  let ?b = "sy_bridge s" and ?f = "item_future it" and ?i = "txn_initiator txn" and ?n = "txn_id txn"
  have L: "codec L"
    using sim(3) by (rule wiredD(1))
  obtain k where k: "RouterClient_receiveTransaction L (br_client ?b) = Ret ((br_client ?b)\<lparr>c_in := k\<rparr>, Some txn, status_ok)"
    "exactly k (map (lib_encode L) ms)"
    using L sim(4) m(1) sim(8) by (rule receive_exactly)
  obtain md t where t: "map_of (br_masterMap ?b) ?i = Some md" "map_of (md_txns md) ?n = Some t"
    "tx_buffer t = p" "tx_promise t = Some ?f"
    using m(3) by (rule kept_forE)
  have user: "br_mem ?b = ma_mem a" "br_futures ?b = ma_futures a" "br_world ?b = ma_world a"
    using sim(6) by (simp_all add: same_user_def)
  have st: "st = (if txn_ok txn then status_ok else mk_status 1 (txn_message txn))"
    and bytes: "bytes = (if txn_type txn = READ_RESP \<and> txn_ok txn then txn_data txn else [])"
    using m(2) by (auto simp: tells_of_def)
  have mem: "(if txn_type txn = READ_RESP \<and> txn_ok txn then store_bytes (br_mem ?b) (tx_buffer t) (txn_data txn)
      else Ret (br_mem ?b)) = Ret (stored (ma_mem a) p bytes)"
    using store_fits [OF m(4)] bytes by (auto simp: t(3) user)
  define b' where "b' = completed ?i md ?n ?f st (stored (ma_mem a) p bytes) (?b\<lparr>br_client := (br_client ?b)\<lparr>c_in := k\<rparr>\<rparr>)"
  have r: "Bridge_reader L S ?b = Ret b'"
    unfolding b'_def st by (rule reader_completes [OF k(1) tells_of_message [OF m(2)] t(1,2,4) mem])
  have keeps: "keeps (item_future j) (br_masterMap ?b) (br_masterMap b')" if "j \<in> set (is1 @ is2 @ is3)" for j
  proof -
    have "item_future j \<noteq> ?f"
      using sim(2,7) that by (intro machine_inv_other [of a it "is1 @ is2 @ is3"]) simp_all
    then show ?thesis
      unfolding b'_def completed_simps using t(1,2,4) by (simp add: keeps_response)
  qed
  have same: "br_writer b' = br_writer ?b" "waiting b' = waiting ?b"
    "length (br_futures b') = length (br_futures ?b)" "c_in (br_client b') = k"
    by (simp_all add: b'_def waiting_def)
  have "machine_inv a'"
    using sim(7) by (intro machine_next_inv [OF sim(1,2) _ next_(1)]) simp
  moreover have "wired L orders mutate D (t_router (sy_router s)) b'"
    by (rule wired_cong [OF sim(3)]) (auto simp: b'_def AList.update_conv' t(1) split: if_splits)
  moreover have "ids_fresh (waiting b') (br_masterMap b') (length (br_futures b'))"
    unfolding same unfolding b'_def using ids_fresh_response [OF sim(5) t(1)] by simp
  moreover have "at_work b'"
    using sim(4) by (simp add: at_work_def b'_def)
  moreover have "same_user b' a'"
    by (simp add: same_user_def b'_def next_(2) user)
  moreover have "list_all2 (returning orders mutate (t_router (sy_router s)) (br_masterMap b')) is1 (ms @ bwd)"
    by (rule keeps_all(3) [OF keeps sim(10)]) simp
  moreover have "list_all2 (outgoing (br_masterMap b')) is2 (fwd @ departing (br_writer b'))"
    unfolding same by (rule keeps_all(2) [OF keeps sim(11)]) simp
  moreover have "list_all2 (queued (br_masterMap b')) is3 (waiting b')"
    unfolding same by (rule keeps_all(1) [OF keeps sim(12)]) simp
  ultimately have "system_sim L S orders mutate D (s\<lparr>sy_bridge := b'\<rparr>) a'"
    using sim(1,9) k(2) same(4)
    by (intro system_simI [where ?is1.0 = is1 and ?is2.0 = is2 and ?is3.0 = is3]) (simp_all add: next_(2))
  moreover have "reader_moves ?b b' a a'"
    using sim(7) by (simp add: reader_moves_def b'_def next_(2))
  ultimately show ?thesis
    using r by blast
qed

lemma is_request_response [simp]: "\<not> is_request \<lparr>tx_type = TRANSACTION, tx_buffer = None,
    tx_txn = response_to txn ret data, tx_promise = None\<rparr>"
  by (cases "txn_type txn = WRITE_REQ") (simp_all add: is_request_def response_to_def)

lemma handled_addressed [simp]: "handled S s (txn\<lparr>txn_id := n, txn_target := i\<rparr>) w = handled S s txn w"
  by (simp add: handled_def cong: if_cong)

lemma request_ok_addressed [simp]: "request_ok mem p (txn\<lparr>txn_id := n, txn_target := i\<rparr>) = request_ok mem p txn"
  by (simp add: request_ok_def)

text \<open>A request: it becomes an answer, at the end of the queue.\<close>

lemma sim_reader_request:
  assumes sim: "slaves_fill S" "machine_inv a"
      "wired L orders mutate D (t_router (sy_router s)) (sy_bridge s)" "at_work (sy_bridge s)"
      "ids_fresh (waiting (sy_bridge s)) (br_masterMap (sy_bridge s)) (length (br_futures (sy_bridge s)))"
      "same_user (sy_bridge s) a" "ma_items a = (Request p f txn # is1) @ is2 @ is3"
      "exactly (c_in (br_client (sy_bridge s))) (map (lib_encode L) (m # ms))" "fabric (sy_router s) bwd fwd"
      "list_all2 (returning orders mutate (t_router (sy_router s)) (br_masterMap (sy_bridge s))) is1 (ms @ bwd)"
      "list_all2 (outgoing (br_masterMap (sy_bridge s))) is2 (fwd @ departing (br_writer (sy_bridge s)))"
      "list_all2 (queued (br_masterMap (sy_bridge s))) is3 (waiting (sy_bridge s))"
    and target: "order \<in> orders" "findTarget order (txn_address txn) (txn_size txn) (t_router (sy_router s)) = Inr (i, c)"
      "arrives_as mutate i slave"
    and m: "comes_as m (txn\<lparr>txn_id := n, txn_target := slave\<rparr>)"
      "kept_for (br_masterMap (sy_bridge s)) (txn_initiator txn) n p f"
  shows "\<exists>b' a'. Bridge_reader L S (sy_bridge s) = Ret b' \<and> machine_next S D a = Ret a'
    \<and> system_sim L S orders mutate D (s\<lparr>sy_bridge := b'\<rparr>) a' \<and> reader_moves (sy_bridge s) b' a a'"
proof -
  let ?b = "sy_bridge s" and ?req = "txn\<lparr>txn_id := n, txn_target := slave\<rparr>"
  have L: "codec L"
    using sim(3) by (rule wiredD(1))
  obtain obj where o: "map_of (br_slaveMap ?b) slave = Some (Some obj)" "obj \<notin> set (br_deleted ?b)"
      "D (txn_address txn) (txn_size txn) = Inr obj"
    using wiredD(6) [OF sim(3) target(1,2)] arrives_as_unique [OF target(3)] by blast
  obtain k where k: "RouterClient_receiveTransaction L (br_client ?b) = Ret ((br_client ?b)\<lparr>c_in := k\<rparr>, Some ?req, status_ok)"
    "exactly k (map (lib_encode L) ms)"
    using L sim(4) m(1) sim(8) by (rule receive_exactly)
  have user: "br_mem ?b = ma_mem a" "br_futures ?b = ma_futures a" "br_world ?b = ma_world a"
    using sim(6) by (simp_all add: same_user_def)
  obtain ret data w where h: "handled S obj txn (ma_world a) = (ret, data, w)"
    by (rule prod_cases3)
  have ok: "request_ok (ma_mem a) p txn"
    using sim(2,7) by (simp add: machine_inv_def)
  then have ty: "txn_type ?req = READ_REQ \<or> txn_type ?req = WRITE_REQ"
    by (auto simp: request_ok_def)
  have h': "handled S obj ?req (br_world ?b) = (ret, data, w)"
    using h by (simp add: user)
  have ok': "txn_type ?req = READ_REQ \<longrightarrow> unat (txn_size ?req) \<le> vector_max_size \<and> length data = unat (txn_size ?req)"
    using ok handled_length(1) [OF sim(1) ok h] by (auto simp: request_ok_def)
  define t where "t = \<lparr>tx_type = TRANSACTION, tx_buffer = None, tx_txn = response_to ?req ret data, tx_promise = None\<rparr>"
  define b' where "b' = push_txn t (?b\<lparr>br_client := (br_client ?b)\<lparr>c_in := k\<rparr>, br_world := w\<rparr>)"
  define a' where "a' = a\<lparr>ma_items := is1 @ is2 @ is3 @ [Answer p f (result_bytes ret data) (result_status ret)], ma_world := w\<rparr>"
  have r: "Bridge_reader L S ?b = Ret b'"
    unfolding b'_def t_def by (rule reader_serves [OF k(1) ty _ o(2) h' ok']) (simp add: o(1))
  have next_: "machine_next S D a = Ret a'"
    by (simp add: machine_next_def sim(7) o(3) h a'_def)
  have "tells_of (response_to ?req ret data) (result_bytes ret data) (result_status ret)"
    using sim(1) _ h' by (rule tells_of_response_to [where mem = "ma_mem a" and p = p]) (simp add: ok)
  then have t: "queued (br_masterMap ?b) (Answer p f (result_bytes ret data) (result_status ret)) t"
    using m(2) by (simp add: t_def)
  have same: "br_writer b' = br_writer ?b" "waiting b' = waiting ?b @ [t]" "br_masterMap b' = br_masterMap ?b"
    "br_futures b' = br_futures ?b" "c_in (br_client b') = k" "\<not> is_request t"
    by (simp_all add: b'_def waiting_def t_def)
  have "machine_inv a'"
    using sim(7) by (intro machine_next_inv [OF sim(1,2) _ next_]) simp
  moreover have "wired L orders mutate D (t_router (sy_router s)) b'"
    by (rule wired_cong [OF sim(3)]) (auto simp: b'_def push_txn_def)
  moreover have "ids_fresh (waiting b') (br_masterMap b') (length (br_futures b'))"
    using sim(5) same(6) unfolding same by (simp add: ids_fresh_def)
  moreover have "at_work b'"
    using sim(4) by (simp add: at_work_def b'_def push_wakes_step(1)) (simp add: q_push_def)
  moreover have "same_user b' a'"
    by (simp add: same_user_def b'_def a'_def user push_txn_def)
  moreover have "list_all2 (queued (br_masterMap b')) (is3 @ [Answer p f (result_bytes ret data) (result_status ret)]) (waiting b')"
    unfolding same using sim(12) t by (intro list_all2_appendI) simp_all
  ultimately have "system_sim L S orders mutate D (s\<lparr>sy_bridge := b'\<rparr>) a'"
    using sim(1,9,10,11) k(2) same
    by (intro system_simI [where ?is1.0 = is1 and ?is2.0 = is2
        and ?is3.0 = "is3 @ [Answer p f (result_bytes ret data) (result_status ret)]"]) (simp_all add: a'_def)
  moreover have "reader_moves ?b b' a a'"
    using sim(7) by (simp add: reader_moves_def b'_def a'_def open_requests_def) blast
  ultimately show ?thesis
    using r next_ by blast
qed

lemma sim_reader:
  assumes sim: "system_sim L S orders mutate D s a" and "c_in (br_client (sy_bridge s)) \<noteq> []"
  obtains b' a' where "Bridge_reader L S (sy_bridge s) = Ret b'" "ma_items a \<noteq> []" "machine_next S D a = Ret a'"
    "system_sim L S orders mutate D (s\<lparr>sy_bridge := b'\<rparr>) a'" "reader_moves (sy_bridge s) b' a a'"
proof -
  let ?mm = "br_masterMap (sy_bridge s)" and ?r = "t_router (sy_router s)"
  obtain is1 is2 is3 ms bwd fwd where s: "slaves_fill S" "machine_inv a"
    "wired L orders mutate D ?r (sy_bridge s)" "at_work (sy_bridge s)"
    "ids_fresh (waiting (sy_bridge s)) ?mm (length (br_futures (sy_bridge s)))"
    "same_user (sy_bridge s) a" "ma_items a = is1 @ is2 @ is3"
    "exactly (c_in (br_client (sy_bridge s))) (map (lib_encode L) ms)" "fabric (sy_router s) bwd fwd"
    "list_all2 (returning orders mutate ?r ?mm) is1 (ms @ bwd)"
    "list_all2 (outgoing ?mm) is2 (fwd @ departing (br_writer (sy_bridge s)))"
    "list_all2 (queued ?mm) is3 (waiting (sy_bridge s))"
    using sim by (rule system_simE)
  obtain m ms' where ms: "ms = m # ms'"
    using s(8) assms(2) by (cases ms) auto
  obtain it is1' where is1: "is1 = it # is1'" "returning orders mutate ?r ?mm it m"
      "list_all2 (returning orders mutate ?r ?mm) is1' (ms' @ bwd)"
    using s(10) by (auto simp: ms list_all2_Cons2)
  note respond = sim_reader_response [OF s(1-6) s(7) [unfolded is1(1)] s(8) [unfolded ms] s(9) is1(3) s(11,12)]
  have "\<exists>b' a'. Bridge_reader L S (sy_bridge s) = Ret b' \<and> machine_next S D a = Ret a'
      \<and> system_sim L S orders mutate D (s\<lparr>sy_bridge := b'\<rparr>) a' \<and> reader_moves (sy_bridge s) b' a a'"
  proof (cases it)
    case (Answer p f bytes st)
    obtain resp ty where m: "wire_of_TransactionType (txn_type resp) = Some ty" "m = Transaction_message resp ty"
        "tells_of resp bytes st" "kept_for ?mm (txn_initiator resp) (txn_id resp) p f"
      using is1(2) Answer by auto
    have fits: "fits (ma_mem a) p (length bytes)"
      using s(2,7) is1(1) Answer by (simp add: machine_inv_def)
    have comes: "comes_as m resp"
      using m(1) unfolding m(2) by (rule comes_as_Transaction_message)
    have kept_for: "kept_for ?mm (txn_initiator resp) (txn_id resp) p (item_future it)"
      using m(4) by (simp add: Answer)
    have next_: "machine_next S D a = Ret (a\<lparr>ma_items := is1' @ is2 @ is3, ma_mem := stored (ma_mem a) p bytes,
        ma_futures := (ma_futures a)[item_future it := Ready st]\<rparr>)"
      unfolding Answer item.sel by (rule machine_next_Answer [OF s(2)]) (simp add: s(7) is1(1) Answer)
    from respond [OF comes m(3) kept_for fits next_ refl] next_ show ?thesis by blast
  next
    case (Request p f txn)
    obtain n ty where m: "wire_of_TransactionType (txn_type txn) = Some ty" "kept_for ?mm (txn_initiator txn) n p f"
      and target: "\<exists>order \<in> orders. case findTarget order (txn_address txn) (txn_size txn) ?r of
           Inl err \<Rightarrow> m = createErrorTxn (txn_initiator txn) n ty err
         | Inr (i, c) \<Rightarrow> \<exists>k. arrives_as mutate i k \<and> m = Transaction_message (txn\<lparr>txn_id := n, txn_target := k\<rparr>) ty"
      using is1(2) Request by auto
    obtain order where order: "order \<in> orders" "case findTarget order (txn_address txn) (txn_size txn) ?r of
           Inl err \<Rightarrow> m = createErrorTxn (txn_initiator txn) n ty err
         | Inr (i, c) \<Rightarrow> \<exists>k. arrives_as mutate i k \<and> m = Transaction_message (txn\<lparr>txn_id := n, txn_target := k\<rparr>) ty"
      using target by blast
    have ty: "txn_type txn = READ_REQ \<or> txn_type txn = WRITE_REQ"
      using s(2,7) is1(1) Request by (auto simp: machine_inv_def request_ok_def)
    show ?thesis
    proof (cases "findTarget order (txn_address txn) (txn_size txn) ?r")
      case (Inl err)
      let ?resp = "refusal (txn_initiator txn) n (if txn_type txn = READ_REQ then READ_RESP else WRITE_RESP) err"
      have comes: "comes_as m ?resp"
        using comes_as_createErrorTxn [OF m(1) ty] order(2) Inl by simp
      have tells_of: "tells_of ?resp [] (mk_status 1 err)" and fits: "fits (ma_mem a) p (length ([] :: u8 list))"
        by (simp_all add: tells_of_def refusal_def fits_def mk_status_def)
      have kept_for: "kept_for ?mm (txn_initiator ?resp) (txn_id ?resp) p (item_future it)"
        using m(2) by (simp add: refusal_def Request)
      have "D (txn_address txn) (txn_size txn) = Inl err"
        using s(3) order(1) Inl by (rule wiredD(4))
      then have next_: "machine_next S D a = Ret (a\<lparr>ma_items := is1' @ is2 @ is3, ma_mem := stored (ma_mem a) p [],
          ma_futures := (ma_futures a)[item_future it := Ready (mk_status 1 err)]\<rparr>)"
        by (simp add: machine_next_def s(7) is1(1) Request)
      from respond [OF comes tells_of kept_for fits next_ refl] next_ show ?thesis by blast
    next
      case (Inr tc)
      obtain i c where tc: "tc = (i, c)" by fastforce
      obtain slave where slave: "arrives_as mutate i slave" "m = Transaction_message (txn\<lparr>txn_id := n, txn_target := slave\<rparr>) ty"
        using order(2) Inr tc by auto
      then have "comes_as m (txn\<lparr>txn_id := n, txn_target := slave\<rparr>)"
        using m(1) by (simp add: comes_as_Transaction_message)
      from sim_reader_request [OF s(1-6) s(7) [unfolded is1(1) Request] s(8) [unfolded ms] s(9) is1(3) s(11,12)
          order(1) Inr [unfolded tc] slave(1) this m(2)]
      show ?thesis .
    qed
  qed
  moreover have "ma_items a \<noteq> []"
    using s(7) is1(1) by simp
  ultimately show ?thesis
    using that by blast
qed

subsection \<open>The writer\<close>

text \<open>
  A step of the writer of a bridge at work: what the bridge becomes, and what it has sent. The machine does
  not move.
\<close>

definition writer_sim where
  "writer_sim L S orders mutate D s a \<longleftrightarrow> (\<exists>b'. Bridge_writer L (sy_bridge s) = Ret b'
     \<and> (wr_sent (c_out (br_client b')) = wr_sent (c_out (br_client (sy_bridge s)))
          \<and> bridge_tokens b' = bridge_tokens (sy_bridge s)
          \<and> (\<not> writer_waits (sy_bridge s) \<longrightarrow> bridge_work b' < bridge_work (sy_bridge s))
          \<and> system_sim L S orders mutate D (s\<lparr>sy_bridge := b'\<rparr>) a
        \<or> (\<exists>m. wr_sent (c_out (br_client b')) = wr_sent (c_out (br_client (sy_bridge s))) @ frame (lib_encode L m)
          \<and> Suc (bridge_tokens b') = bridge_tokens (sy_bridge s)
          \<and> bridge_work b' + 24 = bridge_work (sy_bridge s)
          \<and> system_sim L S orders mutate D (s\<lparr>sy_bridge := b', sy_router := arrive m (sy_router s)\<rparr>) a)))"

lemma q_pop_works:
  assumes "\<not> q_done q" "q_pop q = (r, q')"
  shows "\<not> q_done q'" "r \<noteq> Finished"
  using assms by (auto simp: q_pop_def q_take_def split: popper.splits list.splits)

lemma q_pop_popper:
  shows "q_pop q = (Got t, q') \<Longrightarrow> q_notify q' = q_notify q \<and> q_popper q' = Outside \<and> q_popper q \<noteq> Waiting"
    and "q_pop q = (Blocked, q') \<Longrightarrow> q_notify q' = q_notify q \<and> q_popper q' = Waiting"
  by (auto simp: q_pop_def q_take_def split: popper.splits list.splits if_splits)

lemma sim_bridge_only:
  assumes sim: "system_sim L S orders mutate D s a" and w: "at_work b'"
    and same: "br_masterMap b' = br_masterMap (sy_bridge s)" "br_slaveMap b' = br_slaveMap (sy_bridge s)"
      "br_deleted b' = br_deleted (sy_bridge s)" "c_in (br_client b') = c_in (br_client (sy_bridge s))"
      "br_mem b' = br_mem (sy_bridge s)" "br_futures b' = br_futures (sy_bridge s)"
      "br_world b' = br_world (sy_bridge s)" "waiting b' = waiting (sy_bridge s)"
      "departing (br_writer b') = departing (br_writer (sy_bridge s))"
  shows "system_sim L S orders mutate D (s\<lparr>sy_bridge := b'\<rparr>) a"
proof -
  obtain is1 is2 is3 ms bwd fwd where s: "slaves_fill S" "machine_inv a"
    "wired L orders mutate D (t_router (sy_router s)) (sy_bridge s)" "at_work (sy_bridge s)"
    "ids_fresh (waiting (sy_bridge s)) (br_masterMap (sy_bridge s)) (length (br_futures (sy_bridge s)))"
    "same_user (sy_bridge s) a" "ma_items a = is1 @ is2 @ is3"
    "exactly (c_in (br_client (sy_bridge s))) (map (lib_encode L) ms)" "fabric (sy_router s) bwd fwd"
    "list_all2 (returning orders mutate (t_router (sy_router s)) (br_masterMap (sy_bridge s))) is1 (ms @ bwd)"
    "list_all2 (outgoing (br_masterMap (sy_bridge s))) is2 (fwd @ departing (br_writer (sy_bridge s)))"
    "list_all2 (queued (br_masterMap (sy_bridge s))) is3 (waiting (sy_bridge s))"
    using sim by (rule system_simE)
  have "wired L orders mutate D (t_router (sy_router s)) b'"
    by (rule wired_cong [OF s(3)]) (simp_all add: same)
  moreover have "same_user b' a"
    using s(6) by (simp add: same_user_def same)
  ultimately show ?thesis
    using s(1,2,5,7-12) w by (intro system_simI [where ?is1.0 = is1 and ?is2.0 = is2 and ?is3.0 = is3])
      (simp_all add: same)
qed

lemma sim_writer_pop:
  assumes sim: "system_sim L S orders mutate D s a" and w: "br_writer (sy_bridge s) = Writer_Pop"
  shows "writer_sim L S orders mutate D s a"
proof -
  let ?b = "sy_bridge s"
  obtain r q where q: "q_pop (br_queue ?b) = (r, q)" by fastforce
  have b: "at_work ?b"
    using sim by (simp add: system_sim_def)
  then have d: "\<not> q_done q" "r \<noteq> Finished" and wakes: "push_wakes q"
    using q_pop_works [OF _ q] push_wakes_step(3) [of "br_queue ?b"] q by (simp_all add: at_work_def)
  show ?thesis
  proof (cases r)
    case Blocked
    have "system_sim L S orders mutate D (s\<lparr>sy_bridge := ?b\<lparr>br_queue := q\<rparr>\<rparr>) a"
      using b d(1) wakes q_pop_items(2) [OF q [unfolded Blocked]] w
      by (intro sim_bridge_only [OF sim]) (simp_all add: at_work_def waiting_def)
    then show ?thesis
      using q_pop_items(2) [OF q [unfolded Blocked]] q_pop_popper(2) [OF q [unfolded Blocked]]
      by (simp add: writer_sim_def Bridge_writer_def w q Blocked bridge_tokens_def waiting_def bridge_work_def
          writer_waits_def)
  next
    case (Got t)
    have "system_sim L S orders mutate D (s\<lparr>sy_bridge := ?b\<lparr>br_queue := q, br_writer := Writer_Popped t\<rparr>\<rparr>) a"
      using b d(1) wakes q_pop_items(1) [OF q [unfolded Got]] w
      by (intro sim_bridge_only [OF sim]) (simp_all add: at_work_def waiting_def writer_works_def departing_def)
    then show ?thesis
      using q_pop_items(1) [OF q [unfolded Got]] q_pop_popper(1) [OF q [unfolded Got]]
      by (simp add: writer_sim_def Bridge_writer_def w q Got bridge_tokens_def waiting_def bridge_work_def departing_def)
  qed (use d in simp)
qed

lemma ids_fresh_assign:
  assumes fresh: "ids_fresh (t # ts) mm k" "is_request t" and md: "map_of mm i = Some md"
  shows "map_of (md_txns md) (md_lastTxnId md) = None"
    and "ids_fresh ts (AList.update i (md\<lparr>md_lastTxnId := md_lastTxnId md + 1,
      md_txns := AList.update (md_lastTxnId md) t' (md_txns md)\<rparr>) mm) k"
proof -
  let ?n = "md_lastTxnId md"
  have n: "unat ?n + Suc (length (filter is_request ts)) \<le> k" "k < 2 ^ 64"
    and below: "\<And>x. map_of (md_txns md) x \<noteq> None \<Longrightarrow> x < ?n"
    using fresh md by (simp_all add: ids_fresh_def)
  have suc: "unat (?n + 1) = Suc (unat ?n)"
    using n by (simp add: unat_word_ariths)
  show "map_of (md_txns md) ?n = None"
    using below by blast
  have "x < ?n + 1" if "x = ?n \<or> x < ?n" for x
    using that suc by (auto simp: word_less_nat_alt)
  moreover have "unat (md_lastTxnId md') + length (filter is_request ts) \<le> k
      \<and> (\<forall>n. map_of (md_txns md') n \<noteq> None \<longrightarrow> n < md_lastTxnId md')" if "map_of mm j = Some md'" for j md'
    using fresh that by (simp add: ids_fresh_def) (metis Suc_leD)
  ultimately show "ids_fresh ts (AList.update i (md\<lparr>md_lastTxnId := ?n + 1,
      md_txns := AList.update ?n t' (md_txns md)\<rparr>) mm) k"
    using below n suc unfolding ids_fresh_def by (auto simp: AList.update_conv')
qed

lemma sim_writer_popped:
  assumes sim: "system_sim L S orders mutate D s a" and w: "br_writer (sy_bridge s) = Writer_Popped t"
  shows "writer_sim L S orders mutate D s a"
proof -
  let ?b = "sy_bridge s" and ?r = "t_router (sy_router s)"
  let ?mm = "br_masterMap ?b"
  obtain is1 is2 is3 ms bwd fwd where s: "slaves_fill S" "machine_inv a"
    "wired L orders mutate D ?r ?b" "at_work ?b"
    "ids_fresh (waiting ?b) ?mm (length (br_futures ?b))"
    "same_user ?b a" "ma_items a = is1 @ is2 @ is3"
    "exactly (c_in (br_client ?b)) (map (lib_encode L) ms)" "fabric (sy_router s) bwd fwd"
    "list_all2 (returning orders mutate ?r ?mm) is1 (ms @ bwd)"
    "list_all2 (outgoing ?mm) is2 (fwd @ departing (br_writer ?b))"
    "list_all2 (queued ?mm) is3 (waiting ?b)"
    using sim by (rule system_simE)
  obtain it is3' where is3: "is3 = it # is3'" "queued ?mm it t" "list_all2 (queued ?mm) is3' (q_items (br_queue ?b))"
    using s(12) by (auto simp: waiting_def w list_all2_Cons2)
  show ?thesis
  proof (cases it)
    case (Request p f txn)
    have t: "t = \<lparr>tx_type = TRANSACTION, tx_buffer = p, tx_txn = txn, tx_promise = Some f\<rparr>" "txn_target txn = 0"
      using is3(2) Request by simp_all
    obtain md where md: "map_of ?mm (txn_initiator txn) = Some md"
      using is3(2) Request by auto
    have "request_ok (ma_mem a) p txn"
      using s(2,7) is3(1) Request by (simp add: machine_inv_def)
    then have ty: "txn_type txn = READ_REQ \<or> txn_type txn = WRITE_REQ"
      by (auto simp: request_ok_def)
    then obtain ty where ty': "wire_of_TransactionType (txn_type txn) = Some ty" by auto
    have req: "is_request t"
      using ty by (simp add: is_request_def t)
    let ?n = "md_lastTxnId md" and ?i = "txn_initiator txn"
    let ?t = "t\<lparr>tx_txn := txn\<lparr>txn_id := ?n\<rparr>\<rparr>"
    let ?mm' = "AList.update ?i (md\<lparr>md_lastTxnId := ?n + 1, md_txns := AList.update ?n ?t (md_txns md)\<rparr>) ?mm"
    have fresh: "ids_fresh (t # q_items (br_queue ?b)) ?mm (length (br_futures ?b))"
      using s(5) by (simp add: waiting_def w)
    note id = ids_fresh_assign(1) [OF fresh req md] ids_fresh_assign(2) [OF fresh req md, of ?t]
    define b' where "b' = ?b\<lparr>br_masterMap := ?mm', br_writer := Writer_Send (txn\<lparr>txn_id := ?n\<rparr>) (Some (?i, ?n))\<rparr>"
    have writer: "Bridge_writer L ?b = Ret b'"
      using ty md id(1) by (auto simp: Bridge_writer_def w t b'_def assign_id_def Let_def masterMap_at_def set_masterMap_def)
    have keeps: "keeps g ?mm ?mm'" for g
      using md id(1) by (rule keeps_assign)
    have it: "outgoing ?mm' it (Transaction_message (txn\<lparr>txn_id := ?n\<rparr>) ty)"
      using ty' t(2) by (auto simp: Request kept_for_def entry_update AList.update_conv' t(1))
    have dep: "departing (br_writer ?b) = []" "departing (br_writer b') = [Transaction_message (txn\<lparr>txn_id := ?n\<rparr>) ty]"
      using ty' by (simp_all add: departing_def w b'_def)
    have wait: "waiting b' = q_items (br_queue ?b)"
      by (simp add: waiting_def b'_def)
    have "wired L orders mutate D ?r b'"
      by (rule wired_cong [OF s(3)]) (auto simp: b'_def AList.update_conv' md split: if_splits)
    moreover have "at_work b'"
      using s(4) ty' by (simp add: at_work_def b'_def writer_works_def)
    moreover have "ids_fresh (waiting b') (br_masterMap b') (length (br_futures b'))"
      unfolding wait using id(2) by (simp add: b'_def)
    moreover have "list_all2 (outgoing (br_masterMap b')) (is2 @ [it]) (fwd @ departing (br_writer b'))"
      using keeps_all(2) [OF keeps s(11)] it unfolding dep by (simp add: b'_def list_all2_appendI)
    moreover have "list_all2 (returning orders mutate ?r (br_masterMap b')) is1 (ms @ bwd)"
      using keeps_all(3) [OF keeps s(10)] by (simp add: b'_def)
    moreover have "list_all2 (queued (br_masterMap b')) is3' (waiting b')"
      unfolding wait using keeps_all(1) [OF keeps is3(3)] by (simp add: b'_def)
    ultimately have "system_sim L S orders mutate D (s\<lparr>sy_bridge := b'\<rparr>) a"
      using s(1,2,6-9) is3(1) by (intro system_simI [where ?is1.0 = is1 and ?is2.0 = "is2 @ [it]" and ?is3.0 = is3'])
        (simp_all add: same_user_def b'_def)
    then show ?thesis
      using writer by (simp add: writer_sim_def b'_def bridge_tokens_def bridge_work_def waiting_def w
          departing_def ty')
  next
    case (Answer p f bytes st)
    have t: "tx_type t = TRANSACTION" "tx_promise t = None" "tells_of (tx_txn t) bytes st"
        "kept_for ?mm (txn_initiator (tx_txn t)) (txn_id (tx_txn t)) p f"
      using is3(2) Answer by simp_all
    have ty: "txn_type (tx_txn t) = READ_RESP \<or> txn_type (tx_txn t) = WRITE_RESP"
      using t(3) by (rule tells_of_message)
    then obtain ty where ty': "wire_of_TransactionType (txn_type (tx_txn t)) = Some ty" by auto
    have noreq: "\<not> is_request t"
      using ty by (auto simp: is_request_def)
    define b' where "b' = ?b\<lparr>br_writer := Writer_Send (tx_txn t) None\<rparr>"
    have writer: "Bridge_writer L ?b = Ret b'"
      using ty by (auto simp: Bridge_writer_def w t(1) b'_def)
    have it: "outgoing ?mm it (Transaction_message (tx_txn t) ty)"
      using ty' t(3,4) by (auto simp: Answer)
    have dep: "departing (br_writer ?b) = []" "departing (br_writer b') = [Transaction_message (tx_txn t) ty]"
      using ty' by (simp_all add: departing_def w b'_def)
    have wait: "waiting b' = q_items (br_queue ?b)" "waiting ?b = t # q_items (br_queue ?b)"
      by (simp_all add: waiting_def b'_def w)
    have "wired L orders mutate D ?r b'"
      by (rule wired_cong [OF s(3)]) (simp_all add: b'_def)
    moreover have "at_work b'"
      using s(4) ty' by (simp add: at_work_def b'_def writer_works_def)
    moreover have "ids_fresh (waiting b') (br_masterMap b') (length (br_futures b'))"
      using s(5) noreq unfolding wait by (simp add: b'_def ids_fresh_def)
    moreover have "list_all2 (outgoing (br_masterMap b')) (is2 @ [it]) (fwd @ departing (br_writer b'))"
      using s(11) it unfolding dep by (simp add: b'_def list_all2_appendI)
    moreover have "list_all2 (queued (br_masterMap b')) is3' (waiting b')"
      unfolding wait using is3(3) by (simp add: b'_def)
    ultimately have "system_sim L S orders mutate D (s\<lparr>sy_bridge := b'\<rparr>) a"
      using s(1,2,6-10) is3(1) by (intro system_simI [where ?is1.0 = is1 and ?is2.0 = "is2 @ [it]" and ?is3.0 = is3'])
        (simp_all add: same_user_def b'_def)
    then show ?thesis
      using writer by (simp add: writer_sim_def b'_def bridge_tokens_def bridge_work_def waiting_def w
          departing_def ty')
  qed
qed

lemma outgoing_entry:
  assumes "outgoing mm it (Transaction_message txn ty)"
  shows "entry mm (txn_initiator txn) (txn_id txn) \<noteq> None"
proof (cases it)
  case (Request p f txn')
  then show ?thesis
    using assms by (auto simp: Transaction_message_def new_Message_def kept_for_def)
next
  case (Answer p f bytes st)
  then show ?thesis
    using assms by (auto simp: Transaction_message_def new_Message_def kept_for_def)
qed

lemma sim_writer_send:
  assumes sim: "system_sim L S orders mutate D s a" and w: "br_writer (sy_bridge s) = Writer_Send txn key"
  shows "writer_sim L S orders mutate D s a"
proof -
  let ?b = "sy_bridge s" and ?r = "t_router (sy_router s)"
  let ?mm = "br_masterMap ?b"
  obtain is1 is2 is3 ms bwd fwd where s: "slaves_fill S" "machine_inv a"
    "wired L orders mutate D ?r ?b" "at_work ?b"
    "ids_fresh (waiting ?b) ?mm (length (br_futures ?b))"
    "same_user ?b a" "ma_items a = is1 @ is2 @ is3"
    "exactly (c_in (br_client ?b)) (map (lib_encode L) ms)" "fabric (sy_router s) bwd fwd"
    "list_all2 (returning orders mutate ?r ?mm) is1 (ms @ bwd)"
    "list_all2 (outgoing ?mm) is2 (fwd @ departing (br_writer ?b))"
    "list_all2 (queued ?mm) is3 (waiting ?b)"
    using sim by (rule system_simE)
  obtain ty where ty: "wire_of_TransactionType (txn_type txn) = Some ty"
    and key: "key = None \<or> key = Some (txn_initiator txn, txn_id txn)"
    using s(4) by (auto simp: at_work_def writer_works_def w)
  let ?m = "Transaction_message txn ty"
  have dep: "departing (br_writer ?b) = [?m]"
    by (simp add: departing_def w ty)
  then obtain it where "outgoing ?mm it ?m"
    using s(11) by (auto simp: list_all2_append2 list_all2_Cons2)
  then have "entry ?mm (txn_initiator txn) (txn_id txn) \<noteq> None"
    by (rule outgoing_entry)
  then have alive: "\<not> (case key of None \<Rightarrow> False | Some (i, n) \<Rightarrow> map_of (md_txns (masterMap_at i ?b)) n = None)"
    using key by (auto simp: entry_def masterMap_at_def split: option.splits)
  have send: "RouterClient_sendTransaction L txn (br_client ?b) = (sent_on L ?m (br_client ?b), status_ok)"
    using s(4) ty by (simp add: at_work_def RouterClient_sendTransaction_def client_write_accepting sent_on_def)
  define b' where "b' = ?b\<lparr>br_client := sent_on L ?m (br_client ?b), br_writer := Writer_Pop\<rparr>"
  have writer: "Bridge_writer L ?b = Ret b'"
    using alive by (simp add: Bridge_writer_def w writer_send_def send b'_def Let_def)
  have same: "waiting b' = waiting ?b" "departing (br_writer b') = []" "c_in (br_client b') = c_in (br_client ?b)"
    by (simp_all add: b'_def waiting_def w departing_def sent_on_def)
  have "wired L orders mutate D ?r b'"
    by (rule wired_cong [OF s(3)]) (simp_all add: b'_def)
  moreover have "at_work b'"
    using s(4) by (simp add: at_work_def b'_def writer_works_def)
  moreover have "fabric (arrive ?m (sy_router s)) bwd (fwd @ [?m])"
    using s(9) by (rule fabric_arrive)
  ultimately have "system_sim L S orders mutate D (s\<lparr>sy_bridge := b', sy_router := arrive ?m (sy_router s)\<rparr>) a"
    using s(1,2,5-8,10-12) dep same
    by (intro system_simI [where ?is1.0 = is1 and ?is2.0 = is2 and ?is3.0 = is3])
      (simp_all add: same_user_def b'_def)
  then show ?thesis
    using writer unfolding writer_sim_def
    by (intro exI [of _ b'] conjI disjI2 exI [of _ ?m]) (simp_all add: b'_def bridge_tokens_def bridge_work_def waiting_def w departing_def ty)
qed

lemma sim_writer:
  assumes sim: "system_sim L S orders mutate D s a"
  shows "writer_sim L S orders mutate D s a"
proof -
  have "writer_works (br_writer (sy_bridge s))"
    using sim by (simp add: system_sim_def at_work_def)
  then show ?thesis
    using sim_writer_pop [OF sim] sim_writer_popped [OF sim] sim_writer_send [OF sim]
    by (cases "br_writer (sy_bridge s)") (simp_all add: writer_works_def)
qed

subsection \<open>The router\<close>

text \<open>Every message on its way to the routing loop is routed to the one client there is.\<close>

lemma outgoing_routes:
  assumes wired: "wired L orders mutate D r b" and out: "outgoing (br_masterMap b) it m" and ok: "item_ok mem it"
    and order: "order \<in> orders"
  shows "wm_type m \<noteq> Type_DONE"
    and "\<exists>m'. route order mutate m r = Ret (r, [(0, m')], True) \<and> returning orders mutate r (br_masterMap b) it m'"
proof -
  show "wm_type m \<noteq> Type_DONE"
    using out by (cases it) (auto simp: Transaction_message_def Type_defs)
  have one: "length (r_clients r) = 1"
    using wired by (rule wiredD(2))
  have registered: "unat i < length (r_ips r)" "ii_client (r_ips r ! unat i) = 0" if "kept_for (br_masterMap b) i n p f" for i n p f
    using that wiredD(3) [OF wired, of i] by (auto elim: kept_forE)
  show "\<exists>m'. route order mutate m r = Ret (r, [(0, m')], True) \<and> returning orders mutate r (br_masterMap b) it m'"
  proof (cases it)
    case (Request p f txn)
    obtain n ty where m: "wire_of_TransactionType (txn_type txn) = Some ty" "m = Transaction_message (txn\<lparr>txn_id := n\<rparr>) ty"
        "txn_target txn = 0" "kept_for (br_masterMap b) (txn_initiator txn) n p f"
      using out Request by auto
    have ty: "txn_type txn = READ_REQ \<or> txn_type txn = WRITE_REQ"
      using ok by (auto simp: Request request_ok_def)
    show ?thesis
    proof (cases "findTarget order (txn_address txn) (txn_size txn) r")
      case (Inl err)
      have "ty = 0 \<or> ty = 1"
        using m(1) ty by auto
      then have "route order mutate m r = Ret (r, [(0, createErrorTxn (txn_initiator txn) n ty err)], True)"
        using Inl registered [OF m(4)] one by (auto simp: route_def m(2) Transaction_message_def new_Message_def
            client_of_ip_def go_index_def)
      moreover have "returning orders mutate r (br_masterMap b) it (createErrorTxn (txn_initiator txn) n ty err)"
        using m(1,4) order Inl by (auto simp: Request intro!: bexI [of _ order])
      ultimately show ?thesis
        by blast
    next
      case (Inr tc)
      obtain i c where tc: "tc = (i, c)" by fastforce
      have c: "c = 0"
        using wired order Inr unfolding tc by (rule wiredD(5))
      obtain slave where slave: "arrives_as mutate i slave"
        using wiredD(6) [OF wired order Inr [unfolded tc]] by blast
      have "route order mutate (Transaction_message (txn\<lparr>txn_id := n\<rparr>) ty) r
          = Ret (r, [(c, Transaction_message (txn\<lparr>txn_id := n, txn_target := slave\<rparr>) ty)], True)"
      proof (rule route_request)
        show "\<forall>w. wm_txn (Transaction_message (txn\<lparr>txn_id := n\<rparr>) ty) = Some w \<longrightarrow> mutate i w = w\<lparr>wt_target := slave\<rparr>"
          using slave m(3) by (simp add: Transaction_message_def arrives_as_def)
      qed (use m(1) ty Inr one in \<open>simp_all add: tc c\<close>)
      moreover have "returning orders mutate r (br_masterMap b) it
          (Transaction_message (txn\<lparr>txn_id := n, txn_target := slave\<rparr>) ty)"
        unfolding Request returning.simps
        by (rule exI [of _ n], rule exI [of _ ty], intro conjI m(1,4), rule bexI [OF _ order])
          (use Inr slave in \<open>auto simp: tc\<close>)
      ultimately show ?thesis
        by (auto simp: m(2) c)
    qed
  next
    case (Answer p f bytes st)
    obtain resp ty where m: "wire_of_TransactionType (txn_type resp) = Some ty" "m = Transaction_message resp ty"
        "tells_of resp bytes st" "kept_for (br_masterMap b) (txn_initiator resp) (txn_id resp) p f"
      using out Answer by auto
    have "route order mutate m r = Ret (r, [(0, m)], True)"
      using route_response [OF m(1) tells_of_message [OF m(3)], of r order mutate] registered [OF m(4)] one m(2) by simp
    then show ?thesis
      using out by (auto simp: Answer)
  qed
qed

lemma returning_not_DONE: "returning orders mutate r mm it m \<Longrightarrow> wm_type m \<noteq> Type_DONE"
proof (cases it)
  case (Request p f txn)
  assume "returning orders mutate r mm it m"
  then obtain n ty order where "case findTarget order (txn_address txn) (txn_size txn) r of
      Inl err \<Rightarrow> m = createErrorTxn (txn_initiator txn) n ty err
    | Inr (i, c) \<Rightarrow> \<exists>k. arrives_as mutate i k \<and> m = Transaction_message (txn\<lparr>txn_id := n, txn_target := k\<rparr>) ty"
    by (auto simp: Request)
  then show ?thesis
    by (auto simp: Transaction_message_def createErrorTxn_def Type_defs split: sum.splits prod.splits)
qed (auto simp: Transaction_message_def Type_defs)

text \<open>The messages inside the router, with the items they stand for.\<close>

lemma sim_fabric:
  assumes "machine_inv a" "wired L orders mutate D (t_router (sy_router s)) (sy_bridge s)"
    and "ma_items a = is1 @ is2 @ is3"
    and "list_all2 (returning orders mutate (t_router (sy_router s)) (br_masterMap (sy_bridge s))) is1 (ms @ bwd)"
    and "list_all2 (outgoing (br_masterMap (sy_bridge s))) is2 (fwd @ departing (br_writer (sy_bridge s)))"
  shows "\<forall>m \<in> set fwd. wm_type m \<noteq> Type_DONE"
    and "\<forall>m \<in> set fwd. \<forall>order \<in> orders. \<exists>m'. route order mutate m (t_router (sy_router s)) = Ret (t_router (sy_router s), [(0, m')], True)"
    and "\<forall>m \<in> set bwd. wm_type m \<noteq> Type_DONE"
proof -
  have "\<exists>it. outgoing (br_masterMap (sy_bridge s)) it m \<and> item_ok (ma_mem a) it" if m: "m \<in> set fwd" for m
  proof -
    obtain i where i: "i < length fwd" "m = fwd ! i"
      using m by (auto simp: in_set_conv_nth)
    then have "i < length is2" "outgoing (br_masterMap (sy_bridge s)) (is2 ! i) m"
      using list_all2_nthD2 [OF assms(5), of i] list_all2_lengthD [OF assms(5)] by (simp_all add: nth_append)
    then show ?thesis
      using assms(1,3) by (intro exI [of _ "is2 ! i"]) (simp add: machine_inv_def)
  qed
  then show "\<forall>m \<in> set fwd. wm_type m \<noteq> Type_DONE"
    "\<forall>m \<in> set fwd. \<forall>order \<in> orders. \<exists>m'. route order mutate m (t_router (sy_router s)) = Ret (t_router (sy_router s), [(0, m')], True)"
    using outgoing_routes [OF assms(2)] wiredD(7) [OF assms(2)] by blast+
  show "\<forall>m \<in> set bwd. wm_type m \<noteq> Type_DONE"
  proof
    fix m
    assume "m \<in> set bwd"
    then have "m \<in> set (ms @ bwd)"
      by simp
    then obtain i where "i < length (ms @ bwd)" "m = (ms @ bwd) ! i"
      unfolding in_set_conv_nth by blast
    then show "wm_type m \<noteq> Type_DONE"
      using list_all2_nthD2 [OF assms(4), of i] returning_not_DONE by metis
  qed
qed

lemma sim_router:
  assumes sim: "system_sim L S orders mutate D s a" and step: "go_step orders mutate (sy_router s) r" "\<not> t_exited r"
  shows "t_out r = t_out (sy_router s) \<and> system_sim L S orders mutate D (s\<lparr>sy_router := r\<rparr>) a
      \<and> router_tokens r = router_tokens (sy_router s) \<and> router_work r < router_work (sy_router s)
    \<or> (\<exists>m. t_out r = (t_out (sy_router s))[0 := t_out (sy_router s) ! 0 @ [m]]
        \<and> Suc (router_tokens r) = router_tokens (sy_router s) \<and> router_work r + 8 = router_work (sy_router s)
        \<and> (\<forall>es. delivered es (lib_encode L m) \<longrightarrow>
             system_sim L S orders mutate D (s\<lparr>sy_bridge := receive_events es (sy_bridge s), sy_router := r\<rparr>) a))"
proof -
  let ?b = "sy_bridge s" and ?r = "t_router (sy_router s)"
  let ?mm = "br_masterMap ?b"
  obtain is1 is2 is3 ms bwd fwd where s: "slaves_fill S" "machine_inv a"
    "wired L orders mutate D ?r ?b" "at_work ?b"
    "ids_fresh (waiting ?b) ?mm (length (br_futures ?b))"
    "same_user ?b a" "ma_items a = is1 @ is2 @ is3"
    "exactly (c_in (br_client ?b)) (map (lib_encode L) ms)" "fabric (sy_router s) bwd fwd"
    "list_all2 (returning orders mutate ?r ?mm) is1 (ms @ bwd)"
    "list_all2 (outgoing ?mm) is2 (fwd @ departing (br_writer ?b))"
    "list_all2 (queued ?mm) is3 (waiting ?b)"
    using sim by (rule system_simE)
  from step s(9) sim_fabric [OF s(2,3,7,10,11)] show ?thesis
  proof (cases rule: fabric_step)
    case move
    then have "system_sim L S orders mutate D (s\<lparr>sy_router := r\<rparr>) a"
      using s by (intro system_simI [where ?is1.0 = is1 and ?is2.0 = is2 and ?is3.0 = is3]) simp_all
    then show ?thesis
      using move(3-5) by simp
  next
    case (pass order m fwd' m')
    obtain it is2' where is2: "is2 = it # is2'" "outgoing ?mm it m"
        "list_all2 (outgoing ?mm) is2' (fwd' @ departing (br_writer ?b))"
      using s(11) pass(1) by (auto simp: list_all2_Cons2)
    have "item_ok (ma_mem a) it"
      using s(2,7) is2(1) by (simp add: machine_inv_def)
    then have "returning orders mutate ?r ?mm it m'"
      using outgoing_routes(2) [OF s(3) is2(2) _ pass(2)] pass(3) by auto
    then have "list_all2 (returning orders mutate ?r ?mm) (is1 @ [it]) (ms @ bwd @ [m'])"
      using list_all2_appendI [OF s(10)] by simp
    then have "system_sim L S orders mutate D (s\<lparr>sy_router := r\<rparr>) a"
      using s(1-8,12) is2(1,3) pass(4,5)
      by (intro system_simI [where ?is1.0 = "is1 @ [it]" and ?is2.0 = is2' and ?is3.0 = is3]) simp_all
    then show ?thesis
      using pass(6-8) by simp
  next
    case (out m bwd')
    have "system_sim L S orders mutate D (s\<lparr>sy_bridge := receive_events es ?b, sy_router := r\<rparr>) a"
      if es: "delivered es (lib_encode L m)" for es
    proof -
      let ?b' = "receive_events es ?b"
      have "exactly (c_in (br_client ?b')) (map (lib_encode L) (ms @ [m]))"
        using exactly_append [OF es s(8)] by (simp add: receive_events_def)
      moreover have "wired L orders mutate D ?r ?b'"
        by (rule wired_cong [OF s(3)]) (simp_all add: receive_events_def)
      moreover have "at_work ?b'" "same_user ?b' a" "waiting ?b' = waiting ?b"
        using s(4,6) by (simp_all add: at_work_def same_user_def waiting_def receive_events_def)
      ultimately show ?thesis
        using s(1,2,5,7,10-12) out(1-3)
        by (intro system_simI [where ?is1.0 = is1 and ?is2.0 = is2 and ?is3.0 = is3 and ms = "ms @ [m]"])
          (simp_all add: receive_events_def)
    qed
    then show ?thesis
      using out(4-6) by blast
  qed
qed

lemma sim_router_lives:
  assumes sim: "system_sim L S orders mutate D s a" and m: "t_readers (sy_router s) ! 0 = Offering m"
    and order: "order \<in> orders"
  obtains outs where "route order mutate m (t_router (sy_router s)) = Ret (t_router (sy_router s), outs, True)"
proof -
  obtain is1 is2 is3 ms bwd fwd where s: "machine_inv a"
    "wired L orders mutate D (t_router (sy_router s)) (sy_bridge s)" "ma_items a = is1 @ is2 @ is3"
    "fabric (sy_router s) bwd fwd"
    "list_all2 (returning orders mutate (t_router (sy_router s)) (br_masterMap (sy_bridge s))) is1 (ms @ bwd)"
    "list_all2 (outgoing (br_masterMap (sy_bridge s))) is2 (fwd @ departing (br_writer (sy_bridge s)))"
    using sim by (rule system_simE)
  have "m \<in> set fwd"
    using s(4) m by (auto simp: fabric_def offered_def)
  then show ?thesis
    using sim_fabric(2) [OF s(1-3,5,6)] order that by blast
qed

subsection \<open>Calls\<close>

text \<open>A call appends a request to the queue of the bridge, and to the list of the machine.\<close>

lemma sim_call:
  assumes sim: "system_sim L S orders mutate D s a"
    and master: "map_of (br_masterMap (sy_bridge s)) (txn_initiator txn) \<noteq> None"
    and few: "Suc (length (br_futures (sy_bridge s))) < 2 ^ 64" and target: "txn_target txn = 0"
    and ok: "request_ok (br_mem (sy_bridge s)) p txn"
    and b': "b' = push_txn \<lparr>tx_type = TRANSACTION, tx_buffer = p, tx_txn = txn,
        tx_promise = Some (length (br_futures (sy_bridge s)))\<rparr>
      ((sy_bridge s)\<lparr>br_futures := br_futures (sy_bridge s) @ [Pending]\<rparr>)"
  shows "call_allowed a (Call p txn)
    \<and> system_sim L S orders mutate D (s\<lparr>sy_bridge := b'\<rparr>) (machine_call (Call p txn) a)"
proof -
  let ?b = "sy_bridge s" and ?r = "t_router (sy_router s)"
  let ?mm = "br_masterMap ?b" and ?f = "length (br_futures ?b)"
  obtain is1 is2 is3 ms bwd fwd where s: "slaves_fill S" "machine_inv a"
    "wired L orders mutate D ?r ?b" "at_work ?b"
    "ids_fresh (waiting ?b) ?mm ?f" "same_user ?b a" "ma_items a = is1 @ is2 @ is3"
    "exactly (c_in (br_client ?b)) (map (lib_encode L) ms)" "fabric (sy_router s) bwd fwd"
    "list_all2 (returning orders mutate ?r ?mm) is1 (ms @ bwd)"
    "list_all2 (outgoing ?mm) is2 (fwd @ departing (br_writer ?b))"
    "list_all2 (queued ?mm) is3 (waiting ?b)"
    using sim by (rule system_simE)
  let ?t = "\<lparr>tx_type = TRANSACTION, tx_buffer = p, tx_txn = txn, tx_promise = Some ?f\<rparr>"
  have allowed: "call_allowed a (Call p txn)"
    using ok s(6) by (simp add: same_user_def)
  have same: "waiting b' = waiting ?b @ [?t]" "br_masterMap b' = ?mm" "br_writer b' = br_writer ?b"
    "length (br_futures b') = Suc ?f" "br_client b' = br_client ?b"
    by (simp_all add: b' waiting_def)
  have "wired L orders mutate D ?r b'"
    by (rule wired_cong [OF s(3)]) (simp_all add: b' push_txn_def)
  moreover have "at_work b'"
    using s(4) by (simp add: at_work_def b' push_wakes_step(1)) (simp add: q_push_def)
  moreover have "ids_fresh (waiting b') (br_masterMap b') (length (br_futures b'))"
    using s(5) few unfolding same ids_fresh_def by (simp add: le_SucI)
  moreover have "same_user b' (machine_call (Call p txn) a)"
    using s(6) by (simp add: same_user_def b' push_txn_def)
  moreover have "machine_inv (machine_call (Call p txn) a)"
    using s(2) allowed by (rule machine_call_inv)
  moreover have "queued ?mm (Request p (length (ma_futures a)) txn) ?t"
    using s(6) master target by (simp add: same_user_def)
  then have "list_all2 (queued (br_masterMap b')) (is3 @ [Request p (length (ma_futures a)) txn]) (waiting b')"
    unfolding same using s(12) by (intro list_all2_appendI) simp_all
  ultimately have "system_sim L S orders mutate D (s\<lparr>sy_bridge := b'\<rparr>) (machine_call (Call p txn) a)"
    using s(1,7-11) same
    by (intro system_simI [where ?is1.0 = is1 and ?is2.0 = is2
        and ?is3.0 = "is3 @ [Request p (length (ma_futures a)) txn]"]) simp_all
  with allowed show ?thesis by simp
qed

text \<open>Every buffer an item may fill is lent to the library.\<close>

lemma kept_for_lent: "kept_for (br_masterMap b) i n p f \<Longrightarrow> p \<in> lent b"
  by (force simp: lent_def elim!: kept_forE dest!: map_of_SomeD)

lemma item_buffer_lent:
  shows "queued (br_masterMap b) it t \<Longrightarrow> t \<in> set (waiting b) \<Longrightarrow> item_buffer it \<in> lent b"
    and "outgoing (br_masterMap b) it m \<Longrightarrow> item_buffer it \<in> lent b"
    and "returning orders mutate r (br_masterMap b) it m \<Longrightarrow> item_buffer it \<in> lent b"
proof -
  have *: "tx_buffer t \<in> lent b" if "t \<in> set (waiting b)" for t
    using that by (auto simp: lent_def waiting_def)
  show "queued (br_masterMap b) it t \<Longrightarrow> t \<in> set (waiting b) \<Longrightarrow> item_buffer it \<in> lent b"
    using * [of t] by (cases it) (auto intro: kept_for_lent)
  show "outgoing (br_masterMap b) it m \<Longrightarrow> item_buffer it \<in> lent b"
    by (cases it) (auto intro: kept_for_lent)
  show "returning orders mutate r (br_masterMap b) it m \<Longrightarrow> item_buffer it \<in> lent b"
    by (cases it) (auto intro: kept_for_lent)
qed

lemma list_all2_in_lent:
  assumes "list_all2 P its xs" "\<And>it x. x \<in> set xs \<Longrightarrow> P it x \<Longrightarrow> item_buffer it \<in> A"
  shows "item_buffer ` set its \<subseteq> A"
  using assms by (induction rule: list_all2_induct) auto

lemma sim_lent:
  assumes "system_sim L S orders mutate D s a"
  shows "item_buffer ` set (ma_items a) \<subseteq> lent (sy_bridge s)"
proof -
  obtain is1 is2 is3 ms bwd fwd where s: "ma_items a = is1 @ is2 @ is3"
    "list_all2 (returning orders mutate (t_router (sy_router s)) (br_masterMap (sy_bridge s))) is1 (ms @ bwd)"
    "list_all2 (outgoing (br_masterMap (sy_bridge s))) is2 (fwd @ departing (br_writer (sy_bridge s)))"
    "list_all2 (queued (br_masterMap (sy_bridge s))) is3 (waiting (sy_bridge s))"
    using assms by (rule system_simE)
  have "item_buffer ` set is1 \<subseteq> lent (sy_bridge s)"
    by (rule list_all2_in_lent [OF s(2)], erule item_buffer_lent(3))
  moreover have "item_buffer ` set is2 \<subseteq> lent (sy_bridge s)"
    by (rule list_all2_in_lent [OF s(3)], erule item_buffer_lent(2))
  moreover have "item_buffer ` set is3 \<subseteq> lent (sy_bridge s)"
    by (rule list_all2_in_lent [OF s(4)], erule (1) item_buffer_lent(1) [rotated])
  ultimately show ?thesis
    by (simp add: s(1) image_Un)
qed

lemma sim_store:
  assumes sim: "system_sim L S orders mutate D s a"
    and store: "map_option length (br_mem (sy_bridge s) i) = Some (length bs)" "Some i \<notin> lent (sy_bridge s)"
  shows "call_allowed a (Store i bs) \<and> system_sim L S orders mutate D
    (s\<lparr>sy_bridge := (sy_bridge s)\<lparr>br_mem := (br_mem (sy_bridge s))(i := Some bs)\<rparr>\<rparr>) (machine_call (Store i bs) a)"
proof -
  let ?b = "sy_bridge s" and ?r = "t_router (sy_router s)"
  let ?b' = "?b\<lparr>br_mem := (br_mem ?b)(i := Some bs)\<rparr>"
  obtain is1 is2 is3 ms bwd fwd where s: "slaves_fill S" "machine_inv a"
    "wired L orders mutate D ?r ?b" "at_work ?b"
    "ids_fresh (waiting ?b) (br_masterMap ?b) (length (br_futures ?b))" "same_user ?b a" "ma_items a = is1 @ is2 @ is3"
    "exactly (c_in (br_client ?b)) (map (lib_encode L) ms)" "fabric (sy_router s) bwd fwd"
    "list_all2 (returning orders mutate ?r (br_masterMap ?b)) is1 (ms @ bwd)"
    "list_all2 (outgoing (br_masterMap ?b)) is2 (fwd @ departing (br_writer ?b))"
    "list_all2 (queued (br_masterMap ?b)) is3 (waiting ?b)"
    using sim by (rule system_simE)
  have allowed: "call_allowed a (Store i bs)"
    using store s(6) sim_lent [OF sim] by (auto simp: same_user_def)
  have "wired L orders mutate D ?r ?b'"
    by (rule wired_cong [OF s(3)]) simp_all
  moreover have "machine_inv (machine_call (Store i bs) a)"
    using s(2) allowed by (rule machine_call_inv)
  ultimately have "system_sim L S orders mutate D (s\<lparr>sy_bridge := ?b'\<rparr>) (machine_call (Store i bs) a)"
    using s by (intro system_simI [where ?is1.0 = is1 and ?is2.0 = is2 and ?is3.0 = is3])
      (simp_all add: same_user_def at_work_def waiting_def)
  with allowed show ?thesis by simp
qed

section \<open>The system simulates the machine\<close>

lemma frame_inject: "frame p = frame q \<Longrightarrow> p = q"
  by (metis append_eq_append_conv frame_def length_le64)

lemma frame_not_Nil [simp]: "frame p \<noteq> []"
  by (simp add: frame_def)

lemma arrive_unique: "codec L \<Longrightarrow> frame (lib_encode L m) = frame (lib_encode L m') \<Longrightarrow> m = m'"
  by (metis codecD frame_inject option.inject)

lemma fabric_out: "system_sim L S orders mutate D s a \<Longrightarrow> length (t_out (sy_router s)) = 1"
  by (auto simp: system_sim_def ring_def fabric_def)

lemma sim_control:
  assumes sim: "system_sim L S orders mutate D s a" and "e = Notify \<or> e = Spurious"
  shows "system_sim L S orders mutate D
    (s\<lparr>sy_bridge := (sy_bridge s)\<lparr>br_queue := q_control e (br_queue (sy_bridge s))\<rparr>\<rparr>) a"
proof -
  have w: "at_work (sy_bridge s)"
    using sim by (simp add: system_sim_def)
  then have "push_wakes (q_control e (br_queue (sy_bridge s)))"
    by (simp add: at_work_def push_wakes_step(2))
  moreover have "\<not> q_done (q_control e (br_queue (sy_bridge s)))"
    using w assms(2) by (auto simp: at_work_def q_notify_one_def split: if_splits)
  ultimately show ?thesis
    using w by (intro sim_bridge_only [OF sim]) (simp_all add: at_work_def waiting_def)
qed

text \<open>A step of a thread is a move of the machine or none, and it leaves less work.\<close>

lemma reader_work:
  assumes sim: "system_sim L S orders mutate D s a" and "c_in (br_client (sy_bridge s)) \<noteq> []" "ma_items a \<noteq> []"
    and moves: "reader_moves (sy_bridge s) b' a a'"
  shows "work (s\<lparr>sy_bridge := b'\<rparr>) a' < work s a"
proof -
  obtain ms where ms: "exactly (c_in (br_client (sy_bridge s))) (map (lib_encode L) ms)"
    "length (ma_items a) = length ms + (bridge_tokens (sy_bridge s) + router_tokens (sy_router s))"
    using sim by (rule sim_tokens)
  have "ms \<noteq> []"
    using ms(1) assms(2) by auto
  then have len: "bridge_tokens (sy_bridge s) + router_tokens (sy_router s) < length (ma_items a)"
    using ms(2) by simp
  have w: "br_writer b' = br_writer (sy_bridge s)"
    using moves by (simp add: reader_moves_def)
  from moves consider (gone) "br_queue b' = br_queue (sy_bridge s)" "ma_items a' = tl (ma_items a)"
    | (served) t where "br_queue b' = q_push t (br_queue (sy_bridge s))" "length (ma_items a') = length (ma_items a)"
        "open_requests a = Suc (open_requests a')"
    by (auto simp: reader_moves_def)
  then show ?thesis
  proof cases
    case gone
    have "open_requests a' \<le> open_requests a"
      using assms(3) by (cases "ma_items a") (simp_all add: open_requests_def gone(2))
    moreover have "bridge_tokens b' = bridge_tokens (sy_bridge s)" "bridge_work b' = bridge_work (sy_bridge s)"
      by (simp_all add: bridge_tokens_def bridge_work_def waiting_def gone(1) w)
    ultimately show ?thesis
      using len by (simp add: work_def gone(2))
  next
    case served
    have "bridge_tokens b' = Suc (bridge_tokens (sy_bridge s))" "bridge_work b' = bridge_work (sy_bridge s) + 34"
      by (simp_all add: bridge_tokens_def bridge_work_def waiting_def served(1) w) (simp_all add: q_push_def)
    then show ?thesis
      using len served(2,3) by (simp add: work_def)
  qed
qed

lemma sim_thread:
  assumes sim: "system_sim L S orders mutate D s a" and step: "thread_step L S orders mutate s s'"
  obtains a' where "a' = a \<or> machine_step S D a None a'" "system_sim L S orders mutate D s' a'" "work s' a' < work s a"
proof -
  have L: "codec L"
    using sim by (simp add: system_sim_def wired_def)
  obtain ms where "exactly (c_in (br_client (sy_bridge s))) (map (lib_encode L) ms)"
    and ms: "length (ma_items a) = length ms + (bridge_tokens (sy_bridge s) + router_tokens (sy_router s))"
    using sim by (rule sim_tokens)
  have one: "(t_out (sy_router s))[0 := t_out (sy_router s) ! 0 @ [m]] \<noteq> t_out (sy_router s)" for m
    using fabric_out [OF sim] by (cases "t_out (sy_router s)") simp_all
  have out: "(t_out (sy_router s))[0 := t_out (sy_router s) ! 0 @ [m]]
      = (t_out (sy_router s))[0 := t_out (sy_router s) ! 0 @ [m']] \<Longrightarrow> m = m'" for m m'
    using fabric_out [OF sim] by (cases "t_out (sy_router s)") simp_all
  from step show ?thesis
  proof cases
    case (Thr_reader b)
    from sim Thr_reader(3) obtain b' a' where r: "Bridge_reader L S (sy_bridge s) = Ret b'" "ma_items a \<noteq> []"
      "machine_next S D a = Ret a'" "system_sim L S orders mutate D (s\<lparr>sy_bridge := b'\<rparr>) a'" "reader_moves (sy_bridge s) b' a a'"
      by (rule sim_reader)
    have "b' = b"
      using r(1) Thr_reader(4) by simp
    then show ?thesis
      using r reader_work [OF sim Thr_reader(3) r(2,5)] by (intro that [of a']) (simp_all add: Thr_reader(1) machine_step_def)
  next
    case (Thr_writer b)
    have "bridge_tokens b = bridge_tokens (sy_bridge s)" "bridge_work b < bridge_work (sy_bridge s)"
      "system_sim L S orders mutate D (s\<lparr>sy_bridge := b\<rparr>) a"
      using sim_writer [OF sim] Thr_writer(4-6) by (auto simp: writer_sim_def)
    then show ?thesis
      by (intro that [of a]) (simp_all add: Thr_writer(1) work_def)
  next
    case (Thr_writer_sends b m)
    have "Suc (bridge_tokens b) = bridge_tokens (sy_bridge s)" "bridge_work b + 24 = bridge_work (sy_bridge s)"
      "system_sim L S orders mutate D (s\<lparr>sy_bridge := b, sy_router := arrive m (sy_router s)\<rparr>) a"
      using sim_writer [OF sim] arrive_unique [OF L] Thr_writer_sends(4-6) by (auto simp: writer_sim_def dest: sym)
    moreover have "router_tokens (arrive m (sy_router s)) = Suc (router_tokens (sy_router s))"
      "router_work (arrive m (sy_router s)) = router_work (sy_router s) + 20"
      using sim by (auto simp: system_sim_def ring_def fabric_def arrive_def router_tokens_def router_work_def)
    ultimately show ?thesis
      by (intro that [of a]) (simp_all add: Thr_writer_sends(1) work_def)
  next
    case Thr_notify
    have "bridge_tokens ((sy_bridge s)\<lparr>br_queue := q_control Notify (br_queue (sy_bridge s))\<rparr>) = bridge_tokens (sy_bridge s)"
      "bridge_work ((sy_bridge s)\<lparr>br_queue := q_control Notify (br_queue (sy_bridge s))\<rparr>) < bridge_work (sy_bridge s)"
      using Thr_notify(2) by (cases "q_notify (br_queue (sy_bridge s))";
          simp add: bridge_tokens_def bridge_work_def waiting_def; simp add: q_notify_one_def)+
    then show ?thesis
      using sim_control [OF sim, of Notify] by (intro that [of a]) (simp_all add: Thr_notify(1) work_def)
  next
    case (Thr_router r)
    have "system_sim L S orders mutate D (s\<lparr>sy_router := r\<rparr>) a" "router_tokens r = router_tokens (sy_router s)"
      "router_work r < router_work (sy_router s)"
      using sim_router [OF sim Thr_router(2,3)] Thr_router(4) one by metis+
    then show ?thesis
      by (intro that [of a]) (simp_all add: Thr_router(1) work_def)
  next
    case (Thr_router_sends r m es)
    have "\<not> t_exited r"
      using Thr_router_sends(2,3) one [of m, THEN not_sym] by (cases rule: go_step.cases) auto
    from sim_router [OF sim Thr_router_sends(2) this]
    have "system_sim L S orders mutate D (s\<lparr>sy_bridge := receive_events es (sy_bridge s), sy_router := r\<rparr>) a"
      "Suc (router_tokens r) = router_tokens (sy_router s)" "router_work r + 8 = router_work (sy_router s)"
      using Thr_router_sends(3,4) one out by metis+
    moreover have "bridge_tokens (receive_events es (sy_bridge s)) = bridge_tokens (sy_bridge s)"
      "bridge_work (receive_events es (sy_bridge s)) = bridge_work (sy_bridge s)"
      by (simp_all add: bridge_tokens_def bridge_work_def waiting_def receive_events_def)
    ultimately show ?thesis
      using ms by (intro that [of a]) (simp_all add: Thr_router_sends(1) work_def)
  next
    case (Thr_router_exits m order e)
    obtain outs where "route order mutate m (t_router (sy_router s)) = Ret (t_router (sy_router s), outs, True)"
      using sim Thr_router_exits(4,5) by (rule sim_router_lives)
    then show ?thesis
      using Thr_router_exits(6) by simp
  qed
qed

lemma sim_internal:
  assumes sim: "system_sim L S orders mutate D s a" and step: "system_step L S orders mutate s None s'"
  shows "system_sim L S orders mutate D s' a \<or> (\<exists>a'. machine_step S D a None a' \<and> system_sim L S orders mutate D s' a')"
  using step
proof cases
  case Sys_thread
  with sim show ?thesis by (blast elim: sim_thread)
next
  case Sys_spurious
  then show ?thesis
    using sim_control [OF sim, of Spurious] by simp
qed

lemma sim_user:
  assumes sim: "system_sim L S orders mutate D s a" and step: "system_step L S orders mutate s (Some c) s'"
  shows "\<exists>a'. machine_step S D a (Some c) a' \<and> system_sim L S orders mutate D s' a'"
  using step
proof cases
  case (Sys_read m buffer b f)
  let ?txn = "(new_Transaction True)\<lparr>txn_type := READ_REQ, txn_initiator := m, txn_address := bf_address buffer,
    txn_size := bf_size buffer\<rparr>"
  have "call_allowed a (Call (bf_data buffer) ?txn)
      \<and> system_sim L S orders mutate D (s\<lparr>sy_bridge := b\<rparr>) (machine_call (Call (bf_data buffer) ?txn) a)"
    using Sys_read by (intro sim_call [OF sim])
      (auto simp: new_Transaction_def request_ok_def Master_read_def get_future_def Let_def)
  then show ?thesis
    using Sys_read(1,2) by (simp add: machine_step_def read_call_def)
next
  case (Sys_write m buffer bytes b f)
  let ?txn = "(new_Transaction True)\<lparr>txn_type := WRITE_REQ, txn_initiator := m, txn_address := bf_address buffer,
    txn_size := bf_size buffer, txn_data := bytes\<rparr>"
  have "call_allowed a (Call None ?txn)
      \<and> system_sim L S orders mutate D (s\<lparr>sy_bridge := b\<rparr>) (machine_call (Call None ?txn) a)"
    using Sys_write by (intro sim_call [OF sim])
      (auto simp: new_Transaction_def request_ok_def Master_write_def get_future_def Let_def split: if_splits)
  then show ?thesis
    using Sys_write(1,2) by (simp add: machine_step_def write_call_def)
next
  case (Sys_store i bs)
  then show ?thesis
    using sim_store [OF sim Sys_store(3,4)] by (auto simp: machine_step_def)
qed

interpretation sy: simulation "system_step L S orders mutate" "machine_step S D" "system_sim L S orders mutate D"
  for L S orders mutate D
  by unfold_locales (rule sim_internal sim_user, assumption+)+

end
