(* ===== verification/Test_Program.thy ===== *)
theory Test_Program
  imports Request_Machine Printing
begin

text \<open>
  The test program \<^verbatim>\<open>tests/02-sw-master-lite/testbench.cc\<close>: its memory-mapped slave, the buffers and the two
  calls of its master. Memory the program does not initialise is a parameter.
\<close>

section \<open>The slave\<close>

record Ram =
  ram_data :: "u8 list"
  ram_addr :: u64

text \<open>The constructor allocates the data. It does not assign the member \<^verbatim>\<open>addr\<close>, which keeps what was there.\<close>

definition Ram_new :: "u64 \<Rightarrow> u64 \<Rightarrow> u64 \<Rightarrow> (nat \<Rightarrow> u8) \<Rightarrow> Ram" where
  "Ram_new addr sz old_addr old = \<lparr>ram_data = map old [0..<unat sz], ram_addr = old_addr\<rparr>"

text \<open>\<^verbatim>\<open>memcpy\<close> into and out of the data, at an offset that is a difference of unsigned numbers.\<close>

definition Ram_handleWrite :: "u64 \<Rightarrow> u64 \<Rightarrow> u8 list \<Rightarrow> Ram \<Rightarrow> (int \<times> Ram) outcome" where
  "Ram_handleWrite sz address data r =
     (let off = unat (address - ram_addr r); n = unat sz in
      if n \<le> length data \<and> off + n \<le> length (ram_data r)
      then Ret (0, r\<lparr>ram_data := overwrite off (take n data) (ram_data r)\<rparr>)
      else Fault OutOfBounds)"

definition Ram_handleRead :: "u64 \<Rightarrow> u64 \<Rightarrow> u8 list \<Rightarrow> Ram \<Rightarrow> (int \<times> u8 list \<times> Ram) outcome" where
  "Ram_handleRead sz address buf r =
     (let off = unat (address - ram_addr r); n = unat sz in
      if n \<le> length buf \<and> off + n \<le> length (ram_data r)
      then Ret (0, overwrite 0 (take n (drop off (ram_data r))) buf, r)
      else Fault OutOfBounds)"

text \<open>The bytes from an address on are inside the data.\<close>

definition in_ram :: "u64 \<Rightarrow> nat \<Rightarrow> Ram \<Rightarrow> bool" where
  "in_ram address n r \<longleftrightarrow> unat (address - ram_addr r) + n \<le> length (ram_data r)"

text \<open>
  The slave as the bridge sees it. An access out of bounds has no defined result; it is given one here, and
  the properties say where none happens.
\<close>

definition ram_slaves :: "Ram slaves" where
  "ram_slaves = \<lparr>
     handleWrite = (\<lambda>_ sz address data r. case Ram_handleWrite sz address data r of Ret x \<Rightarrow> x | _ \<Rightarrow> (-1, r)),
     handleRead = (\<lambda>_ sz address buf r. case Ram_handleRead sz address buf r of Ret x \<Rightarrow> x | _ \<Rightarrow> (-1, buf, r))\<rparr>"

lemma slaves_fill_ram: "slaves_fill ram_slaves"
proof -
  have "length (fst (snd (handleRead ram_slaves s n a buf w))) = length buf" for s n a buf w
    by (simp add: ram_slaves_def Ram_handleRead_def Let_def overwrite_def) auto
  then show ?thesis
    by (simp add: slaves_fill_def)
qed

text \<open>What is written is read back.\<close>

lemma drop_overwrite: "off + length xs \<le> length buf \<Longrightarrow> take (length xs) (drop off (overwrite off xs buf)) = xs"
  by (simp add: overwrite_def)

lemma Ram_write_read:
  assumes "in_ram address (length bytes) r" "unat sz = length bytes" "length buf = length bytes"
  obtains r' where "Ram_handleWrite sz address bytes r = Ret (0, r')" "Ram_handleRead sz address buf r' = Ret (0, bytes, r')"
    "ram_data r' = overwrite (unat (address - ram_addr r)) bytes (ram_data r)" "ram_addr r' = ram_addr r"
proof -
  let ?r = "r\<lparr>ram_data := overwrite (unat (address - ram_addr r)) bytes (ram_data r)\<rparr>"
  have "Ram_handleRead sz address buf ?r = Ret (0, bytes, ?r)"
    using assms by (simp add: Ram_handleRead_def in_ram_def drop_overwrite) (simp add: overwrite_def)
  then show ?thesis
    using assms by (intro that [of ?r]) (simp_all add: Ram_handleWrite_def in_ram_def)
qed

section \<open>The first calls\<close>

definition ramConfig :: IpConfig where
  "ramConfig = \<lparr>ip_name = ''Soft-RAM'', ip_address = 0x1000, ip_size = 0x2000, ip_firstInterrupt = 0,
     ip_numInterrupts = 0, ip_type = SLAVE_LITE, ip_implementation = SOFTWARE\<rparr>"

text \<open>What \<^verbatim>\<open>main\<close> writes to the standard error stream: lines of text, and the three listings.\<close>

definition put_line :: "string list \<Rightarrow> ostream \<Rightarrow> ostream" where
  "put_line ss = insert_all (map put_str ss @ [put_endl])"

definition print_router :: "SystemInfo \<Rightarrow> ostream \<Rightarrow> ostream" where
  "print_router info = insert_all
     [put_line [''Connected to the router:''], put_line [''Name:        '', si_name info],
      put_line [''System Name: '', si_systemName info],
      put_str ''Pid:         '', put_nat (unat (si_pid info)), put_endl,
      put_line [''Hostname:    '', si_hostname info], put_endl]"

definition print_peers :: "SystemInfo list \<Rightarrow> ostream \<Rightarrow> ostream" where
  "print_peers peers = insert_all ([put_line [''Peers: '']] @ map SystemInfo_print peers @ [put_endl])"

definition print_blocks :: "IpConfig list \<Rightarrow> ostream \<Rightarrow> ostream" where
  "print_blocks ips = insert_all (put_line [if ips = [] then ''No IP blocks registered'' else ''IP blocks:'']
     # map IpConfig_print ips)"

text \<open>
  \<^verbatim>\<open>main\<close> from \<^verbatim>\<open>connect\<close> to the start of its thread: the bridge, what has been written to the standard error
  stream, the master, and the status of the call that failed or of the last. A call that fails ends it; an
  enumeration that fails would leave its vector empty. The threads that \<^verbatim>\<open>start\<close> has created may be running by the
  time of the enumerations; nothing arrives for them before the calls of the master.
\<close>

definition fetched :: "'a list option \<Rightarrow> 'a list" where
  "fetched xs = (case xs of None \<Rightarrow> [] | Some ys \<Rightarrow> ys)"

definition test_start ::
  "lib \<Rightarrow> env \<Rightarrow> nat \<Rightarrow> 'w bridge \<Rightarrow> ostream \<Rightarrow> ('w bridge \<times> ostream \<times> u64 option \<times> Status) outcome" where
  "test_start L E ram b os =
     bind_outcome (Bridge_connect L E ''unix:///tmp/sw-axi'' b) (\<lambda>(b1, st1).
       if isError st1 then Ret (b1, put_line [''Unable to connect to the router: '', getMessage st1] os, None, st1) else
     deref (Bridge_getRouterInfo b1) (\<lambda>rInfo. let os1 = print_router rInfo os in
     bind_outcome (Bridge_registerSlave L (Some ram) ramConfig b1) (\<lambda>(b2, st2).
       if isError st2
       then Ret (b2, put_line [''Unable to register the Soft-RAM slave: '', getMessage st2] os1, None, st2) else
     bind_outcome (Bridge_registerMaster L ''Soft-Master'' b2) (\<lambda>(b3, master, st3).
       if isError st3
       then Ret (b3, put_line [''Unable register a master IP: '', getMessage st3] os1, None, st3) else
     bind_outcome (Bridge_commitIp L b3) (\<lambda>(b4, st4).
       if isError st4 then Ret (b4, put_line [''Unable to commit the IP: '', getMessage st4] os1, None, st4) else
     bind_outcome (Bridge_start L b4) (\<lambda>(b5, st5).
       if isError st5 then Ret (b5, put_line [''Unable to start the bridge: '', getMessage st5] os1, None, st5) else
     (case Bridge_enumeratePeers b5 of (peers, st6) \<Rightarrow>
       if isError st6 then Ret (b5, put_line [''Unable to enumerate peers: '', getMessage st6] os1, None, st6) else
     (let os2 = print_peers (fetched peers) os1 in
     (case Bridge_enumerateIp b5 of (ips, st7) \<Rightarrow>
       if isError st7 then Ret (b5, put_line [''Unable to enumerate the IPs: '', getMessage st7] os2, None, st7) else
     Ret (b5, print_blocks (fetched ips) os2, master, st7))))))))))"

lemma put_line_out:
  assumes "between_lines os"
  shows "os_out (put_line ss os) = os_out os @ concat ss @ [CHR 0x0A]" "between_lines (put_line ss os)"
proof -
  have *: "os_out (insert_all (map put_str ss) os) = os_out os @ concat ss \<and> between_lines (insert_all (map put_str ss) os)"
    using assms by (induction ss arbitrary: os) (simp_all add: between_lines_def put_str_def Let_def)
  then show "os_out (put_line ss os) = os_out os @ concat ss @ [CHR 0x0A]" "between_lines (put_line ss os)"
    unfolding put_line_def insert_all_append by (simp_all add: put_endl_def between_lines_def)
qed

lemma put_endl_out: "os_out (put_endl os) = os_out os @ [CHR 0x0A]" "between_lines (put_endl os) = between_lines os"
  by (simp_all add: put_endl_def between_lines_def)

lemma print_router_out:
  assumes "between_lines os"
  shows "os_out (print_router info os) = os_out os @ ''Connected to the router:'' @ [CHR 0x0A]
      @ ''Name:        '' @ si_name info @ [CHR 0x0A] @ ''System Name: '' @ si_systemName info @ [CHR 0x0A]
      @ ''Pid:         '' @ to_string_nat (unat (si_pid info)) @ [CHR 0x0A]
      @ ''Hostname:    '' @ si_hostname info @ [CHR 0x0A] @ [CHR 0x0A]"
    and "between_lines (print_router info os)"
proof -
  have pid: "os_out (put_nat n (put_str s os')) = os_out os' @ s @ to_string_nat n"
    "between_lines (put_nat n (put_str s os'))" if "between_lines os'" for n s os'
    using that by (simp_all add: between_lines_def put_nat_def put_str_def to_string_nat_def Let_def)
  show "os_out (print_router info os) = os_out os @ ''Connected to the router:'' @ [CHR 0x0A]
      @ ''Name:        '' @ si_name info @ [CHR 0x0A] @ ''System Name: '' @ si_systemName info @ [CHR 0x0A]
      @ ''Pid:         '' @ to_string_nat (unat (si_pid info)) @ [CHR 0x0A]
      @ ''Hostname:    '' @ si_hostname info @ [CHR 0x0A] @ [CHR 0x0A]"
    "between_lines (print_router info os)"
    using assms by (simp_all add: print_router_def put_line_out put_endl_out pid)
qed

lemma print_lists_out:
  assumes "between_lines os"
  shows "os_out (print_peers peers os) = os_out os @ ''Peers: '' @ [CHR 0x0A] @ concat (map SystemInfo_line peers) @ [CHR 0x0A]"
    and "between_lines (print_peers peers os)"
    and "ips \<noteq> [] \<Longrightarrow> os_out (print_blocks ips os) = os_out os @ ''IP blocks:'' @ [CHR 0x0A] @ concat (map IpConfig_line ips)"
proof -
  have peers: "os_out (insert_all (map SystemInfo_print xs) os') = os_out os' @ concat (map SystemInfo_line xs)
      \<and> between_lines (insert_all (map SystemInfo_print xs) os')" if "between_lines os'" for xs os'
    using that by (induction xs arbitrary: os') (simp_all add: SystemInfo_print_line)
  have blocks: "os_out (insert_all (map IpConfig_print xs) os') = os_out os' @ concat (map IpConfig_line xs)"
    if "between_lines os'" for xs os'
    using that by (induction xs arbitrary: os') (simp_all add: IpConfig_print_line)
  show "os_out (print_peers peers os) = os_out os @ ''Peers: '' @ [CHR 0x0A] @ concat (map SystemInfo_line peers) @ [CHR 0x0A]"
    "between_lines (print_peers peers os)"
    using assms peers [of "put_line [''Peers: ''] os" peers]
    by (simp_all add: print_peers_def insert_all_append put_line_out put_endl_out)
  show "os_out (print_blocks ips os) = os_out os @ ''IP blocks:'' @ [CHR 0x0A] @ concat (map IpConfig_line ips)" if "ips \<noteq> []"
    using assms that by (simp add: print_blocks_def put_line_out blocks)
qed

section \<open>The two calls\<close>

text \<open>The array of the literal, with its terminating null character.\<close>

definition hello :: "u8 list" where
  "hello = map of_char ''Hello world!'' @ [0]"

definition write_buffer :: "nat \<Rightarrow> Buffer" where
  "write_buffer w = \<lparr>bf_data = Some w, bf_size = of_nat (length hello), bf_address = 0x1000\<rparr>"

definition read_buffer :: "nat \<Rightarrow> Buffer" where
  "read_buffer r = \<lparr>bf_data = Some r, bf_size = of_nat (length hello), bf_address = 0x1000\<rparr>"

lemma length_hello [simp]: "length hello = 13"
  by (simp add: hello_def)

lemma buffer_simps [simp]:
  "bf_data (write_buffer w) = Some w" "bf_size (write_buffer w) = 13" "bf_address (write_buffer w) = 0x1000"
  "bf_data (read_buffer r) = Some r" "bf_size (read_buffer r) = 13" "bf_address (read_buffer r) = 0x1000"
  by (simp_all add: write_buffer_def read_buffer_def)

section \<open>What the program prints and returns\<close>

text \<open>An array read as a C string; without a null character the read leaves the array.\<close>

definition c_string :: "u8 list \<Rightarrow> string outcome" where
  "c_string bs = (if 0 \<in> set bs then Ret (map (\<lambda>x. char_of (unat x)) (takeWhile (\<lambda>x. x \<noteq> 0) bs)) else Fault OutOfBounds)"

text \<open>What the thread writes to the standard output, once both futures are ready. Every branch ends in \<^verbatim>\<open>terminate\<close>.\<close>

definition test_report :: "Status \<Rightarrow> Status \<Rightarrow> u8 list \<Rightarrow> u8 list \<Rightarrow> string outcome" where
  "test_report writeStatus readStatus wBuffer rBuffer =
     (if isError writeStatus \<or> isError readStatus then Ret []
      else bind_outcome (c_string wBuffer) (\<lambda>wrote. bind_outcome (c_string rBuffer) (\<lambda>got.
        Ret (''Wrote: '' @ wrote @ [CHR 0x0A] @ ''Read:  '' @ got @ [CHR 0x0A]
          @ (if wrote = got then ''MATCH!'' else ''NO MATCH!'') @ [CHR 0x0A]))))"

text \<open>
  The end of \<^verbatim>\<open>main\<close>, after the thread has called \<^verbatim>\<open>terminate\<close>: the exit code. \<open>None\<close>: still blocked in
  \<^verbatim>\<open>waitForCompletion\<close>. The \<^verbatim>\<open>return 1\<close> of an error destroys the thread object before anything has joined it,
  which ends the program.
\<close>

definition test_finish :: "'w bridge \<Rightarrow> int outcome option" where
  "test_finish b = map_option (\<lambda>r. bind_outcome r (\<lambda>(b1, st).
     if isError st then Fault Terminate
     else bind_outcome (Bridge_disconnect b1) (\<lambda>b2. bind_outcome (Bridge_destroy b2) (\<lambda>_. Ret 0))))
     (Bridge_waitForCompletion b)"

lemma test_report_match:
  "test_report status_ok status_ok hello hello
    = Ret (''Wrote: Hello world!'' @ [CHR 0x0A] @ ''Read:  Hello world!'' @ [CHR 0x0A] @ ''MATCH!'' @ [CHR 0x0A])"
  by code_simp

section \<open>Property\<close>

text \<open>
  C40: the constructor of the slave does not store the address it is given, and the handlers compute the offset
  from an uninitialised member. The write of the test, to the first bytes of the slave, is in bounds exactly if
  what the member happens to hold is at most the address of the slave or within 0xFF3 of the largest number;
  the address passed to the constructor has no part in it.
\<close>

theorem Ram_ignores_its_address:
  "Ram_handleWrite (bf_size (write_buffer w)) (bf_address (write_buffer w)) hello (Ram_new addr 0x2000 old_addr old)
     = Fault OutOfBounds \<longleftrightarrow> 0x1000 < unat old_addr \<and> unat old_addr < 2 ^ 64 - 0xFF3"
proof -
  have "unat (0x1000 - old_addr) = (if unat old_addr \<le> 0x1000 then 0x1000 - unat old_addr
      else 2 ^ 64 + 0x1000 - unat old_addr)"
    using unsigned_less [of old_addr] unat_sub_if' [of "0x1000 :: u64" old_addr] by simp
  moreover have "unat old_addr < 2 ^ 64"
    using unsigned_less [of old_addr] by simp
  ultimately show ?thesis
    by (auto simp: Ram_handleWrite_def Ram_new_def Let_def)
qed

end
