(* ===== verification/Test_Start.thy ===== *)
theory Test_Start
  imports Closed_System Router_Run Test_Program Codec_Example
begin

text \<open>
  The test program \<^verbatim>\<open>tests/02-sw-master-lite\<close> and a router of one client, from their first steps: the handshake,
  the registration, the commit and the start leave the system of both processes at rest.
\<close>

section \<open>What the router makes of the program's messages\<close>

definition ram_block :: IpInfo where
  "ram_block = \<lparr>ii_name = ''Soft-RAM'', ii_address = 0x1000, ii_size = 0x2000, ii_firstInterrupt = 0,
     ii_numInterrupts = 0, ii_type = SLAVE_LITE, ii_implementation = SOFTWARE, ii_id = 0, ii_client = 0\<rparr>"

definition master_block :: IpInfo where
  "master_block = \<lparr>ii_name = ''Soft-Master'', ii_address = 0, ii_size = 0, ii_firstInterrupt = 0,
     ii_numInterrupts = 0, ii_type = MASTER, ii_implementation = SOFTWARE, ii_id = 1, ii_client = 0\<rparr>"

definition test_client :: "SystemInfo \<Rightarrow> go_client" where
  "test_client info = \<lparr>gc_Id = 0, gc_SystemInfo = info\<rparr>"

definition test_router :: "SystemInfo \<Rightarrow> router" where
  "test_router info = \<lparr>r_clients = [test_client info], r_ipCount = 2, r_masterCount = 1,
     r_ipMMap = [(0x1000, ram_block), (0, master_block)], r_ips = [ram_block, master_block]\<rparr>"

definition masterConfig :: IpConfig where
  "masterConfig = new_IpConfig\<lparr>ip_name := ''Soft-Master'', ip_type := MASTER\<rparr>"

text \<open>The messages of the program up to its \<^verbatim>\<open>start\<close>, and the answers.\<close>

definition test_messages :: "env \<Rightarrow> wire_Message list" where
  "test_messages E = [client_SystemInfo E ''02-sw-master-lite'', registerIp_message ramConfig 1,
     registerIp_message masterConfig 3, new_Message Type_COMMIT]"

definition client_info :: "env \<Rightarrow> SystemInfo" where
  "client_info E = \<lparr>si_name = ''02-sw-master-lite'', si_systemName = system_name E, si_pid = e_pid E,
     si_hostname = e_nodename E\<rparr>"

definition router_info_message :: "go_env \<Rightarrow> string \<Rightarrow> wire_Message" where
  "router_info_message G hn = system_info_message
     \<lparr>si_name = ''router'', si_systemName = go_systemName G, si_pid = g_pid G, si_hostname = hn\<rparr>"

definition test_answers :: "go_env \<Rightarrow> env \<Rightarrow> string \<Rightarrow> wire_Message list" where
  "test_answers G E hn = router_info_message G hn # ackIpInfo 0 # ackIpInfo 1
     # commit [client_info E] [ram_block, master_block]"

lemma wire_of_test_types:
  "wire_of_IpType (ip_type ramConfig) = Some 1" "named_IpImplementation (ip_implementation ramConfig)"
  "wire_of_IpType (ip_type masterConfig) = Some 3" "named_IpImplementation (ip_implementation masterConfig)"
  by (simp_all add: ramConfig_def masterConfig_def new_IpConfig_def)

lemma requested_test:
  "requested (test_client info) ramConfig = ram_block"
  "requested (test_client info) masterConfig = master_block\<lparr>ii_id := 0\<rparr>"
  by (simp_all add: requested_def ramConfig_def masterConfig_def new_IpConfig_def test_client_def ram_block_def master_block_def)

lemma serve_test_ips:
  "serve_ip (test_client info) (registerIp_message ramConfig 1) (NewRouter\<lparr>r_clients := [test_client info]\<rparr>)
    = Ret (Some (NewRouter\<lparr>r_clients := [test_client info], r_ipCount := 1, r_ipMMap := [(0x1000, ram_block)],
        r_ips := [ram_block]\<rparr>, Some (ackIpInfo 0)))"
  "serve_ip (test_client info) (registerIp_message masterConfig 3) (NewRouter\<lparr>r_clients := [test_client info],
      r_ipCount := 1, r_ipMMap := [(0x1000, ram_block)], r_ips := [ram_block]\<rparr>)
    = Ret (Some (test_router info, Some (ackIpInfo 1)))"
proof -
  note rcv = receiveIpInfo_registerIp_message [OF wire_of_test_types(1,2)]
    receiveIpInfo_registerIp_message [OF wire_of_test_types(3,4)]
  show "serve_ip (test_client info) (registerIp_message ramConfig 1) (NewRouter\<lparr>r_clients := [test_client info]\<rparr>)
    = Ret (Some (NewRouter\<lparr>r_clients := [test_client info], r_ipCount := 1, r_ipMMap := [(0x1000, ram_block)],
        r_ips := [ram_block]\<rparr>, Some (ackIpInfo 0)))"
    by (simp add: serve_ip_def rcv(1) requested_test registerIp_def Let_def NewRouter_def ram_block_def is_master_def)
  show "serve_ip (test_client info) (registerIp_message masterConfig 3) (NewRouter\<lparr>r_clients := [test_client info],
      r_ipCount := 1, r_ipMMap := [(0x1000, ram_block)], r_ips := [ram_block]\<rparr>)
    = Ret (Some (test_router info, Some (ackIpInfo 1)))"
    by (simp add: serve_ip_def rcv(2) requested_test registerIp_def Let_def NewRouter_def ram_block_def master_block_def
        is_master_def conflicts_def test_router_def)
qed

lemma Run_test:
  assumes "g_hostname G = Some hn"
  shows "go_Run G [test_messages E]
    = Ret (Some ((start_threads [[]] (test_router (client_info E)))\<lparr>t_out := [test_answers G E hn]\<rparr>))"
proof -
  have hello: "shakeHands G (client_SystemInfo E ''02-sw-master-lite'') (newClient 0)
      = Ret (Some (test_client (client_info E), router_info_message G hn))"
    using assms by (simp add: shakeHands_def client_SystemInfo_def new_Message_def go_string_def newClient_def
        test_client_def client_info_def router_info_message_def)
  have cm: "serve_ip c (new_Message Type_COMMIT) r = Ret (Some (r, None))" for c r
    by (simp add: serve_ip_def receiveIpInfo_def new_Message_def)
  have start: "accept_clients (length [test_messages E]) NewRouter = NewRouter\<lparr>r_clients := [newClient 0]\<rparr>"
    by (simp add: accept_clients_def NewRouter_def)
  have "serve_clients G 0 [test_messages E] (NewRouter\<lparr>r_clients := [newClient 0]\<rparr>)
      = Ret (Some (test_router (client_info E), [([], [router_info_message G hn, ackIpInfo 0, ackIpInfo 1])]))"
    by (simp add: test_messages_def hello serve_test_ips cm)
  then show ?thesis
    unfolding go_Run_def start by (simp add: test_router_def test_answers_def test_client_def)
qed

section \<open>Where addresses lead\<close>

definition ram_directory :: "nat \<Rightarrow> directory" where
  "ram_directory ram a n =
     (if 0x1000 \<le> a \<and> a < 0x3000
      then if 0x3000 < a + n then Inl ''Transaction spans blocks bondary: Soft-RAM'' else Inr ram
      else Inl (''No IP block found at address: 0x'' @ zero_pad 16 (numeral_string 16 (unat a))))"

text \<open>The block of the master is empty, so the order in which the map is visited does not matter.\<close>

lemma findTarget_test_router:
  assumes "\<And>m. set (order m) = snd ` set m"
  shows "findTarget order a n (test_router info) = (case ram_directory ram a n of Inl err \<Rightarrow> Inl err | Inr _ \<Rightarrow> Inr (0, 0))"
proof -
  have set: "set (order (r_ipMMap (test_router info))) = {ram_block, master_block}"
    by (simp add: assms test_router_def)
  have none: "\<not> covers a master_block" and covers: "covers a ram_block \<longleftrightarrow> 0x1000 \<le> a \<and> a < 0x3000"
    by (simp_all add: covers_def master_block_def ram_block_def)
  have "find (covers a) (order (r_ipMMap (test_router info))) = (if covers a ram_block then Some ram_block else None)"
  proof (cases "find (covers a) (order (r_ipMMap (test_router info)))")
    case None
    then show ?thesis using set by (auto simp: find_None_iff)
  next
    case (Some ip)
    then have "covers a ip" "ip \<in> {ram_block, master_block}"
      using set by (auto simp: find_Some_iff dest: nth_mem)
    then show ?thesis using Some none by auto
  qed
  then show ?thesis
    by (simp add: findTarget_def ram_directory_def covers) (simp add: ram_block_def)
qed


section \<open>The program's side\<close>

text \<open>
  The calls of a program that connects, registers, commits and starts, against the frames of the router that wait
  for it. \<open>linked\<close> is its client: the state, what it has sent, and what is left to read.
\<close>

definition linked :: "lib \<Rightarrow> env \<Rightarrow> int list \<Rightarrow> State \<Rightarrow> wire_Message list \<Rightarrow> rd_event list \<Rightarrow> client" where
  "linked L E fds st sent k = (new_RouterClient fds)\<lparr>c_state := st, c_uri := ''unix:///tmp/sw-axi'', c_sock := e_socket E,
     c_in := k, c_out := \<lparr>wr_script = [], wr_sent = concat (map (\<lambda>m. frame (lib_encode L m)) sent)\<rparr>, c_open := e_socket E # fds\<rparr>"

lemma linked_simps [simp]:
  "c_state (linked L E fds st sent k) = st" "c_sock (linked L E fds st sent k) = e_socket E"
  "c_in (linked L E fds st sent k) = k" "wr_script (c_out (linked L E fds st sent k)) = []"
  "c_uri (linked L E fds st sent k) = ''unix:///tmp/sw-axi''" "c_open (linked L E fds st sent k) = e_socket E # fds"
  "(linked L E fds st sent k)\<lparr>c_state := st'\<rparr> = linked L E fds st' sent k"
  "(linked L E fds st sent k)\<lparr>c_in := k'\<rparr> = linked L E fds st sent k'"
  "sent_more L m k' (linked L E fds st sent k) = linked L E fds st (sent @ [m]) k'"
  by (simp_all add: linked_def sent_more_def)

lemma Bridge_connect_linked:
  assumes L: "codec L" and E: "e_socket E \<noteq> -1" "e_connect E (sun_path ''/tmp/sw-axi'')" "e_wr E = []"
    and arrives: "exactly (e_in E) (map (lib_encode L) (router_info_message G hn # ms))"
  obtains k where "exactly k (map (lib_encode L) ms)"
    "Bridge_connect L E ''unix:///tmp/sw-axi'' (new_Bridge name fds mem w) = Ret ((new_Bridge name fds mem w)
       \<lparr>br_client := linked L E fds CONNECTED [client_SystemInfo E name] k,
        br_routerInfo := Some \<lparr>si_name = ''router'', si_systemName = go_systemName G, si_pid = g_pid G, si_hostname = hn\<rparr>\<rparr>,
      status_ok)"
proof -
  let ?si = "\<lparr>si_name = ''router'', si_systemName = go_systemName G, si_pid = g_pid G, si_hostname = hn\<rparr>"
  have answer: "wm_type (router_info_message G hn) = Type_SYSTEM_INFO"
    "SystemInfo_of_message (router_info_message G hn) = Ret ?si"
    by (simp_all add: router_info_message_def system_info_message_def SystemInfo_of_message_def new_Message_def)
  have "closed (new_RouterClient fds)"
    by (simp add: new_RouterClient_def closed_def)
  from ex.connect_pending [OF L this _ E arrives answer, of name] obtain k where "exactly k (map (lib_encode L) ms)"
    "RouterClient_connect L E ''unix:///tmp/sw-axi'' name (new_RouterClient fds)
      = Ret (linked L E fds CONNECTED [client_SystemInfo E name] k, Some ?si, status_ok)"
    by (auto simp: linked_def new_RouterClient_def)
  then show thesis
    by (intro that [of k]) (simp_all add: Bridge_connect_def Let_def new_Bridge_def)
qed

lemma Bridge_register_linked:
  assumes "codec L" "e_socket E \<noteq> -1" "exactly k (map (lib_encode L) (ackIpInfo i # ms))"
    and "wire_of_IpType (ip_type config) = Some t"
  obtains k' where "exactly k' (map (lib_encode L) ms)"
    "RouterClient_registerIp L config (linked L E fds CONNECTED sent k)
      = Ret (linked L E fds CONNECTED (sent @ [registerIp_message config t]) k', i, status_ok)"
proof -
  have "exactly (c_in (linked L E fds CONNECTED sent k)) (map (lib_encode L) (ackIpInfo i # ms))"
    using assms(3) by simp
  from ex.registerIp_pending [OF assms(1) _ _ _ assms(4) this] assms(2) show thesis
    by (auto intro: that)
qed

lemma Bridge_commit_linked:
  assumes "codec L" "e_socket E \<noteq> -1" "exactly k (map (lib_encode L) (commit infos ips))"
    and "list_all2 announces_ip (map ip_message ips) configs"
    and b: "br_client b = linked L E fds CONNECTED sent k" "br_reader b = Reader_Absent" "br_writer b = Writer_Absent"
  obtains b' where "Bridge_commitIp L b = Ret (b', status_ok)"
    "Bridge_start L b' = Ret (b\<lparr>br_client := linked L E fds STARTED (sent @ [new_Message Type_COMMIT]) [],
       br_peers := br_peers b @ infos, br_ipBlocks := br_ipBlocks b @ configs,
       br_reader := Reader_Running, br_writer := Writer_Pop\<rparr>, status_ok)"
proof -
  let ?lists = "map system_info_message infos @ new_Message Type_ACK # map ip_message ips @ new_Message Type_ACK # []"
  have ack: "wm_type (new_Message Type_ACK) = Type_ACK"
    by (simp add: new_Message_def)
  have "exactly (c_in (linked L E fds CONNECTED sent k)) (map (lib_encode L) (new_Message Type_ACK # ?lists))"
    using assms(3) by (simp add: commit_def)
  from ex.commitIp_pending [OF assms(1) _ _ _ this ack] assms(2) obtain k' where
    k': "exactly k' (map (lib_encode L) ?lists)" "RouterClient_commitIp L (linked L E fds CONNECTED sent k)
      = Ret (linked L E fds COMMITTED (sent @ [new_Message Type_COMMIT]) k', status_ok)"
    by auto
  let ?b = "b\<lparr>br_client := linked L E fds COMMITTED (sent @ [new_Message Type_COMMIT]) k'\<rparr>"
  have peers: "list_all2 announces_peer (map system_info_message infos) infos"
    by (induction infos) (simp_all add: announces_peer_of_message)
  have s: "c_state (br_client ?b) = COMMITTED" "c_sock (br_client ?b) \<noteq> -1" "br_reader ?b = Reader_Absent"
    "br_writer ?b = Writer_Absent" "exactly (c_in (br_client ?b)) (map (lib_encode L) ?lists)"
    using assms(2) b k'(1) by simp_all
  obtain k2 where "exactly k2 (map (lib_encode L) [])" "Bridge_start L ?b = Ret (?b\<lparr>br_client := (br_client ?b)
       \<lparr>c_state := STARTED, c_in := k2\<rparr>, br_peers := br_peers ?b @ infos, br_ipBlocks := br_ipBlocks ?b @ configs,
       br_reader := Reader_Running, br_writer := Writer_Pop\<rparr>, status_ok)"
    by (rule ex.Bridge_start_pending [OF assms(1) s(1,2) peers ack assms(4) ack s(5,3,4)])
  moreover have "Bridge_commitIp L b = Ret (?b, status_ok)"
    using k'(2) b(1) by (simp add: Bridge_commitIp_def)
  ultimately show thesis
    by (intro that [of ?b]) simp_all
qed

text \<open>The bridge after \<^verbatim>\<open>start\<close>: what it knows, and the client with all it has sent.\<close>

definition started_bridge :: "lib \<Rightarrow> go_env \<Rightarrow> env \<Rightarrow> string \<Rightarrow> nat \<Rightarrow> 'w bridge \<Rightarrow> 'w bridge" where
  "started_bridge L G E hn ram b = b\<lparr>
     br_client := (br_client b)\<lparr>c_state := STARTED, c_uri := ''unix:///tmp/sw-axi'', c_sock := e_socket E, c_in := [],
       c_out := \<lparr>wr_script = [], wr_sent = concat (map (\<lambda>m. frame (lib_encode L m)) (test_messages E))\<rparr>,
       c_open := e_socket E # c_open (br_client b)\<rparr>,
     br_routerInfo := Some \<lparr>si_name = ''router'', si_systemName = go_systemName G, si_pid = g_pid G, si_hostname = hn\<rparr>,
     br_peers := br_peers b @ [client_info E], br_ipBlocks := br_ipBlocks b @ [announced ram_block, announced master_block],
     br_slaveMap := [(0, Some ram)], br_masterMap := [(1, \<lparr>md_master = Some 1, md_txns = [], md_lastTxnId = 0\<rparr>)],
     br_reader := Reader_Running, br_writer := Writer_Pop\<rparr>"

text \<open>What \<^verbatim>\<open>main\<close> has printed by then.\<close>

definition test_printed :: "go_env \<Rightarrow> env \<Rightarrow> string \<Rightarrow> ostream \<Rightarrow> ostream" where
  "test_printed G E hn os = print_blocks [announced ram_block, announced master_block] (print_peers [client_info E]
     (print_router \<lparr>si_name = ''router'', si_systemName = go_systemName G, si_pid = g_pid G, si_hostname = hn\<rparr> os))"

lemma test_start_succeeds:
  assumes L: "codec L" and E: "e_socket E \<noteq> -1" "e_connect E (sun_path ''/tmp/sw-axi'')" "e_wr E = []"
    and arrives: "exactly (e_in E) (map (lib_encode L) (test_answers G E hn))"
    and b0: "b0 = new_Bridge ''02-sw-master-lite'' fds mem w"
  shows "test_start L E ram b0 os = Ret (started_bridge L G E hn ram b0, test_printed G E hn os, Some 1, status_ok)"
proof -
  let ?si = "\<lparr>si_name = ''router'', si_systemName = go_systemName G, si_pid = g_pid G, si_hostname = hn\<rparr>"
  let ?hello = "[client_SystemInfo E ''02-sw-master-lite'']"
  let ?ram = "?hello @ [registerIp_message ramConfig 1]"
  let ?master = "?ram @ [registerIp_message masterConfig 3]"
  let ?commit = "commit [client_info E] [ram_block, master_block]"
  obtain k1 where k1: "exactly k1 (map (lib_encode L) (ackIpInfo 0 # ackIpInfo 1 # ?commit))"
    "Bridge_connect L E ''unix:///tmp/sw-axi'' b0
      = Ret (b0\<lparr>br_client := linked L E fds CONNECTED ?hello k1, br_routerInfo := Some ?si\<rparr>, status_ok)"
    unfolding b0 by (rule Bridge_connect_linked [OF L E arrives [unfolded test_answers_def]])
  obtain k2 where k2: "exactly k2 (map (lib_encode L) (ackIpInfo 1 # ?commit))"
    "RouterClient_registerIp L ramConfig (linked L E fds CONNECTED ?hello k1) = Ret (linked L E fds CONNECTED ?ram k2, 0, status_ok)"
    by (rule Bridge_register_linked [OF L E(1) k1(1) wire_of_test_types(1)])
  obtain k3 where k3: "exactly k3 (map (lib_encode L) ?commit)"
    "RouterClient_registerIp L masterConfig (linked L E fds CONNECTED ?ram k2) = Ret (linked L E fds CONNECTED ?master k3, 1, status_ok)"
    by (rule Bridge_register_linked [OF L E(1) k2(1) wire_of_test_types(3)])
  define b3 where "b3 = b0\<lparr>br_client := linked L E fds CONNECTED ?master k3, br_routerInfo := Some ?si,
    br_slaveMap := [(0, Some ram)], br_masterMap := [(1, \<lparr>md_master = Some 1, md_txns = [], md_lastTxnId = 0\<rparr>)]\<rparr>"
  have b3: "br_client b3 = linked L E fds CONNECTED ?master k3" "br_reader b3 = Reader_Absent" "br_writer b3 = Writer_Absent"
    by (simp_all add: b3_def b0 new_Bridge_def)
  have blocks: "list_all2 announces_ip (map ip_message [ram_block, master_block]) [announced ram_block, announced master_block]"
    using announces_ip_of_message [of ram_block] announces_ip_of_message [of master_block]
    by (simp add: ram_block_def master_block_def)
  obtain b4 where b4: "Bridge_commitIp L b3 = Ret (b4, status_ok)" "Bridge_start L b4 = Ret (b3
      \<lparr>br_client := linked L E fds STARTED (?master @ [new_Message Type_COMMIT]) [], br_peers := br_peers b3 @ [client_info E],
       br_ipBlocks := br_ipBlocks b3 @ [announced ram_block, announced master_block],
       br_reader := Reader_Running, br_writer := Writer_Pop\<rparr>, status_ok)"
    by (rule Bridge_commit_linked [OF L E(1) k3(1) blocks b3])
  have "Bridge_start L b4 = Ret (started_bridge L G E hn ram b0, status_ok)"
    unfolding b4(2) by (simp add: b3_def started_bridge_def linked_def test_messages_def b0 new_Bridge_def new_RouterClient_def)
  moreover have "Bridge_registerSlave L (Some ram) ramConfig (b0\<lparr>br_client := linked L E fds CONNECTED ?hello k1, br_routerInfo := Some ?si\<rparr>)
      = Ret (b0\<lparr>br_client := linked L E fds CONNECTED ?ram k2, br_routerInfo := Some ?si, br_slaveMap := [(0, Some ram)]\<rparr>, status_ok)"
    using k2(2) by (simp add: Bridge_registerSlave_def Let_def b0 new_Bridge_def)
  moreover have "Bridge_registerMaster L ''Soft-Master'' (b0\<lparr>br_client := linked L E fds CONNECTED ?ram k2,
      br_routerInfo := Some ?si, br_slaveMap := [(0, Some ram)]\<rparr>) = Ret (b3, Some 1, status_ok)"
    using k3(2) by (simp add: Bridge_registerMaster_def Let_def b3_def b0 new_Bridge_def masterConfig_def
        set_masterMap_def masterMap_at_def new_MasterMd_def)
  ultimately show ?thesis
    using b4(1) by (simp add: test_start_def k1(2) Let_def Bridge_getRouterInfo_def Bridge_enumeratePeers_def
        Bridge_enumerateIp_def RouterClient_getState_def fetched_def)
      (simp add: started_bridge_def test_printed_def b0 new_Bridge_def)
qed

text \<open>And as text.\<close>

definition test_output :: "go_env \<Rightarrow> env \<Rightarrow> string \<Rightarrow> string" where
  "test_output G E hn =
     ''Connected to the router:'' @ [CHR 0x0A] @ ''Name:        router'' @ [CHR 0x0A]
     @ ''System Name: '' @ go_systemName G @ [CHR 0x0A]
     @ ''Pid:         '' @ to_string_nat (unat (g_pid G)) @ [CHR 0x0A] @ ''Hostname:    '' @ hn @ [CHR 0x0A] @ [CHR 0x0A]
     @ ''Peers: '' @ [CHR 0x0A] @ SystemInfo_line (client_info E) @ [CHR 0x0A]
     @ ''IP blocks:'' @ [CHR 0x0A] @ IpConfig_line (announced ram_block) @ IpConfig_line (announced master_block)"

lemma test_printed_out: "between_lines os \<Longrightarrow> os_out (test_printed G E hn os) = os_out os @ test_output G E hn"
  by (simp add: test_printed_def test_output_def print_lists_out print_router_out)

section \<open>What start leaves\<close>

lemma started_bridge_simps [simp]:
  "br_slaveMap (started_bridge L G E hn ram b) = [(0, Some ram)]"
  "br_masterMap (started_bridge L G E hn ram b) = [(1, \<lparr>md_master = Some 1, md_txns = [], md_lastTxnId = 0\<rparr>)]"
  "br_deleted (started_bridge L G E hn ram b) = br_deleted b" "br_futures (started_bridge L G E hn ram b) = br_futures b"
  "br_mem (started_bridge L G E hn ram b) = br_mem b" "br_world (started_bridge L G E hn ram b) = br_world b"
  "br_queue (started_bridge L G E hn ram b) = br_queue b" "br_writer (started_bridge L G E hn ram b) = Writer_Pop"
  "br_reader (started_bridge L G E hn ram b) = Reader_Running" "c_in (br_client (started_bridge L G E hn ram b)) = []"
  "c_state (br_client (started_bridge L G E hn ram b)) = STARTED" "c_sock (br_client (started_bridge L G E hn ram b)) = e_socket E"
  "wr_script (c_out (br_client (started_bridge L G E hn ram b))) = []"
  "wr_sent (c_out (br_client (started_bridge L G E hn ram b))) = concat (map (\<lambda>m. frame (lib_encode L m)) (test_messages E))"
  by (simp_all add: started_bridge_def)

lemma started_wired:
  assumes "codec L" "orders \<noteq> {}" "\<And>order m. order \<in> orders \<Longrightarrow> set (order m) = snd ` set m"
    and "\<And>w. wt_target w = 0 \<Longrightarrow> mutate 0 w = w" and "ram \<notin> set (br_deleted b)"
  shows "wired L orders mutate (ram_directory ram) (test_router info) (started_bridge L G E hn ram b)"
proof -
  have zero: "arrives_as mutate 0 0"
    using assms(4) by (simp add: arrives_as_def)
  have "case findTarget order a n (test_router info) of
          Inl err \<Rightarrow> ram_directory ram a n = Inl err
        | Inr (i, c) \<Rightarrow> c = 0
            \<and> (\<exists>k s. arrives_as mutate i k \<and> map_of [(0, Some ram)] k = Some (Some s)
                 \<and> s \<notin> set (br_deleted b) \<and> ram_directory ram a n = Inr s)" if "order \<in> orders" for order a n
    using zero assms(5)
    by (auto simp: findTarget_test_router [of order, OF assms(3) [OF that], of a n info ram] ram_directory_def)
  moreover have "length (r_clients (test_router info)) = 1"
    "\<forall>i. map_of (br_masterMap (started_bridge L G E hn ram b)) i \<noteq> None \<longrightarrow>
      unat i < length (r_ips (test_router info)) \<and> ii_client (r_ips (test_router info) ! unat i) = 0"
    by (simp_all add: test_router_def master_block_def)
  ultimately show ?thesis
    unfolding wired_def started_bridge_simps using assms(1,2) by blast
qed

lemma started_at_rest:
  assumes "wired L orders mutate D (test_router info) (started_bridge L G E hn ram b)" "e_socket E \<noteq> -1"
    and "br_futures b = []" "br_queue b = q_new" "t_router th = test_router info" "t_in th = [[]]" "length (t_out th) = 1"
    "t_readers th = [Reading]" "t_writers th = [Writer_Idle]" "t_route th = Route_Waiting" "\<not> t_exited th"
  shows "at_rest L orders mutate D \<lparr>sy_bridge = started_bridge L G E hn ram b, sy_router = th\<rparr>"
proof -
  have "at_work (started_bridge L G E hn ram b)"
    using assms(2,4) by (simp add: at_work_def writer_works_def q_new_def push_wakes_def)
  moreover have "fabric th [] []"
    using assms(6-11) by (simp add: fabric_def written_def passed_def offered_def)
  ultimately show ?thesis
    using assms by (simp add: at_rest_def ids_fresh_def q_new_def)
qed

lemma test_started_at_rest:
  assumes "codec L" "e_socket E \<noteq> -1"
    and "orders \<noteq> {}" "\<And>order m. order \<in> orders \<Longrightarrow> set (order m) = snd ` set m" "\<And>w. wt_target w = 0 \<Longrightarrow> mutate 0 w = w"
  shows "at_rest L orders mutate (ram_directory ram)
    \<lparr>sy_bridge = started_bridge L G E hn ram (new_Bridge ''02-sw-master-lite'' fds mem w),
     sy_router = (start_threads [[]] (test_router (client_info E)))\<lparr>t_out := [test_answers G E hn]\<rparr>\<rparr>"
proof (rule started_at_rest)
  show "wired L orders mutate (ram_directory ram) (test_router (client_info E))
      (started_bridge L G E hn ram (new_Bridge ''02-sw-master-lite'' fds mem w))"
    using assms(1,3-5) by (intro started_wired) (simp_all add: new_Bridge_def)
qed (use assms(2) in \<open>simp_all add: start_threads_def test_router_def new_Bridge_def\<close>)

section \<open>Property\<close>

text \<open>
  C9: the test program against the router, from both ends. The router of one client that is sent the four
  messages of the program gets to its goroutines; if what it has written then arrives, in whatever chunks, the
  calls of the program up to its enumerations of peers and IP blocks succeed, have sent exactly these four messages,
  and leave both processes
  at rest, with nothing left to read on either side; the program has printed the router's information, itself as the one
  peer, and its slave and its master. From there an address leads where \<open>ram_directory\<close> says, in
  whatever orders Go visits its map.
\<close>

theorem test_program_starts:
  assumes "codec L" "e_socket E \<noteq> -1" "e_connect E (sun_path ''/tmp/sw-axi'')" "e_wr E = []" "g_hostname G = Some hn"
    and "orders \<noteq> {}" "\<And>order m. order \<in> orders \<Longrightarrow> set (order m) = snd ` set m"
    and "\<And>w. wt_target w = 0 \<Longrightarrow> mutate 0 w = w"
  shows "\<exists>th. go_Run G [test_messages E] = Ret (Some th)
    \<and> (exactly (e_in E) (map (lib_encode L) (t_out th ! 0)) \<longrightarrow>
        (\<exists>b os'. test_start L E ram (new_Bridge ''02-sw-master-lite'' fds mem w) os = Ret (b, os', Some 1, status_ok)
           \<and> (between_lines os \<longrightarrow> os_out os' = os_out os @ test_output G E hn)
           \<and> wr_sent (c_out (br_client b)) = concat (map (\<lambda>m. frame (lib_encode L m)) (test_messages E))
           \<and> br_mem b = mem \<and> br_world b = w
           \<and> at_rest L orders mutate (ram_directory ram) \<lparr>sy_bridge = b, sy_router = th\<rparr>))"
proof -
  let ?new = "new_Bridge ''02-sw-master-lite'' fds mem w"
  let ?th = "(start_threads [[]] (test_router (client_info E)))\<lparr>t_out := [test_answers G E hn]\<rparr>"
  let ?b = "started_bridge L G E hn ram ?new"
  have started: "at_rest L orders mutate (ram_directory ram) \<lparr>sy_bridge = ?b, sy_router = ?th\<rparr>"
    using assms(1,2,6-8) by (rule test_started_at_rest)
  have user: "br_mem ?b = mem" "br_world ?b = w"
    "wr_sent (c_out (br_client ?b)) = concat (map (\<lambda>m. frame (lib_encode L m)) (test_messages E))"
    by (simp_all add: new_Bridge_def)
  have calls: "test_start L E ram ?new os = Ret (?b, test_printed G E hn os, Some 1, status_ok)"
    if "exactly (e_in E) (map (lib_encode L) (t_out ?th ! 0))"
  proof -
    have "exactly (e_in E) (map (lib_encode L) (test_answers G E hn))"
      using that by simp
    then show ?thesis
      by (rule test_start_succeeds [OF assms(1-4) _ refl])
  qed
  show ?thesis
    by (rule exI [of _ ?th], rule conjI, rule Run_test [OF assms(5)], rule impI, rule exI [of _ ?b],
        rule exI [of _ "test_printed G E hn os"])
      (intro conjI impI calls user started test_printed_out)
qed

section \<open>An instance\<close>

definition test_memory :: memory where
  "test_memory = [3 \<mapsto> hello, 4 \<mapsto> replicate 13 0]"

definition test_ram :: Ram where
  "test_ram = Ram_new 0x1000 0x2000 0x1000 (\<lambda>_. 0)"

definition test_env :: env where
  "test_env = (example_env [])\<lparr>e_in := example_messages (test_answers example_go_env (example_env []) ''host'')\<rparr>"

lemma test_env_simps [simp]:
  "e_socket test_env = 3" "e_connect test_env path" "e_wr test_env = []"
  "test_answers G test_env hn = test_answers G (example_env []) hn"
  by (simp_all add: test_env_def example_env_def test_answers_def client_info_def system_name_def)

lemma exactly_example_messages:
  assumes "\<forall>m \<in> set ms. length (enc_Message m) \<le> vector_max_size"
  shows "exactly (example_messages ms) (map (lib_encode example_lib) ms)"
proof -
  have "kbytes (one_chunk bs) = bs" "\<not> kfails (one_chunk bs)" for bs
    by (simp_all add: one_chunk_def split: list.split)
  then have "kbytes (example_messages ms) = concat (map frame (map (lib_encode example_lib) ms))" "\<not> kfails (example_messages ms)"
    by (simp_all add: example_messages_def example_lib_def comp_def)
  with framed_example_messages [OF assms] show ?thesis
    by (simp add: exactly_def)
qed

lemma test_answers_arrive:
  "exactly (e_in test_env) (map (lib_encode example_lib) (test_answers example_go_env (example_env []) ''host''))"
proof -
  have name: "go_systemName example_go_env = ''Linux Golang''"
    by (simp add: go_systemName_def toUpper_def example_go_env_def) code_simp
  have "\<forall>m \<in> set (test_answers example_go_env (example_env []) ''host''). length (enc_Message m) \<le> vector_max_size"
    by (simp add: test_answers_def router_info_message_def commit_def ackIpInfo_def ip_message_def system_info_message_def
        client_info_def system_name_def example_env_def example_go_env_def name [unfolded example_go_env_def]
        enc_sizes vector_max_size_def new_Message_def ram_block_def master_block_def)
  then show ?thesis
    using exactly_example_messages by (simp add: test_env_def)
qed

theorem test_program_starts_witness:
  "\<exists>th b os. go_Run example_go_env [test_messages test_env] = Ret (Some th)
    \<and> test_start example_lib test_env 9 (new_Bridge ''02-sw-master-lite'' [] test_memory test_ram) example_ostream
        = Ret (b, os, Some 1, status_ok)
    \<and> os_out os = test_output example_go_env test_env ''host''
    \<and> br_mem b = test_memory
    \<and> at_rest example_lib {map snd} mutate_present (ram_directory 9) \<lparr>sy_bridge = b, sy_router = th\<rparr>"
proof -
  have host: "g_hostname example_go_env = Some ''host''"
    by (simp add: example_go_env_def)
  obtain th where th: "go_Run example_go_env [test_messages test_env] = Ret (Some th)"
    and b: "exactly (e_in test_env) (map (lib_encode example_lib) (t_out th ! 0)) \<longrightarrow>
        (\<exists>b os. test_start example_lib test_env 9 (new_Bridge ''02-sw-master-lite'' [] test_memory test_ram) example_ostream
             = Ret (b, os, Some 1, status_ok)
           \<and> (between_lines example_ostream \<longrightarrow> os_out os = os_out example_ostream @ test_output example_go_env test_env ''host'')
           \<and> wr_sent (c_out (br_client b)) = concat (map (\<lambda>m. frame (lib_encode example_lib m)) (test_messages test_env))
           \<and> br_mem b = test_memory \<and> br_world b = test_ram
           \<and> at_rest example_lib {map snd} mutate_present (ram_directory 9) \<lparr>sy_bridge = b, sy_router = th\<rparr>)"
    using test_program_starts [OF codec_example_lib _ _ _ host, of test_env "{map snd}" mutate_present 9 "[]" test_memory test_ram
        example_ostream]
    by (auto simp: mutate_present_def)
  have "t_out th ! 0 = test_answers example_go_env (example_env []) ''host''"
    using th Run_test [OF host, of test_env] by auto
  moreover have "between_lines example_ostream" "os_out example_ostream = []"
    by (simp_all add: between_lines_def example_ostream_def)
  ultimately show ?thesis
    using b th test_answers_arrive by auto
qed

end
