(* ===== verification/Closed_Properties.thy ===== *)
theory Closed_Properties
  imports Closed_Simulation Test_Start
begin

text \<open>
  What the system of one bridge and its router does: it never fails, its calls are as if they were served one
  after the other, and when the calls stop it comes to rest with every future ready.
\<close>

section \<open>No thread waits for another for ever\<close>

lemma delivered_one_chunk: "length p \<le> vector_max_size \<Longrightarrow> delivered (one_chunk (frame p)) p"
proof -
  have "\<not> kfails (one_chunk bs)" for bs
    by (simp add: one_chunk_def split: list.split)
  then show "length p \<le> vector_max_size \<Longrightarrow> delivered (one_chunk (frame p)) p"
    by (simp add: delivered_def)
qed

lemma writer_enabled:
  assumes "\<not> writer_waits (sy_bridge s)" "system_sim L S orders mutate D s a"
  obtains s' where "thread_step L S orders mutate s s'"
proof -
  let ?b = "sy_bridge s"
  have alive: "br_writer ?b \<noteq> Writer_Absent" "br_writer ?b \<noteq> Writer_Exited"
    using assms(2) by (auto simp: system_sim_def at_work_def writer_works_def)
  obtain b' where b': "Bridge_writer L ?b = Ret b'"
    and "wr_sent (c_out (br_client b')) = wr_sent (c_out (br_client ?b))
     \<or> (\<exists>m. wr_sent (c_out (br_client b')) = wr_sent (c_out (br_client ?b)) @ frame (lib_encode L m))"
    using sim_writer [OF assms(2)] by (auto simp: writer_sim_def)
  then consider "wr_sent (c_out (br_client b')) = wr_sent (c_out (br_client ?b))"
    | m where "wr_sent (c_out (br_client b')) = wr_sent (c_out (br_client ?b)) @ frame (lib_encode L m)"
    by blast
  then show thesis
  proof cases
    case 1
    from Thr_writer [OF alive assms(1) b' 1] show thesis by (rule that)
  next
    case 2
    from Thr_writer_sends [OF alive assms(1) b' 2] show thesis by (rule that)
  qed
qed

lemma thread_enabled:
  assumes sim: "system_sim L S orders mutate D s a" and "ma_items a \<noteq> []"
    and short: "\<And>m. t_writers (sy_router s) ! 0 = Writing m \<Longrightarrow> length (lib_encode L m) \<le> vector_max_size"
  obtains s' where "thread_step L S orders mutate s s'"
proof -
  let ?b = "sy_bridge s" and ?r = "sy_router s"
  have w: "at_work ?b"
    using sim by (simp add: system_sim_def)
  obtain ms where ms: "exactly (c_in (br_client ?b)) (map (lib_encode L) ms)"
    "length (ma_items a) = length ms + (bridge_tokens ?b + router_tokens ?r)"
    using sim by (rule sim_tokens)
  obtain bwd fwd where "fabric ?r bwd fwd"
    using sim by (auto simp: system_sim_def ring_def)
  then obtain rd wr ins where r: "t_readers ?r = [rd]" "t_writers ?r = [wr]" "t_in ?r = [ins]" "length (t_out ?r) = 1"
      "rd \<noteq> Reader_Done" "wr \<noteq> Writer_Done" "\<not> t_exited ?r"
      "t_route ?r = Route_Waiting \<or> (\<exists>m. t_route ?r = Route_Sending [(0, m)] True)"
    unfolding fabric_def by blast
  have router: thesis if step: "go_step orders mutate ?r r'" "\<not> t_exited r'" "t_out r' = t_out ?r" for r'
    using \<open>\<And>s'. thread_step L S orders mutate s s' \<Longrightarrow> thesis\<close> Thr_router [OF step] by blast
  have "ms \<noteq> [] \<or> bridge_tokens ?b \<noteq> 0 \<or> router_tokens ?r \<noteq> 0"
    using ms(2) assms(2) by (cases "ma_items a") auto
  then consider (arrived) "ms \<noteq> []" | (writing) m where "wr = Writing m"
    | (sending) m where "wr = Writer_Idle" "t_route ?r = Route_Sending [(0, m)] True"
    | (offering) m where "rd = Offering m" "t_route ?r = Route_Waiting"
    | (reading) m ins' where "rd = Reading" "ins = m # ins'"
    | (bridge) "bridge_tokens ?b \<noteq> 0"
    using r by (cases wr; cases rd; cases ins) (auto simp: router_tokens_def written_def offered_def passed_def)
  then show thesis
  proof cases
    case arrived
    then have "c_in (br_client ?b) \<noteq> []"
      using ms(1) by (auto simp: exactly_def)
    moreover from sim this obtain b' where "Bridge_reader L S ?b = Ret b'"
      by (rule sim_reader)
    ultimately have "thread_step L S orders mutate s (s\<lparr>sy_bridge := b'\<rparr>)"
      using w by (intro Thr_reader) (simp_all add: at_work_def)
    then show ?thesis
      by (rule that)
  next
    case (writing m)
    let ?r' = "?r\<lparr>t_out := (t_out ?r)[0 := t_out ?r ! 0 @ [m]], t_writers := (t_writers ?r)[0 := after_write m]\<rparr>"
    have arrives: "delivered (one_chunk (frame (lib_encode L m))) (lib_encode L m)"
      using short [of m] writing r(2) by (intro delivered_one_chunk) simp
    have step: "go_step orders mutate ?r ?r'"
      using r(2,7) writing by (intro go_step.Write) simp_all
    have "t_out ?r' = (t_out ?r)[0 := t_out ?r ! 0 @ [m]]"
      by simp
    from Thr_router_sends [OF step this arrives] show ?thesis
      by (rule that)
  next
    case (sending m)
    let ?r' = "?r\<lparr>t_writers := (t_writers ?r)[unat (0 :: u64) := Writing m], t_route := after_round [] True\<rparr>"
    have "go_step orders mutate ?r ?r'"
      by (rule go_step.Send [OF r(7) sending(2)]) (simp_all add: r(2) sending(1))
    then show ?thesis
      by (rule router) (simp_all add: r(7))
  next
    case (offering m)
    have "t_readers ?r ! 0 = Offering m"
      by (simp add: r(1) offering(1))
    moreover obtain order where order: "order \<in> orders"
      using sim wiredD(7) by (fastforce simp: system_sim_def)
    ultimately obtain outs where outs: "route order mutate m (t_router ?r) = Ret (t_router ?r, outs, True)"
      using sim_router_lives [OF sim] by blast
    have "go_step orders mutate ?r (?r\<lparr>t_router := t_router ?r, t_readers := (t_readers ?r)[0 := Reading],
        t_route := after_round outs True\<rparr>)"
      by (rule go_step.Receive [OF r(7) offering(2) _ _ order outs]) (simp_all add: r(1) offering(1))
    then show ?thesis
      by (rule router) (simp_all add: r(7))
  next
    case (reading m ins')
    have "go_step orders mutate ?r (?r\<lparr>t_in := (t_in ?r)[0 := ins'], t_readers := (t_readers ?r)[0 := after_read m]\<rparr>)"
      by (rule go_step.Read [OF r(7)]) (simp_all add: r(1,3) reading)
    then show ?thesis
      by (rule router) (simp_all add: r(7))
  next
    case bridge
    show ?thesis
    proof (cases "writer_waits ?b")
      case False
      from this sim show ?thesis
        by (rule writer_enabled) (rule that)
    next
      case True
      then have "q_items (br_queue ?b) \<noteq> []"
        using bridge by (simp add: writer_waits_def bridge_tokens_def departing_def waiting_def)
      then have "0 < q_notify (br_queue ?b)"
        using True w by (simp add: at_work_def push_wakes_def writer_waits_def)
      from Thr_notify [OF this] show ?thesis
        by (rule that)
    qed
  qed
qed

text \<open>
  The messages are no longer than a vector can be, if the data and the texts they carry have a bounded length.
\<close>

definition short_frames :: "lib \<Rightarrow> nat \<Rightarrow> bool" where
  "short_frames L k \<longleftrightarrow> (\<forall>w. length (case wt_data w of None \<Rightarrow> [] | Some d \<Rightarrow> d)
       + length (case wt_message w of None \<Rightarrow> '''' | Some t \<Rightarrow> t) \<le> k \<longrightarrow>
     length (lib_encode L ((new_Message Type_TRANSACTION)\<lparr>wm_txn := Some w\<rparr>)) \<le> vector_max_size)"

text \<open>The second bound is the length of the message of a failed operation.\<close>

definition short_errors :: "directory \<Rightarrow> nat \<Rightarrow> bool" where
  "short_errors D k \<longleftrightarrow> (\<forall>a n err. D a n = Inl err \<longrightarrow> length err \<le> k) \<and> 22 \<le> k"

fun short_call :: "nat \<Rightarrow> call \<Rightarrow> bool" where
  "short_call k (Call p txn) \<longleftrightarrow> length (txn_data txn) + length (txn_message txn) \<le> k \<and> unat (txn_size txn) \<le> k"
| "short_call k (Store i bs) \<longleftrightarrow> True"

fun short_item :: "nat \<Rightarrow> item \<Rightarrow> bool" where
  "short_item k (Request p f txn) \<longleftrightarrow> short_call k (Call p txn)"
| "short_item k (Answer p f bytes st) \<longleftrightarrow> length bytes + length (st_msg st) \<le> k"

definition short_items :: "nat \<Rightarrow> 'w machine \<Rightarrow> bool" where
  "short_items k a \<longleftrightarrow> (\<forall>it \<in> set (ma_items a). short_item k it)"

lemma short_items_step:
  assumes "slaves_fill S" "short_errors D k" "machine_inv a" "short_items k a" "machine_step S D a l a'"
    and "\<And>c. l = Some c \<Longrightarrow> short_call k c"
  shows "short_items k a'"
proof (cases l)
  case None
  then have "ma_items a \<noteq> []" "machine_next S D a = Ret a'"
    using assms(5) by (simp_all add: machine_step_def)
  from assms(3) this show ?thesis
  proof (cases rule: machine_next_cases)
    case (serve p f txn "is" s ret data w)
    have ok: "request_ok (ma_mem a) p txn"
      using assms(3) serve(1) by (simp add: machine_inv_def)
    have "unat (txn_size txn) \<le> k"
      using assms(4) serve(1) by (simp add: short_items_def)
    then have "short_item k (Answer p f (result_bytes ret data) (result_status ret))"
      using handled_length(1,2) [OF assms(1) ok serve(3)] ok assms(2)
      by (auto simp: result_bytes_def result_status_def status_ok_def mk_status_def short_errors_def request_ok_def)
    then show ?thesis
      using assms(4) serve(1,4) by (simp add: short_items_def)
  qed (use assms(4) in \<open>auto simp: short_items_def\<close>)
next
  case (Some c)
  then show ?thesis
    using assms(4,5) assms(6) [OF Some] by (cases c) (auto simp: machine_step_def short_items_def)
qed

lemma returning_short:
  assumes L: "short_frames L k" and D: "short_errors D k" "wired L orders mutate D r b"
    and it: "returning orders mutate r (br_masterMap b) it m" "short_item k it"
  shows "length (lib_encode L m) \<le> vector_max_size"
proof (cases it)
  case (Answer p f bytes st)
  obtain resp ty where m: "m = Transaction_message resp ty" "tells_of resp bytes st"
    using it(1) Answer by auto
  then have "length (txn_data resp) + length (txn_message resp) \<le> k"
    using it(2) by (simp add: Answer tells_of_def)
  then show ?thesis
    using L by (simp add: m(1) Transaction_message_def short_frames_def)
next
  case (Request p f txn)
  have short: "length (txn_data txn) + length (txn_message txn) \<le> k"
    using it(2) by (simp add: Request)
  obtain n ty order where order: "order \<in> orders" and m: "case findTarget order (txn_address txn) (txn_size txn) r of
      Inl err \<Rightarrow> m = createErrorTxn (txn_initiator txn) n ty err
    | Inr (i, c) \<Rightarrow> \<exists>k. arrives_as mutate i k \<and> m = Transaction_message (txn\<lparr>txn_id := n, txn_target := k\<rparr>) ty"
    using it(1) Request by auto
  show ?thesis
  proof (cases "findTarget order (txn_address txn) (txn_size txn) r")
    case (Inl err)
    with order have "D (txn_address txn) (txn_size txn) = Inl err"
      by (rule wiredD(4) [OF D(2)])
    then have "length err \<le> k"
      using D(1) unfolding short_errors_def by blast
    then show ?thesis
      using L m by (simp add: Inl createErrorTxn_def short_frames_def)
  next
    case (Inr tc)
    then show ?thesis
      using L short m by (auto simp: Transaction_message_def short_frames_def split: prod.splits)
  qed
qed

lemma sim_short:
  assumes sim: "system_sim L S orders mutate D s a" and short: "short_frames L k" "short_errors D k" "short_items k a"
    and m: "t_writers (sy_router s) ! 0 = Writing m"
  shows "length (lib_encode L m) \<le> vector_max_size"
proof -
  obtain is1 is2 is3 ms bwd fwd where s: "wired L orders mutate D (t_router (sy_router s)) (sy_bridge s)"
    "ma_items a = is1 @ is2 @ is3" "fabric (sy_router s) bwd fwd"
    "list_all2 (returning orders mutate (t_router (sy_router s)) (br_masterMap (sy_bridge s))) is1 (ms @ bwd)"
    using sim by (rule system_simE)
  have "m \<in> set (ms @ bwd)"
    using s(3) m by (auto simp: fabric_def written_def)
  then obtain i where i: "i < length (ms @ bwd)" "m = (ms @ bwd) ! i"
    unfolding in_set_conv_nth by blast
  then have is1: "i < length is1" "returning orders mutate (t_router (sy_router s)) (br_masterMap (sy_bridge s)) (is1 ! i) m"
    using list_all2_nthD2 [OF s(4)] list_all2_lengthD [OF s(4)] by simp_all
  then have "is1 ! i \<in> set (ma_items a)"
    using s(2) by simp
  then have "short_item k (is1 ! i)"
    using short(3) by (simp add: short_items_def)
  then show ?thesis
    by (rule returning_short [OF short(1,2) s(1) is1(2)])
qed

text \<open>Runs of the threads are bounded, and where they end nothing is left in the ring.\<close>

lemma thread_run_sim:
  assumes "(thread_step L S orders mutate ^^ n) s s'" "system_sim L S orders mutate D s a"
  obtains a' where "(\<lambda>a a'. machine_step S D a None a')\<^sup>*\<^sup>* a a'" "system_sim L S orders mutate D s' a'" "n + work s' a' \<le> work s a"
  using assms
proof (induction n arbitrary: s' thesis)
  case 0
  then show ?case by auto
next
  case (Suc n)
  then obtain s1 where s1: "(thread_step L S orders mutate ^^ n) s s1" "thread_step L S orders mutate s1 s'"
    by auto
  obtain a1 where a1: "(\<lambda>a a'. machine_step S D a None a')\<^sup>*\<^sup>* a a1" "system_sim L S orders mutate D s1 a1" "n + work s1 a1 \<le> work s a"
    using Suc.IH s1(1) Suc.prems(3) by blast
  from a1(2) s1(2) obtain a' where a': "a' = a1 \<or> machine_step S D a1 None a'" "system_sim L S orders mutate D s' a'"
      "work s' a' < work s1 a1"
    by (rule sim_thread)
  from a'(1) a1(1) have "(\<lambda>a a'. machine_step S D a None a')\<^sup>*\<^sup>* a a'"
    by (auto intro: rtranclp.rtrancl_into_rtrancl)
  then show ?case
    using Suc.prems(1) a'(2,3) a1(3) by simp
qed

section \<open>From the system at rest\<close>

definition user_state :: "'w bridge \<Rightarrow> 'w shared" where
  "user_state b = (br_mem b, br_futures b, br_world b)"

definition empty_machine :: "'w bridge \<Rightarrow> 'w machine" where
  "empty_machine b = \<lparr>ma_items = [], ma_mem = br_mem b, ma_futures = br_futures b, ma_world = br_world b\<rparr>"

lemma at_rest_sim:
  assumes "slaves_fill S" "at_rest L orders mutate D s"
  shows "system_sim L S orders mutate D s (empty_machine (sy_bridge s))"
proof -
  have "machine_inv (empty_machine (sy_bridge s))"
    using assms(2) unfolding at_rest_def machine_inv_def empty_machine_def by (auto dest: nth_mem)
  moreover have "same_user (sy_bridge s) (empty_machine (sy_bridge s))"
    by (simp add: same_user_def empty_machine_def)
  ultimately show ?thesis
    using assms unfolding at_rest_def
    by (intro system_simI [where ?is1.0 = "[]" and ?is2.0 = "[]" and ?is3.0 = "[]" and ms = "[]" and bwd = "[]" and fwd = "[]"])
      (simp_all add: empty_machine_def waiting_def departing_def)
qed

lemma system_run_sim:
  assumes "slaves_fill S" "at_rest L orders mutate D s0" "system_run L S orders mutate s0 cs s"
  obtains a where "labelled_run (machine_step S D) (empty_machine (sy_bridge s0)) cs a" "system_sim L S orders mutate D s a"
  using sy.simulated [OF assms(3) at_rest_sim [OF assms(1,2)]] by blast

lemma machine_run_short:
  assumes "labelled_run (machine_step S D) a0 cs a" "slaves_fill S" "short_errors D k"
    and "machine_inv a0" "short_items k a0" "\<forall>c \<in> set cs. short_call k c"
  shows "machine_inv a \<and> short_items k a"
  using assms
proof (induction rule: labelled_run.induct)
  case (Run_internal cs a1 a2)
  then have inv: "machine_inv a1" "short_items k a1" by simp_all
  have "machine_inv a2"
    using Run_internal.hyps(2) Run_internal.prems(1) inv(1) by (auto simp: machine_step_def intro: machine_next_inv)
  then show ?case
    using short_items_step [OF Run_internal.prems(1,2) inv Run_internal.hyps(2)] by simp
next
  case (Run_call cs a1 c a2)
  then have inv: "machine_inv a1" "short_items k a1" by simp_all
  have "machine_inv a2"
    using Run_call.hyps(2) inv(1) by (auto simp: machine_step_def intro: machine_call_inv)
  then show ?case
    using short_items_step [OF Run_call.prems(1,2) inv Run_call.hyps(2)] Run_call.prems(5) by simp
qed simp

text \<open>The threads make at most \<open>work\<close> steps, and where they have made them all nothing is pending.\<close>

lemma threads_end:
  assumes S: "slaves_fill S" and rest: "at_rest L orders mutate D s0"
    and run: "system_run L S orders mutate s0 cs s"
    and short: "short_frames L k" "short_errors D k" "\<forall>c \<in> set cs. short_call k c"
  obtains N where "\<And>n s'. (thread_step L S orders mutate ^^ n) s s' \<Longrightarrow> n \<le> N"
    "\<And>n s'. (thread_step L S orders mutate ^^ n) s s' \<Longrightarrow> \<nexists>s''. thread_step L S orders mutate s' s'' \<Longrightarrow>
       Pending \<notin> set (br_futures (sy_bridge s'))"
proof -
  obtain a where a: "labelled_run (machine_step S D) (empty_machine (sy_bridge s0)) cs a"
      "system_sim L S orders mutate D s a"
    using S rest run by (rule system_run_sim)
  have start: "machine_inv (empty_machine (sy_bridge s0))" "short_items k (empty_machine (sy_bridge s0))"
    using at_rest_sim [OF S rest] by (simp_all add: system_sim_def short_items_def empty_machine_def)
  show ?thesis
  proof (rule that [of "work s a"])
    fix n s'
    assume run': "(thread_step L S orders mutate ^^ n) s s'"
    from run' a(2) obtain a' where a': "(\<lambda>a a'. machine_step S D a None a')\<^sup>*\<^sup>* a a'"
        "system_sim L S orders mutate D s' a'" "n + work s' a' \<le> work s a"
      by (rule thread_run_sim)
    show "n \<le> work s a"
      using a'(3) by simp
    assume stuck: "\<nexists>s''. thread_step L S orders mutate s' s''"
    have "short_items k a'"
      using machine_run_short [OF labelled_run_internal [OF a'(1) a(1)] S short(2) start short(3)] by simp
    note short' = sim_short [OF a'(2) short(1,2) this]
    show "Pending \<notin> set (br_futures (sy_bridge s'))"
    proof
      assume "Pending \<in> set (br_futures (sy_bridge s'))"
      then have "ma_items a' \<noteq> []"
        using a'(2) by (auto simp: system_sim_def machine_inv_def same_user_def in_set_conv_nth)
      from a'(2) this short' obtain s'' where "thread_step L S orders mutate s' s''"
        by (rule thread_enabled)
      with stuck show False by blast
    qed
  qed
qed

text \<open>So the calls of every run can complete.\<close>

lemma bounded_relpowp_stuck:
  assumes "\<And>n y. (R ^^ n) x y \<Longrightarrow> n \<le> N"
  obtains n y where "(R ^^ n) x y" "\<nexists>z. R y z"
proof -
  have "\<exists>n y. (R ^^ n) x y \<and> (\<nexists>z. R y z)" if "(R ^^ m) x y" for m y
    using that
  proof (induction "N - m" arbitrary: m y)
    case 0
    have "\<nexists>z. R y z"
    proof
      assume "\<exists>z. R y z"
      then obtain z where "(R ^^ Suc m) x z"
        using 0(2) by (auto intro: relcomppI)
      from assms [OF this] 0(1) show False by simp
    qed
    then show ?case
      using 0(2) by blast
  next
    case (Suc j)
    show ?case
    proof (cases "\<exists>z. R y z")
      case True
      then obtain z where "(R ^^ Suc m) x z"
        using Suc.prems by (auto intro: relcomppI)
      then show ?thesis
        using Suc.hyps(1) [of "Suc m" z] Suc.hyps(2) by simp
    qed (use Suc.prems in blast)
  qed
  from this [of 0 x] show ?thesis
    using that by auto
qed

lemma system_run_threads:
  "(thread_step L S orders mutate ^^ n) s s' \<Longrightarrow> system_run L S orders mutate s0 cs s \<Longrightarrow>
   system_run L S orders mutate s0 cs s'"
  by (rule labelled_run_internal [OF rtranclp_mono [THEN predicate2D, OF _ relpowp_imp_rtranclp]])
    (auto intro: Sys_thread)

lemma calls_can_complete:
  assumes "slaves_fill S" "at_rest L orders mutate D s0" "system_run L S orders mutate s0 cs s"
    and "short_frames L k" "short_errors D k" "\<forall>c \<in> set cs. short_call k c"
  obtains s' where "system_run L S orders mutate s0 cs s'" "Pending \<notin> set (br_futures (sy_bridge s'))"
proof -
  from assms obtain N where N: "\<And>n s'. (thread_step L S orders mutate ^^ n) s s' \<Longrightarrow> n \<le> N"
    "\<And>n s'. (thread_step L S orders mutate ^^ n) s s' \<Longrightarrow> \<nexists>s''. thread_step L S orders mutate s' s'' \<Longrightarrow>
       Pending \<notin> set (br_futures (sy_bridge s'))"
    by (rule threads_end) blast
  obtain n s' where "(thread_step L S orders mutate ^^ n) s s'" "\<nexists>s''. thread_step L S orders mutate s' s''"
    using N(1) by (rule bounded_relpowp_stuck)
  then show ?thesis
    using that [OF system_run_threads [OF _ assms(3)]] N(2) by blast
qed

text \<open>Where nothing is pending, the machine has done what the atomic service does.\<close>

lemma run_as_if_atomic:
  assumes "slaves_fill S" "at_rest L orders mutate D s0" "system_run L S orders mutate s0 cs s"
    and "Pending \<notin> set (br_futures (sy_bridge s))"
  shows "user_state (sy_bridge s) = fold (atomic S D) cs (user_state (sy_bridge s0))"
proof -
  obtain a where a: "labelled_run (machine_step S D) (empty_machine (sy_bridge s0)) cs a"
      "system_sim L S orders mutate D s a"
    using assms(1-3) by (rule system_run_sim)
  have "machine_inv (empty_machine (sy_bridge s0))"
    using at_rest_sim [OF assms(1,2)] by (simp add: system_sim_def)
  then have "serves_atomically S D (empty_machine (sy_bridge s0)) (user_state (sy_bridge s0))"
    using assms(1) by (simp add: serves_atomically_def drained_def empty_machine_def user_state_def)
  from ma.simulated [OF a(1) this] obtain x where
    x: "labelled_run (atomic_step S D) (user_state (sy_bridge s0)) cs x" "serves_atomically S D a x"
    by blast
  have "same_user (sy_bridge s) a"
    using a(2) by (simp add: system_sim_def)
  then have same: "user_state (sy_bridge s) = (ma_mem a, ma_futures a, ma_world a)" "ma_futures a = br_futures (sy_bridge s)"
    by (simp_all add: user_state_def same_user_def)
  have "user_state (sy_bridge s) = x"
    using drained_quiet(2) [of a S D] x(2) assms(4) same by (simp add: serves_atomically_def)
  then show ?thesis
    using x(1) by (simp add: atomic_run)
qed

section \<open>The test program in this system\<close>

lemma atomic_request:
  assumes "D (txn_address txn) (txn_size txn) = Inr obj"
  shows "atomic S D (Call p txn) (mem, fs, w) = (case handled S obj txn w of (ret, data, w') \<Rightarrow>
    (stored mem p (result_bytes ret data), fs @ [Ready (result_status ret)], w'))"
  by (simp add: assms)

lemma atomic_write:
  assumes D: "D (bf_address buffer) (bf_size buffer) = Inr obj"
    and w: "Ram_handleWrite (bf_size buffer) (bf_address buffer) bytes ram = Ret (0, ram')"
  shows "atomic ram_slaves D (write_call m buffer bytes) (mem, fs, ram) = (mem, fs @ [Ready status_ok], ram')"
proof -
  have "handled ram_slaves obj ((new_Transaction True)\<lparr>txn_type := WRITE_REQ, txn_initiator := m,
      txn_address := bf_address buffer, txn_size := bf_size buffer, txn_data := bytes\<rparr>) ram = (0, [], ram')"
    by (simp add: handled_def ram_slaves_def w)
  then show ?thesis
    using D unfolding write_call_def by (subst atomic_request [of _ _ obj]) (simp_all add: result_bytes_def result_status_def)
qed

lemma atomic_read:
  assumes D: "D (bf_address buffer) (bf_size buffer) = Inr obj"
    and r: "Ram_handleRead (bf_size buffer) (bf_address buffer) (replicate (unat (bf_size buffer)) 0) ram = Ret (0, bytes, ram)"
  shows "atomic ram_slaves D (read_call m buffer) (mem, fs, ram)
    = (stored mem (bf_data buffer) bytes, fs @ [Ready status_ok], ram)"
proof -
  have "handled ram_slaves obj ((new_Transaction True)\<lparr>txn_type := READ_REQ, txn_initiator := m,
      txn_address := bf_address buffer, txn_size := bf_size buffer\<rparr>) ram = (0, bytes, ram)"
    by (simp add: handled_def ram_slaves_def r)
  then show ?thesis
    using D unfolding read_call_def by (subst atomic_request [of _ _ obj]) (simp_all add: result_bytes_def result_status_def)
qed

text \<open>The two calls of the test.\<close>

lemma test_calls_atomic:
  assumes slave: "D 0x1000 13 = Inr obj" "in_ram 0x1000 13 ram" and array: "mem r = Some bs" "length bs = 13"
  obtains ram' where "fold (atomic ram_slaves D) [write_call m (write_buffer w) hello, read_call m (read_buffer r)] (mem, fs, ram)
      = (mem(r \<mapsto> hello), fs @ [Ready status_ok, Ready status_ok], ram')"
    "ram_data ram' = overwrite (unat (0x1000 - ram_addr ram)) hello (ram_data ram)"
proof -
  obtain ram' where ram: "Ram_handleWrite 13 0x1000 hello ram = Ret (0, ram')"
      "Ram_handleRead 13 0x1000 (replicate 13 0) ram' = Ret (0, hello, ram')"
      "ram_data ram' = overwrite (unat (0x1000 - ram_addr ram)) hello (ram_data ram)"
    by (rule Ram_write_read [where address = "0x1000" and bytes = hello and r = ram and sz = 13
        and buf = "replicate 13 0"]) (use slave(2) in simp_all)
  have "stored mem (Some r) hello = mem(r \<mapsto> hello)"
    using array by (simp add: stored_def store_bytes_def overwrite_def hello_def)
  with ram(3) show thesis
    using slave(1) ram(1,2) by (intro that [of ram']) (simp_all add: atomic_write [of _ _ obj] atomic_read [of _ _ obj])
qed

section \<open>An instance\<close>

text \<open>
  The program of the test and its router after \<^verbatim>\<open>start\<close>: the slave has the number 9 in the program's memory, and
  its uninitialised member happens to hold its address.
\<close>

definition test_bridge :: "Ram bridge" where
  "test_bridge = started_bridge example_lib example_go_env test_env ''host'' 9
     (new_Bridge ''02-sw-master-lite'' [] test_memory test_ram)"

definition test_system :: "Ram system" where
  "test_system = \<lparr>sy_bridge = test_bridge, sy_router = (start_threads [[]] (test_router (client_info test_env)))
     \<lparr>t_out := [test_answers example_go_env test_env ''host'']\<rparr>\<rparr>"

lemma test_bridge_simps [simp]:
  "br_masterMap test_bridge = [(1, \<lparr>md_master = Some 1, md_txns = [], md_lastTxnId = 0\<rparr>)]"
  "br_futures test_bridge = []" "br_mem test_bridge = test_memory" "br_world test_bridge = test_ram"
  by (simp_all add: test_bridge_def new_Bridge_def)

lemma test_at_rest: "at_rest example_lib {map snd} mutate_present (ram_directory 9) test_system"
  unfolding test_system_def test_bridge_def
proof (rule started_at_rest)
  show "wired example_lib {map snd} mutate_present (ram_directory 9) (test_router (client_info test_env))
      (started_bridge example_lib example_go_env test_env ''host'' 9
        (new_Bridge ''02-sw-master-lite'' [] test_memory test_ram))"
    using codec_example_lib by (rule started_wired) (simp_all add: mutate_present_def new_Bridge_def)
qed (simp_all add: start_threads_def test_router_def new_Bridge_def)

lemma length_ram_directory: "ram_directory ram a n = Inl err \<Longrightarrow> length err \<le> 99"
proof -
  have "unat a < 16 ^ Suc 15"
    using unsigned_less [of a] by simp
  then have "length (numeral_string 16 (unat a)) \<le> 16"
    using length_numeral_string [of 16 "unat a" 15] by simp
  then have "length (zero_pad 16 (numeral_string 16 (unat a))) = 16"
    by (rule length_zero_pad)
  then show "ram_directory ram a n = Inl err \<Longrightarrow> length err \<le> 99"
    by (auto simp: ram_directory_def split: if_splits)
qed

lemma test_short: "short_frames example_lib 99" "short_errors (ram_directory 9) 99"
proof -
  have "length (enc_Message ((new_Message Type_TRANSACTION)\<lparr>wm_txn := Some w\<rparr>)) \<le> vector_max_size"
    if "length (case wt_data w of None \<Rightarrow> [] | Some d \<Rightarrow> d) + length (case wt_message w of None \<Rightarrow> '''' | Some t \<Rightarrow> t) \<le> 99" for w
    using that by (cases "wt_data w"; cases "wt_message w") (simp_all add: enc_sizes new_Message_def vector_max_size_def)
  then show "short_frames example_lib 99"
    unfolding short_frames_def lib_encode_example by blast
  show "short_errors (ram_directory 9) 99"
    using length_ram_directory by (auto simp: short_errors_def)
qed

text \<open>The state after the two calls, with both requests in the queue.\<close>

definition test_calls :: "call list" where
  "test_calls = [write_call 1 (write_buffer 3) hello, read_call 1 (read_buffer 4)]"

definition test_called :: "Ram system" where
  "test_called = (case Master_write 1 (write_buffer 3) test_bridge of
     Ret (b, f) \<Rightarrow> test_system\<lparr>sy_bridge := fst (Master_read 1 (read_buffer 4) b)\<rparr> | _ \<Rightarrow> test_system)"

lemma test_short_calls: "\<forall>c \<in> set test_calls. short_call 99 c"
  by (simp add: test_calls_def write_call_def read_call_def new_Transaction_def)

lemma test_run_called: "system_run example_lib ram_slaves {map snd} mutate_present test_system test_calls test_called"
proof -
  have load: "load_bytes test_memory (Some 3) 13 = Ret hello"
    by (simp add: load_bytes_def test_memory_def)
  have "\<exists>b f. Master_write 1 (write_buffer 3) test_bridge = Ret (b, f)"
    by (simp add: Master_write_def load vector_max_size_def get_future_def Let_def)
  then obtain b f where w: "Master_write 1 (write_buffer 3) test_bridge = Ret (b, f)" by blast
  then have b: "br_futures b = [Pending]" "br_mem b = test_memory" "br_masterMap b = br_masterMap test_bridge"
    by (auto simp: Master_write_def load vector_max_size_def get_future_def Let_def push_txn_def)
  obtain b' f' where r: "Master_read 1 (read_buffer 4) b = (b', f')"
    by fastforce
  have "system_run example_lib ram_slaves {map snd} mutate_present test_system ([] @ [write_call 1 (write_buffer 3) hello])
      (test_system\<lparr>sy_bridge := b\<rparr>)"
    by (rule Run_call [OF Run_none], rule Sys_write) (use w load in \<open>simp_all add: test_system_def\<close>)
  then have "system_run example_lib ram_slaves {map snd} mutate_present test_system
      (([] @ [write_call 1 (write_buffer 3) hello]) @ [read_call 1 (read_buffer 4)]) (test_system\<lparr>sy_bridge := b, sy_bridge := b'\<rparr>)"
    by (rule Run_call, intro Sys_read)
      (use r b in \<open>simp_all add: fits_def test_memory_def vector_max_size_def\<close>)
  then show ?thesis
    by (simp add: test_calls_def test_called_def w r)
qed

lemma test_run_quiet:
  obtains s where "system_run example_lib ram_slaves {map snd} mutate_present test_system test_calls s"
    "Pending \<notin> set (br_futures (sy_bridge s))"
  using slaves_fill_ram test_at_rest test_run_called test_short test_short_calls by (rule calls_can_complete)

section \<open>Properties\<close>

text \<open>
  C1: one bridge and its router, with all their threads, the queue, the sockets and the spurious wake-ups,
  implement the atomic service, over a connection that takes every byte and where they are wired for it
  (\<open>wired\<close>): the bridge is the only client, and a request for which the router finds a block arrives with the
  number of a slave of the bridge. With the generated \<^verbatim>\<open>MutateTarget\<close> that number is 0 whatever the block, so number 0 must be a slave, and it serves the
  requests for all blocks. Then in every run from rest with any calls of read and write (and stores to
  buffers that are not lent), whenever no future is pending, the
  memory of the user, the statuses of all futures and the state behind the slaves are exactly what serving
  the calls one at a time, each completely and in the order they were made, would have left.
\<close>

theorem calls_as_if_atomic:
  assumes "slaves_fill S" "at_rest L orders mutate D s0" "system_run L S orders mutate s0 cs s"
    and "Pending \<notin> set (br_futures (sy_bridge s))"
  shows "user_state (sy_bridge s) = fold (atomic S D) cs (user_state (sy_bridge s0))"
  using assms by (rule run_as_if_atomic)

theorem calls_as_if_atomic_witness:
  "\<exists>s. system_run example_lib ram_slaves {map snd} mutate_present test_system test_calls s
    \<and> user_state (sy_bridge s) = fold (atomic ram_slaves (ram_directory 9)) test_calls (test_memory, [], test_ram)"
proof -
  obtain s where s: "system_run example_lib ram_slaves {map snd} mutate_present test_system test_calls s"
    "Pending \<notin> set (br_futures (sy_bridge s))"
    by (rule test_run_quiet)
  from calls_as_if_atomic [OF slaves_fill_ram test_at_rest s] s(1) show ?thesis
    by (auto simp: user_state_def test_system_def)
qed

text \<open>
  C3: where the bridge and the router are wired as for C1 (every request that is found arrives for a slave of the
  bridge, for number 0 that is), nothing fails in a run of reads and writes. In every state of every such run the
  router is alive and its routing loop can route what
  it is offered, both threads of the bridge are at work, what has arrived is read without an error and the
  writer's next step succeeds; in particular no transaction is for an unknown master, request or slave, and no
  store or null reference faults.
\<close>

theorem system_never_fails:
  assumes "slaves_fill S" "at_rest L orders mutate D s0" "system_run L S orders mutate s0 cs s"
  shows "\<not> t_exited (sy_router s) \<and> br_reader (sy_bridge s) = Reader_Running \<and> writer_works (br_writer (sy_bridge s))
    \<and> (c_in (br_client (sy_bridge s)) \<noteq> [] \<longrightarrow> (\<exists>b. Bridge_reader L S (sy_bridge s) = Ret b \<and> br_reader b = Reader_Running))
    \<and> (\<exists>b. Bridge_writer L (sy_bridge s) = Ret b \<and> writer_works (br_writer b))
    \<and> (\<forall>m. t_readers (sy_router s) ! 0 = Offering m \<longrightarrow>
         (\<forall>order \<in> orders. \<exists>outs. route order mutate m (t_router (sy_router s)) = Ret (t_router (sy_router s), outs, True)))"
proof -
  obtain a where a: "system_sim L S orders mutate D s a"
    using assms by (rule system_run_sim)
  have works: "br_reader (sy_bridge s') = Reader_Running" "writer_works (br_writer (sy_bridge s'))"
    if "system_sim L S orders mutate D s' a'" for s' a'
    using that by (simp_all add: system_sim_def at_work_def)
  show ?thesis
  proof (intro conjI impI allI ballI)
    show "\<not> t_exited (sy_router s)"
      using a by (auto simp: system_sim_def ring_def fabric_def)
    show "br_reader (sy_bridge s) = Reader_Running" "writer_works (br_writer (sy_bridge s))"
      using a by (rule works)+
    show "\<exists>b. Bridge_reader L S (sy_bridge s) = Ret b \<and> br_reader b = Reader_Running"
      if "c_in (br_client (sy_bridge s)) \<noteq> []"
    proof -
      from a that obtain b' a' where b': "Bridge_reader L S (sy_bridge s) = Ret b'"
          "system_sim L S orders mutate D (s\<lparr>sy_bridge := b'\<rparr>) a'"
        by (rule sim_reader)
      with works(1) [OF b'(2)] show ?thesis by simp
    qed
    obtain b' where b': "Bridge_writer L (sy_bridge s) = Ret b'"
      and "(\<exists>r. system_sim L S orders mutate D (s\<lparr>sy_bridge := b', sy_router := r\<rparr>) a)
         \<or> system_sim L S orders mutate D (s\<lparr>sy_bridge := b'\<rparr>) a"
      using sim_writer [OF a] unfolding writer_sim_def by blast
    then have "writer_works (br_writer b')"
      by (auto dest: works(2))
    with b' show "\<exists>b. Bridge_writer L (sy_bridge s) = Ret b \<and> writer_works (br_writer b)" by blast
    show "\<exists>outs. route order mutate m (t_router (sy_router s)) = Ret (t_router (sy_router s), outs, True)"
      if "t_readers (sy_router s) ! 0 = Offering m" "order \<in> orders" for m order
      using a that by (rule sim_router_lives) blast
  qed
qed

theorem system_never_fails_witness:
  "\<not> t_exited (sy_router test_called)
    \<and> (\<exists>b. Bridge_writer example_lib (sy_bridge test_called) = Ret b \<and> writer_works (br_writer b))"
  using system_never_fails [OF slaves_fill_ram test_at_rest test_run_called] by blast

text \<open>
  C2: when the calls stop the system comes to rest, whatever the scheduler does. From every state of such a run
  there is a bound on the number of steps the threads can still make (without spurious wake-ups), and where no
  thread can make a step no future is pending: no wake-up is lost, no two threads wait for each other, and no
  request or response is dropped. This holds where the bridge and the router are wired as for C1 (the bridge
  has a slave for the number with which the requests arrive; if it does not, the future stays pending, as
  \<open>read_of_later_slave\<close> shows), and for buffers and error texts that are short enough that no encoded message is longer than a
  vector can be.
\<close>

theorem system_comes_to_rest:
  assumes S: "slaves_fill S" and rest: "at_rest L orders mutate D s0"
    and run: "system_run L S orders mutate s0 cs s"
    and short: "short_frames L k" "short_errors D k" "\<forall>c \<in> set cs. short_call k c"
  shows "\<exists>N. \<forall>n s'. (thread_step L S orders mutate ^^ n) s s' \<longrightarrow>
    n \<le> N \<and> ((\<nexists>s''. thread_step L S orders mutate s' s'') \<longrightarrow> Pending \<notin> set (br_futures (sy_bridge s')))"
proof -
  from assms obtain N where "\<And>n s'. (thread_step L S orders mutate ^^ n) s s' \<Longrightarrow> n \<le> N"
    "\<And>n s'. (thread_step L S orders mutate ^^ n) s s' \<Longrightarrow> \<nexists>s''. thread_step L S orders mutate s' s'' \<Longrightarrow>
       Pending \<notin> set (br_futures (sy_bridge s'))"
    by (rule threads_end) blast
  then show ?thesis by blast
qed

theorem system_comes_to_rest_witness:
  "\<exists>N. \<forall>n s'. (thread_step example_lib ram_slaves {map snd} mutate_present ^^ n) test_called s' \<longrightarrow>
    n \<le> N \<and> ((\<nexists>s''. thread_step example_lib ram_slaves {map snd} mutate_present s' s'') \<longrightarrow>
      Pending \<notin> set (br_futures (sy_bridge s')))"
  using system_comes_to_rest [OF slaves_fill_ram test_at_rest test_run_called test_short test_short_calls] .

text \<open>
  C10: the test program \<^verbatim>\<open>tests/02-sw-master-lite\<close> reads what it has written. From rest it starts a write and a read of the same
  address, which leads to its slave, the read before the write has completed, and then waits for both: in every
  interleaving of all threads both futures are OK when they are ready, the array of the read holds the text,
  and besides that array and the bytes of the slave nothing in memory has changed; provided the uninitialised
  member of the slave puts the access in bounds.
\<close>

theorem test_program_matches:
  assumes "at_rest L orders mutate D s0"
    and "system_run L ram_slaves orders mutate s0 [write_call m (write_buffer w) hello, read_call m (read_buffer r)] s"
    and "Pending \<notin> set (br_futures (sy_bridge s))"
    and slave: "D 0x1000 13 = Inr obj" "in_ram 0x1000 13 (br_world (sy_bridge s0))"
    and array: "br_mem (sy_bridge s0) r = Some bs" "length bs = 13"
  shows "br_futures (sy_bridge s) = br_futures (sy_bridge s0) @ [Ready status_ok, Ready status_ok]
    \<and> br_mem (sy_bridge s) = (br_mem (sy_bridge s0))(r \<mapsto> hello)
    \<and> ram_data (br_world (sy_bridge s)) = overwrite (unat (0x1000 - ram_addr (br_world (sy_bridge s0)))) hello
        (ram_data (br_world (sy_bridge s0)))"
proof -
  obtain ram' where "fold (atomic ram_slaves D) [write_call m (write_buffer w) hello, read_call m (read_buffer r)]
      (user_state (sy_bridge s0))
      = ((br_mem (sy_bridge s0))(r \<mapsto> hello), br_futures (sy_bridge s0) @ [Ready status_ok, Ready status_ok], ram')"
    "ram_data ram' = overwrite (unat (0x1000 - ram_addr (br_world (sy_bridge s0)))) hello (ram_data (br_world (sy_bridge s0)))"
    unfolding user_state_def using slave array by (rule test_calls_atomic)
  with run_as_if_atomic [OF slaves_fill_ram assms(1-3)] show ?thesis
    by (simp add: user_state_def)
qed

theorem test_program_matches_witness:
  "\<exists>s. system_run example_lib ram_slaves {map snd} mutate_present test_system test_calls s
    \<and> br_futures (sy_bridge s) = [Ready status_ok, Ready status_ok] \<and> br_mem (sy_bridge s) 4 = Some hello"
proof -
  obtain s where s: "system_run example_lib ram_slaves {map snd} mutate_present test_system test_calls s"
    "Pending \<notin> set (br_futures (sy_bridge s))"
    by (rule test_run_quiet)
  have "ram_directory 9 0x1000 13 = Inr 9"
    by (simp add: ram_directory_def)
  moreover have "in_ram 0x1000 13 (br_world (sy_bridge test_system))"
    by (simp add: in_ram_def test_system_def test_ram_def Ram_new_def)
  moreover have "br_mem (sy_bridge test_system) 4 = Some (replicate 13 0)"
    by (simp add: test_system_def test_memory_def)
  ultimately show ?thesis
    using test_program_matches [OF test_at_rest s(1) [unfolded test_calls_def] s(2)] s(1)
    by (fastforce simp: test_system_def)
qed

end
