(* ===== verification/Session_Machine.thy ===== *)
theory Session_Machine
  imports Sync_Queue
begin

text \<open>
  The end of a session as a small machine: one message goes round, the TERMINATE of the last master out and the
  DONE of the router back, and the writer of the bridge goes to sleep and is woken beside it. The machine is
  what \<open>Session_End\<close> shows the system of the bridge and its router to be.
\<close>

section \<open>The machine\<close>

text \<open>
  Where the message is, or what it has brought about: the element in the queue, in the writer's hands, the
  message in the router's socket, at its routing loop; DONE passed on by the loop, at the router's writer, in the
  bridge's socket; then the bridge's reader has stopped, its writer is about to log out, has logged out, and the
  router's reader has seen that. If another master is left, the router has ended itself instead.
\<close>

datatype stage = At_queue | At_writer | At_router | At_loop | Done_passed | Done_writing | Done_arrived
  | Reader_stopped | Logging_out | Logged_out | Session_over | Router_killed

text \<open>With it goes where the writer stands in \<^verbatim>\<open>pop\<close> and how many notifications are still to come.\<close>

type_synonym config = "stage \<times> popper \<times> nat"

text \<open>In these stages the writer finds the queue empty.\<close>

fun idles :: "stage \<Rightarrow> bool" where
  "idles At_queue = False" | "idles At_writer = False" | "idles Logging_out = False"
| "idles Logged_out = False" | "idles Session_over = False" | "idles _ = True"

fun woken :: "popper \<Rightarrow> popper" where
  "woken Waiting = Woken" | "woken p = p"

inductive end_step :: "bool \<Rightarrow> config \<Rightarrow> config \<Rightarrow> bool" for final where
  End_take: "p \<noteq> Waiting \<Longrightarrow> end_step final (At_queue, p, k) (At_writer, Outside, k)"
| End_send: "end_step final (At_writer, p, k) (At_router, p, k)"
| End_read: "end_step final (At_router, p, k) (At_loop, p, k)"
| End_pass: "final \<Longrightarrow> end_step final (At_loop, p, k) (Done_passed, p, k)"
| End_kill: "\<not> final \<Longrightarrow> end_step final (At_loop, p, k) (Router_killed, p, k)"
| End_hand: "end_step final (Done_passed, p, k) (Done_writing, p, k)"
| End_deliver: "end_step final (Done_writing, p, k) (Done_arrived, p, k)"
| End_stop: "end_step final (Done_arrived, p, k) (Reader_stopped, p, Suc k)"
| End_finish: "end_step final (Reader_stopped, Woken, k) (Logging_out, Outside, k)"
| End_leave: "end_step final (Logging_out, p, k) (Logged_out, p, k)"
| End_close: "end_step final (Logged_out, p, k) (Session_over, p, k)"
| End_wait: "idles st \<Longrightarrow> p \<noteq> Waiting \<Longrightarrow> \<not> (st = Reader_stopped \<and> p = Woken) \<Longrightarrow>
    end_step final (st, p, k) (st, Waiting, k)"
| End_notify: "end_step final (st, p, Suc k) (st, woken p, k)"

inductive_cases end_stepE: "end_step final (st, p, k) c"

text \<open>A spurious wake-up.\<close>

fun end_spurious :: "config \<Rightarrow> config" where
  "end_spurious (st, p, k) = (st, woken p, k)"

abbreviation end_run :: "bool \<Rightarrow> config \<Rightarrow> config \<Rightarrow> bool" where
  "end_run final \<equiv> rtranclp (end_step final)"

section \<open>It comes to an end\<close>

fun stages_left :: "stage \<Rightarrow> nat" where
  "stages_left At_queue = 10" | "stages_left At_writer = 9" | "stages_left At_router = 8" | "stages_left At_loop = 7"
| "stages_left Done_passed = 6" | "stages_left Done_writing = 5" | "stages_left Done_arrived = 4"
| "stages_left Reader_stopped = 3" | "stages_left Logging_out = 2" | "stages_left Logged_out = 1"
| "stages_left Session_over = 0" | "stages_left Router_killed = 0"

fun end_work :: "config \<Rightarrow> nat" where
  "end_work (st, p, k) = 4 * stages_left st + 2 * k + of_bool (p \<noteq> Waiting)"

lemma woken_Waiting [simp]: "woken p \<noteq> Waiting"
  by (cases p) simp_all

lemma end_step_work:
  assumes "end_step final c c'"
  shows "end_work c' < end_work c"
  using assms by cases (auto split: popper.splits)

text \<open>
  The writer never sleeps on a full queue without a notification to come, and once it has its element the
  only way to be woken is to have slept.
\<close>

fun end_ok :: "config \<Rightarrow> bool" where
  "end_ok (st, p, k) \<longleftrightarrow> \<not> (st = At_queue \<and> p = Waiting \<and> k = 0)"

lemma end_step_ok:
  assumes "end_step final c c'"
  shows "end_ok c \<Longrightarrow> end_ok c'"
  using assms by cases auto

lemma end_spurious_ok: "end_ok c \<Longrightarrow> end_ok (end_spurious c)"
  by (cases c) simp

section \<open>Where it ends\<close>

text \<open>The session is over, the writer sleeps for ever, or the router is gone.\<close>

lemma end_stuck:
  assumes "end_ok (st, p, k)" "\<nexists>c'. end_step final (st, p, k) c'"
  shows "k = 0 \<and> (st = Session_over \<or> (st = Reader_stopped \<or> st = Router_killed) \<and> p = Waiting)"
proof -
  have no: "\<not> end_step final (st, p, k) c'" for c'
    using assms(2) by blast
  have k: "k = 0"
    using no [of "(st, woken p, k - 1)"] End_notify [of final st p "k - 1"] by (cases k) auto
  have sleeps: "p = Waiting" if "idles st"
  proof (rule ccontr)
    assume "p \<noteq> Waiting"
    then show False
      using no End_finish [of final k] End_wait [OF that, of p final k] by (cases "st = Reader_stopped \<and> p = Woken") auto
  qed
  moreover have "st = Session_over \<or> st = Reader_stopped \<or> st = Router_killed"
  proof (cases st)
    case At_queue
    then show ?thesis using no End_take [of p final k] assms(1) k by auto
  next
    case At_loop
    then show ?thesis using no End_pass [of final p k] End_kill [of final p k] by (cases final) auto
  qed (use no End_send [of final p k] End_read [of final p k] End_hand [of final p k] End_deliver [of final p k]
      End_stop [of final p k] End_leave [of final p k] End_close [of final p k] in auto)
  ultimately show ?thesis
    using k by auto
qed

text \<open>With the last master the router lives, with another one it announces nothing.\<close>

fun before_loop :: "stage \<Rightarrow> bool" where
  "before_loop At_queue = True" | "before_loop At_writer = True" | "before_loop At_router = True"
| "before_loop At_loop = True" | "before_loop _ = False"

fun end_way :: "bool \<Rightarrow> config \<Rightarrow> bool" where
  "end_way final (st, p, k) \<longleftrightarrow> before_loop st \<or> (st = Router_killed \<longleftrightarrow> \<not> final)"

lemma end_step_way:
  assumes "end_step final c c'"
  shows "end_way final c \<Longrightarrow> end_way final c'"
  using assms by cases auto

lemma end_spurious_way: "end_way final c \<Longrightarrow> end_way final (end_spurious c)"
  by (cases c) simp

section \<open>How the race goes\<close>

text \<open>
  Once the reader has stopped, the session ends for certain if the writer has been woken, or sleeps while a
  notification is still to come; it is stuck for certain if the writer does not sleep and no notification is to
  come, or sleeps already.
\<close>

fun decided :: "bool \<Rightarrow> config \<Rightarrow> bool" where
  "decided True (st, p, k) \<longleftrightarrow> st = Reader_stopped \<and> (p = Woken \<or> p = Waiting \<and> 0 < k)
     \<or> st = Logging_out \<or> st = Logged_out \<or> st = Session_over"
| "decided False (st, p, k) \<longleftrightarrow> st = Reader_stopped \<and> p \<noteq> Woken \<and> k = 0"

lemma decided_step:
  assumes "end_step final c c'"
  shows "decided over c \<Longrightarrow> decided over c'"
  using assms by (cases over; cases) auto

lemma decided_run: "end_run final c c' \<Longrightarrow> decided over c \<Longrightarrow> decided over c'"
  by (induction rule: rtranclp_induct) (auto intro: decided_step)

text \<open>Before that, both outcomes are open: whether the writer gets to sleep before the reader stops is a race.\<close>

lemma run_stages: "end_run True (At_writer, p, k) (Done_arrived, p, k)"
proof -
  note steps = End_send [of True p k] End_read [of True p k] End_pass [of True p k, OF TrueI] End_hand [of True p k]
    End_deliver [of True p k]
  show ?thesis
    by (rule converse_rtranclp_into_rtranclp, rule steps)+ (rule rtranclp.rtrancl_refl)
qed

lemma run_notify: "end_run final (st, Outside, k) (st, Outside, 0)"
proof (induction k)
  case (Suc k)
  then show ?case
    using End_notify [of final st Outside k] by (simp add: converse_rtranclp_into_rtranclp)
qed simp

lemma run_taken:
  assumes "end_ok (At_queue, p, k)"
  obtains k' where "end_run True (At_queue, p, k) (Done_arrived, Outside, k')"
proof (cases "p = Waiting")
  case True
  then obtain j where "k = Suc j"
    using assms by (cases k) auto
  then have "end_step True (At_queue, p, k) (At_queue, Woken, j)"
    using True End_notify [of True At_queue Waiting j] by simp
  moreover have "end_step True (At_queue, Woken, j) (At_writer, Outside, j)"
    by (rule End_take) simp
  ultimately show ?thesis
    using that [of j] run_stages [of Outside j] by (meson converse_rtranclp_into_rtranclp)
next
  case False
  then show ?thesis
    using that [of k] run_stages [of Outside k] End_take [of p True k] by (meson converse_rtranclp_into_rtranclp)
qed

lemma run_to_sleep:
  assumes "end_ok (At_queue, p, k)"
  shows "end_run True (At_queue, p, k) (Reader_stopped, Waiting, 0)"
proof -
  obtain k' where "end_run True (At_queue, p, k) (Done_arrived, Outside, k')"
    using assms by (rule run_taken)
  moreover have "end_step True (Done_arrived, Outside, k') (Reader_stopped, Outside, Suc k')"
    by (rule End_stop)
  moreover have "end_run True (Reader_stopped, Outside, Suc k') (Reader_stopped, Outside, 0)"
    by (rule run_notify)
  moreover have "end_step True (Reader_stopped, Outside, 0) (Reader_stopped, Waiting, 0)"
    by (rule End_wait) simp_all
  ultimately show ?thesis
    by (meson rtranclp.rtrancl_into_rtrancl rtranclp_trans)
qed

lemma run_to_the_end:
  assumes "end_ok (At_queue, p, k)"
  shows "end_run True (At_queue, p, k) (Session_over, Outside, 0)"
proof -
  obtain k' where "end_run True (At_queue, p, k) (Done_arrived, Outside, k')"
    using assms by (rule run_taken)
  moreover have "end_run True (Done_arrived, Outside, k') (Done_arrived, Outside, 0)"
    by (rule run_notify)
  moreover have "end_step True (Done_arrived, Outside, 0) (Done_arrived, Waiting, 0)"
    by (rule End_wait) simp_all
  moreover have "end_step True (Done_arrived, Waiting, 0) (Reader_stopped, Waiting, Suc 0)"
    by (rule End_stop)
  moreover have "end_step True (Reader_stopped, Waiting, Suc 0) (Reader_stopped, Woken, 0)"
    using End_notify [of True Reader_stopped Waiting 0] by simp
  moreover have "end_step True (Reader_stopped, Woken, 0) (Logging_out, Outside, 0)"
    "end_step True (Logging_out, Outside, 0) (Logged_out, Outside, 0)"
    "end_step True (Logged_out, Outside, 0) (Session_over, Outside, 0)"
    by (rule End_finish End_leave End_close)+
  ultimately show ?thesis
    by (meson rtranclp.rtrancl_into_rtrancl rtranclp_trans)
qed

end
