(* ===== verification/Session_End.thy ===== *)
theory Session_End
  imports Closed_Properties Session_Machine
begin

text \<open>
  How a session of one bridge and its router ends: \<^verbatim>\<open>terminate\<close> of the master, the TERMINATE and DONE messages,
  \<^verbatim>\<open>finish\<close>, the logout, and what \<^verbatim>\<open>waitForCompletion\<close> makes of it. From the call on the system of
  \<open>Closed_System\<close> and the machine of \<open>Session_Machine\<close> can do the same steps.
\<close>

section \<open>Two systems with the same steps\<close>

locale bisimulation =
  fixes step :: "'s \<Rightarrow> 's \<Rightarrow> bool" and step' :: "'t \<Rightarrow> 't \<Rightarrow> bool" and related :: "'s \<Rightarrow> 't \<Rightarrow> bool"
  assumes forth: "related s t \<Longrightarrow> step s s' \<Longrightarrow> \<exists>t'. step' t t' \<and> related s' t'"
    and back_again: "related s t \<Longrightarrow> step' t t' \<Longrightarrow> \<exists>s'. step s s' \<and> related s' t'"
begin

lemma runs_forth: "step\<^sup>*\<^sup>* s s' \<Longrightarrow> related s t \<Longrightarrow> \<exists>t'. step'\<^sup>*\<^sup>* t t' \<and> related s' t'"
  by (induction rule: rtranclp_induct) (use forth in \<open>blast intro: rtranclp.rtrancl_into_rtrancl\<close>)+

lemma runs_back: "step'\<^sup>*\<^sup>* t t' \<Longrightarrow> related s t \<Longrightarrow> \<exists>s'. step\<^sup>*\<^sup>* s s' \<and> related s' t'"
  by (induction rule: rtranclp_induct) (use back_again in \<open>blast intro: rtranclp.rtrancl_into_rtrancl\<close>)+

lemma stuck: "related s t \<Longrightarrow> (\<nexists>s'. step s s') \<longleftrightarrow> (\<nexists>t'. step' t t')"
  using forth back_again by blast

lemma bounded:
  assumes "\<And>t t'. step' t t' \<Longrightarrow> (weight t' :: nat) < weight t"
  shows "(step ^^ n) s s' \<Longrightarrow> related s t \<Longrightarrow> n \<le> weight t"
proof (induction n arbitrary: s t)
  case (Suc n)
  obtain s1 where s1: "step s s1" "(step ^^ n) s1 s'"
    using relpowp_Suc_D2 [OF Suc.prems(1)] by blast
  obtain t1 where "step' t t1" "related s1 t1"
    using forth [OF Suc.prems(2) s1(1)] by blast
  with Suc.IH [OF s1(2)] assms [of t t1] show ?case
    by fastforce
qed simp

end

section \<open>The stages\<close>

definition term_txn :: "u64 \<Rightarrow> Txn" where
  "term_txn m = \<lparr>tx_type = TERMINATION, tx_buffer = None, tx_txn = (new_Transaction False)\<lparr>txn_id := m\<rparr>,
     tx_promise = None\<rparr>"

definition term_message :: "u64 \<Rightarrow> wire_Message" where
  "term_message m = (new_Message Type_TERMINATE)\<lparr>wm_ipId := m\<rparr>"

abbreviation done_message :: wire_Message where
  "done_message \<equiv> new_Message Type_DONE"

text \<open>In each stage: the queue, the writer and the state of the client; the reader; and what arrives.\<close>

fun writer_side :: "u64 \<Rightarrow> stage \<Rightarrow> Txn list \<times> writer \<times> State" where
  "writer_side m At_queue = ([term_txn m], Writer_Pop, STARTED)"
| "writer_side m At_writer = ([], Writer_Popped (term_txn m), STARTED)"
| "writer_side m Logging_out = ([], Writer_Logout, STARTED)"
| "writer_side m Logged_out = ([], Writer_Exited, LOGGED_OUT)"
| "writer_side m Session_over = ([], Writer_Exited, LOGGED_OUT)"
| "writer_side m st = ([], Writer_Pop, STARTED)"

fun reader_left :: "stage \<Rightarrow> bool" where
  "reader_left Reader_stopped = True" | "reader_left Logging_out = True" | "reader_left Logged_out = True"
| "reader_left Session_over = True" | "reader_left _ = False"

fun arriving :: "stage \<Rightarrow> wire_Message list" where
  "arriving Done_arrived = [done_message]" | "arriving _ = []"

text \<open>In the router: what arrives, its reader, its routing loop, its writer; and what it has announced.\<close>

fun router_side :: "u64 \<Rightarrow> stage \<Rightarrow> wire_Message list \<times> go_reader \<times> go_route \<times> go_writer" where
  "router_side m At_queue = ([], Reading, Route_Waiting, Writer_Idle)"
| "router_side m At_writer = ([], Reading, Route_Waiting, Writer_Idle)"
| "router_side m At_router = ([term_message m], Reading, Route_Waiting, Writer_Idle)"
| "router_side m At_loop = ([], Offering (term_message m), Route_Waiting, Writer_Idle)"
| "router_side m Router_killed = ([], Offering (term_message m), Route_Waiting, Writer_Idle)"
| "router_side m Done_passed = ([], Reading, Route_Sending [(0, done_message)] False, Writer_Idle)"
| "router_side m Done_writing = ([], Reading, Route_Done, Writing done_message)"
| "router_side m Logged_out = ([done_message], Reading, Route_Done, Writer_Done)"
| "router_side m Session_over = ([], Reader_Done, Route_Done, Writer_Done)"
| "router_side m st = ([], Reading, Route_Done, Writer_Done)"

fun announced_by :: "stage \<Rightarrow> wire_Message list" where
  "announced_by Done_arrived = [done_message]" | "announced_by Reader_stopped = [done_message]"
| "announced_by Logging_out = [done_message]" | "announced_by Logged_out = [done_message]"
| "announced_by Session_over = [done_message]" | "announced_by st = []"

definition kept :: "'w bridge \<Rightarrow> 'w bridge \<Rightarrow> bool" where
  "kept b b' \<longleftrightarrow> user_state b' = user_state b \<and> br_slaveMap b' = br_slaveMap b
     \<and> br_masterMap b' = br_masterMap b \<and> br_deleted b' = br_deleted b"

fun closing_bridge :: "lib \<Rightarrow> u64 \<Rightarrow> 'w bridge \<Rightarrow> config \<Rightarrow> 'w bridge \<Rightarrow> bool" where
  "closing_bridge L m b0 (st, p, k) b \<longleftrightarrow> q_popper (br_queue b) = p \<and> q_notify (br_queue b) = k
     \<and> (q_items (br_queue b), br_writer b, c_state (br_client b)) = writer_side m st
     \<and> q_done (br_queue b) = reader_left st
     \<and> br_reader b = (if reader_left st then Reader_Exited else Reader_Running)
     \<and> exactly (c_in (br_client b)) (map (lib_encode L) (arriving st))
     \<and> c_sock (br_client b) \<noteq> -1 \<and> wr_script (c_out (br_client b)) = []
     \<and> (br_reader b = Reader_Exited \<longrightarrow> br_readerStatus b = status_ok)
     \<and> (br_writer b = Writer_Exited \<longrightarrow> br_writerStatus b = status_ok) \<and> kept b0 b"

definition closing_router :: "u64 \<Rightarrow> threads \<Rightarrow> stage \<Rightarrow> threads \<Rightarrow> bool" where
  "closing_router m r0 st r \<longleftrightarrow>
     (\<exists>ins rd rt w. router_side m st = (ins, rd, rt, w) \<and> t_in r = [ins] \<and> t_readers r = [rd] \<and> t_route r = rt
        \<and> t_writers r = [w])
     \<and> t_exited r = (st = Router_killed) \<and> t_out r = [t_out r0 ! 0 @ announced_by st]
     \<and> (before_loop st \<longrightarrow> t_router r = t_router r0)"

text \<open>What the router knows of the master, that its DONE fits into a vector, and that it has an order to visit a map in.\<close>

definition may_close :: "lib \<Rightarrow> visit set \<Rightarrow> u64 \<Rightarrow> threads \<Rightarrow> bool" where
  "may_close L orders m r \<longleftrightarrow> codec L \<and> orders \<noteq> {} \<and> length (lib_encode L done_message) \<le> vector_max_size
     \<and> length (r_clients (t_router r)) = 1 \<and> unat m < length (r_ips (t_router r))
     \<and> ii_client (r_ips (t_router r) ! unat m) = 0"

definition last_master :: "'w system \<Rightarrow> bool" where
  "last_master s \<longleftrightarrow> r_masterCount (t_router (sy_router s)) = 1"

definition closing :: "lib \<Rightarrow> visit set \<Rightarrow> u64 \<Rightarrow> 'w system \<Rightarrow> 'w system \<Rightarrow> config \<Rightarrow> bool" where
  "closing L orders m s0 s c \<longleftrightarrow> may_close L orders m (sy_router s0) \<and> closing_bridge L m (sy_bridge s0) c (sy_bridge s)
     \<and> closing_router m (sy_router s0) (fst c) (sy_router s)"

section \<open>The bridge\<close>

lemma closing_reader:
  assumes L: "codec L" and b: "closing_bridge L m b0 (Done_arrived, p, k) b"
  obtains b' where "Bridge_reader L S b = Ret b'" "closing_bridge L m b0 (Reader_stopped, p, Suc k) b'"
proof -
  have c: "c_sock (br_client b) \<noteq> -1" "c_state (br_client b) = STARTED"
    "exactly (c_in (br_client b)) (map (lib_encode L) (done_message # []))"
    using b by simp_all
  obtain j where j: "client_read L (br_client b) = Ret ((br_client b)\<lparr>c_in := j\<rparr>, Some done_message)"
    "exactly j (map (lib_encode L) [])"
    using L c(1,3) by (rule ex.client_read_pending)
  let ?b = "stop_reader status_ok (b\<lparr>br_client := (br_client b)\<lparr>c_in := j\<rparr>\<rparr>)"
  have "Bridge_reader L S b = Ret ?b"
    using j(1) c(2) by (simp add: Bridge_reader_def RouterClient_receiveTransaction_def new_Message_def mk_status_def
        isError_def getCode_def DONE_code_def)
  moreover have "closing_bridge L m b0 (Reader_stopped, p, Suc k) ?b"
    using b j(2) by (simp add: stop_reader_def q_finish_def kept_def user_state_def)
  ultimately show ?thesis by (rule that)
qed

text \<open>What the writer does next: the configuration after it, and the message it sends.\<close>

fun writer_next :: "u64 \<Rightarrow> stage \<Rightarrow> popper \<Rightarrow> (stage \<times> popper \<times> wire_Message option) option" where
  "writer_next m At_queue p = (if p = Waiting then None else Some (At_writer, Outside, None))"
| "writer_next m At_writer p = Some (At_router, p, Some (term_message m))"
| "writer_next m Logging_out p = Some (Logged_out, p, Some done_message)"
| "writer_next m Logged_out p = None"
| "writer_next m Session_over p = None"
| "writer_next m Reader_stopped p = (case p of Waiting \<Rightarrow> None | Woken \<Rightarrow> Some (Logging_out, Outside, None)
     | Outside \<Rightarrow> Some (Reader_stopped, Waiting, None))"
| "writer_next m st p = (if p = Waiting then None else Some (st, Waiting, None))"

lemma writer_next_step: "writer_next m st p = Some (st', p', out) \<Longrightarrow> end_step final (st, p, k) (st', p', k)"
  by (cases st; cases p) (auto intro: end_step.intros)

definition wrote :: "lib \<Rightarrow> wire_Message option \<Rightarrow> 'w bridge \<Rightarrow> 'w bridge \<Rightarrow> bool" where
  "wrote L out b b' \<longleftrightarrow> wr_sent (c_out (br_client b')) = wr_sent (c_out (br_client b))
     @ (case out of None \<Rightarrow> [] | Some m \<Rightarrow> frame (lib_encode L m))"

lemma closing_writer_stops:
  assumes "closing_bridge L m b0 (st, p, k) b" "writer_next m st p = None"
  shows "writer_waits b \<or> br_writer b = Writer_Exited"
  using assms by (cases st; cases p) (simp_all add: writer_waits_def)

lemma closing_writer:
  assumes b: "closing_bridge L m b0 (st, p, k) b" and w: "writer_next m st p = Some (st', p', out)"
  obtains b' where "br_writer b \<noteq> Writer_Absent" "br_writer b \<noteq> Writer_Exited" "\<not> writer_waits b" "Bridge_writer L b = Ret b'"
    "closing_bridge L m b0 (st', p', k) b'" "wrote L out b b'"
proof -
  have "br_writer b \<noteq> Writer_Absent \<and> br_writer b \<noteq> Writer_Exited \<and> \<not> writer_waits b"
    using b w by (cases st; cases p) (simp_all add: writer_waits_def)
  moreover have "\<exists>b'. Bridge_writer L b = Ret b' \<and> closing_bridge L m b0 (st', p', k) b' \<and> wrote L out b b'"
    using b w
    by (cases st; cases p) (auto simp: Bridge_writer_def Let_def q_pop_def q_take_def kept_def user_state_def wrote_def
        term_txn_def RouterClient_sendTermination_def RouterClient_sendLogout_def client_write_accepting
        term_message_def stop_writer_def new_Transaction_def)
  ultimately show ?thesis using that by blast
qed

text \<open>The notifications, sent and spurious.\<close>

lemma closing_control:
  assumes "closing_bridge L m b0 (st, p, k) b"
  shows "0 < k \<Longrightarrow> closing_bridge L m b0 (st, woken p, k - 1) (b\<lparr>br_queue := q_control Notify (br_queue b)\<rparr>)"
    and "closing_bridge L m b0 (st, woken p, k) (b\<lparr>br_queue := q_control Spurious (br_queue b)\<rparr>)"
  using assms by (cases p; simp add: q_notify_one_def kept_def user_state_def; fail)+

text \<open>What the stages of the router change nothing of, and what arrives.\<close>

fun passes_by :: "stage \<Rightarrow> stage \<Rightarrow> bool" where
  "passes_by At_router At_loop = True" | "passes_by At_loop Done_passed = True" | "passes_by At_loop Router_killed = True"
| "passes_by Done_passed Done_writing = True" | "passes_by Logged_out Session_over = True" | "passes_by _ _ = False"

lemma closing_bridge_passes:
  "passes_by st st' \<Longrightarrow> closing_bridge L m b0 (st, p, k) b \<Longrightarrow> closing_bridge L m b0 (st', p, k) b"
  by (cases "(st, st')" rule: passes_by.cases) auto

lemma closing_bridge_arrives:
  assumes "delivered es (lib_encode L done_message)" "closing_bridge L m b0 (Done_writing, p, k) b"
  shows "closing_bridge L m b0 (Done_arrived, p, k) (receive_events es b)"
proof -
  have "exactly (c_in (br_client b)) []"
    using assms(2) by simp
  from exactly_append [OF assms(1) this] show ?thesis
    using assms(2) by (simp add: receive_events_def kept_def user_state_def)
qed

section \<open>The router\<close>

lemma closing_router_arrives:
  "closing_router m r0 At_writer r \<Longrightarrow> closing_router m r0 At_router (arrive (term_message m) r)"
  "closing_router m r0 Logging_out r \<Longrightarrow> closing_router m r0 Logged_out (arrive done_message r)"
  by (auto simp: closing_router_def arrive_def)

fun beside_router :: "stage \<Rightarrow> stage \<Rightarrow> bool" where
  "beside_router At_queue At_writer = True" | "beside_router Done_arrived Reader_stopped = True"
| "beside_router Reader_stopped Logging_out = True" | "beside_router _ _ = False"

lemma closing_router_beside:
  "beside_router st st' \<Longrightarrow> closing_router m r0 st r \<Longrightarrow> closing_router m r0 st' r"
  by (cases "(st, st')" rule: beside_router.cases) (auto simp: closing_router_def)

lemma route_term_message:
  assumes "may_close L orders m r0" "t_router r = t_router r0"
  shows "route order mutate (term_message m) (t_router r) =
    (if r_masterCount (t_router r) = 1
     then Ret ((t_router r)\<lparr>r_masterCount := 0\<rparr>, [(0, done_message)], False) else Fault Terminate)"
  using assms by (simp add: route_def term_message_def new_Message_def client_of_ip_def go_index_def may_close_def)

text \<open>One step of the goroutines is the next one of the message.\<close>

fun router_next :: "bool \<Rightarrow> stage \<Rightarrow> stage option" where
  "router_next final At_router = Some At_loop"
| "router_next final At_loop = (if final then Some Done_passed else None)"
| "router_next final Done_passed = Some Done_writing"
| "router_next final Done_writing = Some Done_arrived"
| "router_next final Logged_out = Some Session_over"
| "router_next final _ = None"

lemma router_next_step: "router_next final st = Some st' \<Longrightarrow> end_step final (st, p, k) (st', p, k)"
  by (cases st) (auto intro: end_step.intros split: if_splits)

lemma closing_router_steps:
  assumes may: "may_close L orders m r0" and r: "closing_router m r0 st r" and step: "go_step orders mutate r r'" "\<not> t_exited r'"
  obtains st' where "router_next (r_masterCount (t_router r0) = 1) st = Some st'" "closing_router m r0 st' r'"
proof -
  have alive: "st \<noteq> Router_killed"
    using r step by (auto simp: closing_router_def elim: go_stepE)
  show thesis
    using step(1) 
  proof cases
    case (Read i ms msgs)
    then show ?thesis
      using r alive by (cases st) (auto simp: closing_router_def after_read_def term_message_def new_Message_def Type_defs intro!: that)
  next
    case (Receive i msg order r1 outs on)
    then show ?thesis
      using r alive route_term_message [OF may, of r order mutate]
      by (cases st) (auto simp: closing_router_def intro!: that split: if_splits)
  next
    case (Send c msg outs on)
    then show ?thesis
      using r alive by (cases st) (auto simp: closing_router_def intro!: that)
  next
    case (Write i msg)
    then show ?thesis
      using r alive by (cases st) (auto simp: closing_router_def after_write_def new_Message_def intro!: that)
  qed (use step(2) in simp_all)
qed

lemma closing_router_moves:
  assumes may: "may_close L orders m r0" and r: "closing_router m r0 st r"
    and "router_next (r_masterCount (t_router r0) = 1) st = Some st'"
  obtains r' where "go_step orders mutate r r'" "closing_router m r0 st' r'"
proof -
  have t: "\<not> t_exited r" "length (t_readers r) = 1" "length (t_writers r) = 1" "length (t_out r) = 1"
    using r assms(3) by (cases st; auto simp: closing_router_def split: if_splits)+
  have "\<exists>r'. go_step orders mutate r r' \<and> closing_router m r0 st' r'"
  proof (cases st)
    case At_router
    have "go_step orders mutate r (r\<lparr>t_in := (t_in r)[0 := []], t_readers := (t_readers r)[0 := after_read (term_message m)]\<rparr>)"
      using r At_router t by (intro go_step.Read) (auto simp: closing_router_def)
    then show ?thesis
      using r At_router assms(3) by (auto simp: closing_router_def after_read_def term_message_def new_Message_def Type_defs)
  next
    case At_loop
    obtain order where order: "order \<in> orders"
      using may by (auto simp: may_close_def)
    have route: "route order mutate (term_message m) (t_router r)
        = Ret ((t_router r)\<lparr>r_masterCount := 0\<rparr>, [(0, done_message)], False)"
      using route_term_message [OF may, of r order mutate] r At_loop assms(3)
      by (auto simp: closing_router_def split: if_splits)
    have "go_step orders mutate r (r\<lparr>t_router := (t_router r)\<lparr>r_masterCount := 0\<rparr>, t_readers := (t_readers r)[0 := Reading],
        t_route := after_round [(0, done_message)] False\<rparr>)"
      using r At_loop t by (intro go_step.Receive [OF _ _ _ _ order route]) (auto simp: closing_router_def)
    then show ?thesis
      using r At_loop assms(3) by (auto simp: closing_router_def split: if_splits)
  next
    case Done_passed
    have "go_step orders mutate r (r\<lparr>t_writers := (t_writers r)[unat (0 :: u64) := Writing done_message],
        t_route := after_round [] False\<rparr>)"
      using r Done_passed t by (intro go_step.Send) (auto simp: closing_router_def)
    then show ?thesis
      using r Done_passed assms(3) by (auto simp: closing_router_def)
  next
    case Done_writing
    have "go_step orders mutate r (r\<lparr>t_out := (t_out r)[0 := t_out r ! 0 @ [done_message]],
        t_writers := (t_writers r)[0 := after_write done_message]\<rparr>)"
      using r Done_writing t by (intro go_step.Write) (auto simp: closing_router_def)
    then show ?thesis
      using r Done_writing assms(3) by (auto simp: closing_router_def after_write_def new_Message_def)
  next
    case Logged_out
    have "go_step orders mutate r (r\<lparr>t_in := (t_in r)[0 := []], t_readers := (t_readers r)[0 := after_read done_message]\<rparr>)"
      using r Logged_out t by (intro go_step.Read) (auto simp: closing_router_def)
    then show ?thesis
      using r Logged_out assms(3) by (auto simp: closing_router_def after_read_def new_Message_def)
  qed (use assms(3) in simp_all)
  with that show ?thesis by blast
qed

lemma closing_router_alive: "closing_router m r0 st r \<Longrightarrow> t_exited r \<longleftrightarrow> st = Router_killed"
  by (simp add: closing_router_def)

lemma closing_router_out: "closing_router m r0 st r \<Longrightarrow> t_out r = [t_out r0 ! 0 @ announced_by st]"
  by (simp add: closing_router_def)

lemma router_next_cases:
  assumes "router_next final st = Some st'"
  obtains "passes_by st st'" "announced_by st' = announced_by st" | "st = Done_writing" "st' = Done_arrived"
  using assms by (cases st) (auto split: if_splits)

section \<open>The system and the machine\<close>

lemma delivered_done: "may_close L orders m r \<Longrightarrow> delivered (one_chunk (frame (lib_encode L done_message))) (lib_encode L done_message)"
  by (intro delivered_one_chunk) (simp add: may_close_def)

lemma writer_next_sides:
  assumes "writer_next m st p = Some (st', p', out)"
  obtains "out = None" "st' = st" | "out = None" "beside_router st st'"
    | "out = Some (term_message m)" "st = At_writer" "st' = At_router"
    | "out = Some done_message" "st = Logging_out" "st' = Logged_out"
  using assms by (cases st; cases p) auto

lemma Nil_not_frame [simp]: "[] \<noteq> frame p"
  by (metis frame_not_Nil)

lemma wrote_None: "wrote L None b b' \<longleftrightarrow> wr_sent (c_out (br_client b')) = wr_sent (c_out (br_client b))"
  by (simp add: wrote_def)

declare closing_bridge.simps [simp del]

lemma closing_iff [simp]:
  "closing L orders m s0 \<lparr>sy_bridge = b, sy_router = r\<rparr> (st, p, k) \<longleftrightarrow> may_close L orders m (sy_router s0)
     \<and> closing_bridge L m (sy_bridge s0) (st, p, k) b \<and> closing_router m (sy_router s0) st r"
  by (simp add: closing_def)

text \<open>Which thread makes a step of the machine.\<close>

lemma end_step_by:
  assumes "end_step final (st, p, k) c'"
  obtains (by_writer) st' p' out where "writer_next m st p = Some (st', p', out)" "c' = (st', p', k)"
    | (by_router) st' where "router_next final st = Some st'" "c' = (st', p, k)"
    | (by_reader) "st = Done_arrived" "c' = (Reader_stopped, p, Suc k)"
    | (by_notifier) j where "k = Suc j" "c' = (st, woken p, j)"
    | (by_exit) "st = At_loop" "\<not> final" "c' = (Router_killed, p, k)"
  using assms
proof cases
  case End_wait
  then have "writer_next m st p = Some (st, Waiting, None)"
    by (cases st; cases p) simp_all
  then show ?thesis
    using End_wait by (intro by_writer)
qed (auto intro: that)

lemma closing_back:
  assumes s: "closing L orders m s0 s c" and step: "end_step (last_master s0) c c'"
  shows "\<exists>s'. thread_step L S orders mutate s s' \<and> closing L orders m s0 s' c'"
proof -
  obtain st p k where c: "c = (st, p, k)"
    by (cases c)
  obtain b r where sy: "s = \<lparr>sy_bridge = b, sy_router = r\<rparr>"
    by (cases s)
  have may: "may_close L orders m (sy_router s0)" and L: "codec L"
    and b: "closing_bridge L m (sy_bridge s0) (st, p, k) b" and r: "closing_router m (sy_router s0) st r"
    using s by (simp_all add: c sy may_close_def)
  note fits = delivered_done [OF may]
  have writer: ?thesis if w: "writer_next m st p = Some (st', p', out)" and c': "c' = (st', p', k)" for st' p' out
  proof -
    obtain b' where b': "br_writer b \<noteq> Writer_Absent" "br_writer b \<noteq> Writer_Exited" "\<not> writer_waits b"
      "Bridge_writer L b = Ret b'" "closing_bridge L m (sy_bridge s0) (st', p', k) b'" "wrote L out b b'"
      using b w by (rule closing_writer)
    have silent: "thread_step L S orders mutate s \<lparr>sy_bridge = b', sy_router = r\<rparr>" if "out = None"
      using Thr_writer [of s L b' S orders mutate] b' that by (simp add: sy wrote_None)
    have sends: "thread_step L S orders mutate s \<lparr>sy_bridge = b', sy_router = arrive msg r\<rparr>" if "out = Some msg" for msg
      using Thr_writer_sends [of s L b' msg S orders mutate] b' that by (simp add: sy wrote_def)
    from w show ?thesis
    proof (cases rule: writer_next_sides)
      case 1
      with silent b'(5) r may show ?thesis
        by (intro exI [of _ "\<lparr>sy_bridge = b', sy_router = r\<rparr>"]) (simp add: c')
    next
      case 2
      with silent b'(5) closing_router_beside [OF 2(2) r] may show ?thesis
        by (intro exI [of _ "\<lparr>sy_bridge = b', sy_router = r\<rparr>"]) (simp add: c')
    next
      case 3
      with sends b'(5) closing_router_arrives(1) r may show ?thesis
        by (intro exI [of _ "\<lparr>sy_bridge = b', sy_router = arrive (term_message m) r\<rparr>"]) (simp add: c')
    next
      case 4
      with sends b'(5) closing_router_arrives(2) r may show ?thesis
        by (intro exI [of _ "\<lparr>sy_bridge = b', sy_router = arrive done_message r\<rparr>"]) (simp add: c')
    qed
  qed
  have router: ?thesis if n: "router_next (last_master s0) st = Some st'" and c': "c' = (st', p, k)" for st'
  proof -
    obtain r' where r': "go_step orders mutate r r'" "closing_router m (sy_router s0) st' r'"
      using may r n unfolding last_master_def by (rule closing_router_moves)
    from n show ?thesis
    proof (cases rule: router_next_cases)
      case 1
      have "st' \<noteq> Router_killed"
        using n by (cases st) (auto split: if_splits)
      then have "t_out r' = t_out r" "\<not> t_exited r'"
        using 1(2) closing_router_out [OF r] closing_router_out [OF r'(2)] closing_router_alive [OF r'(2)] by simp_all
      with Thr_router [of orders mutate s r' L S] have "thread_step L S orders mutate s \<lparr>sy_bridge = b, sy_router = r'\<rparr>"
        using r'(1) by (simp add: sy)
      then show ?thesis
        using closing_bridge_passes [OF 1(1) b] r'(2) may
        by (intro exI [of _ "\<lparr>sy_bridge = b, sy_router = r'\<rparr>"]) (simp add: c')
    next
      case 2
      have "t_out r' = (t_out r)[0 := t_out r ! 0 @ [done_message]]"
        using closing_router_out [OF r] closing_router_out [OF r'(2)] by (simp add: 2)
      with Thr_router_sends [of orders mutate s r' done_message _ L S, OF _ _ fits]
      have "thread_step L S orders mutate s
          \<lparr>sy_bridge = receive_events (one_chunk (frame (lib_encode L done_message))) b, sy_router = r'\<rparr>"
        using r'(1) by (simp add: sy)
      then show ?thesis
        using closing_bridge_arrives [OF fits] b r'(2) may
        by (intro exI [of _ "\<lparr>sy_bridge = receive_events (one_chunk (frame (lib_encode L done_message))) b, sy_router = r'\<rparr>"])
          (simp add: c' 2)
    qed
  qed
  from step [unfolded c] show ?thesis
  proof (cases rule: end_step_by [where m = m])
    case by_reader
    obtain b' where b': "Bridge_reader L S b = Ret b'" "closing_bridge L m (sy_bridge s0) (Reader_stopped, p, Suc k) b'"
      using L b unfolding by_reader(1) by (rule closing_reader)
    have "br_reader b = Reader_Running" "c_in (br_client b) \<noteq> []"
      using b by (auto simp: by_reader(1) closing_bridge.simps exactly_def)
    with Thr_reader [of s L S b' orders mutate] b'(1) have "thread_step L S orders mutate s \<lparr>sy_bridge = b', sy_router = r\<rparr>"
      by (simp add: sy)
    then show ?thesis
      using b'(2) r may by (intro exI [of _ "\<lparr>sy_bridge = b', sy_router = r\<rparr>"])
        (simp add: by_reader closing_router_beside [of Done_arrived])
  next
    case (by_notifier j)
    let ?b = "b\<lparr>br_queue := q_control Notify (br_queue b)\<rparr>"
    have "0 < q_notify (br_queue b)"
      using b by (simp add: by_notifier(1) closing_bridge.simps)
    with Thr_notify [of s L S orders mutate] have "thread_step L S orders mutate s \<lparr>sy_bridge = ?b, sy_router = r\<rparr>"
      by (simp add: sy)
    then show ?thesis
      using closing_control(1) [OF b] r may by (intro exI [of _ "\<lparr>sy_bridge = ?b, sy_router = r\<rparr>"]) (simp add: by_notifier)
  next
    case by_exit
    obtain order where order: "order \<in> orders"
      using may by (auto simp: may_close_def)
    let ?r = "r\<lparr>t_exited := True\<rparr>"
    have "t_router r = t_router (sy_router s0)" and at: "t_route r = Route_Waiting" "t_readers r ! 0 = Offering (term_message m)"
        "\<not> t_exited r"
      using r by (auto simp: by_exit(1) closing_router_def)
    then have "route order mutate (term_message m) (t_router r) = Fault Terminate"
      using route_term_message [OF may, of r order mutate] by_exit(2) by (simp add: last_master_def)
    with Thr_router_exits [of s "term_message m" order orders mutate Terminate L S] at order
    have "thread_step L S orders mutate s \<lparr>sy_bridge = b, sy_router = ?r\<rparr>"
      by (simp add: sy)
    moreover have "closing_router m (sy_router s0) Router_killed ?r"
      using r by (auto simp: by_exit(1) closing_router_def)
    ultimately show ?thesis
      using closing_bridge_passes [OF _ b, of Router_killed] may
      by (intro exI [of _ "\<lparr>sy_bridge = b, sy_router = ?r\<rparr>"]) (simp add: by_exit)
  qed (rule writer router; assumption)+
qed

lemma go_step_sends_alive:
  assumes "go_step orders mutate r r'" "t_out r' = (t_out r)[0 := t_out r ! 0 @ [msg]]" "length (t_out r) = 1"
  shows "\<not> t_exited r'"
proof -
  have "t_out r' \<noteq> t_out r"
    using assms(2,3) by (cases "t_out r") simp_all
  with assms(1) show ?thesis
    by cases simp_all
qed

lemma closing_router_offers:
  assumes "closing_router m r0 st r" "t_readers r ! 0 = Offering msg" "\<not> t_exited r"
  shows "st = At_loop" "msg = term_message m" "t_router r = t_router r0"
  using assms by (cases st; simp add: closing_router_def; auto; fail)+

lemma closing_forth:
  assumes s: "closing L orders m s0 s c" and step: "thread_step L S orders mutate s s'"
  shows "\<exists>c'. end_step (last_master s0) c c' \<and> closing L orders m s0 s' c'"
proof -
  obtain st p k where c: "c = (st, p, k)"
    by (cases c)
  obtain b r where sy: "s = \<lparr>sy_bridge = b, sy_router = r\<rparr>"
    by (cases s)
  have may: "may_close L orders m (sy_router s0)" and L: "codec L"
    and b: "closing_bridge L m (sy_bridge s0) (st, p, k) b" and r: "closing_router m (sy_router s0) st r"
    using s by (simp_all add: c sy may_close_def)
  have one: "length (t_out r) = 1"
    using closing_router_out [OF r] by simp
  have writer: thesis if w: "Bridge_writer L b = Ret b'" "\<not> writer_waits b" "br_writer b \<noteq> Writer_Exited"
      and next_: "\<And>st' p' out. writer_next m st p = Some (st', p', out) \<Longrightarrow>
        closing_bridge L m (sy_bridge s0) (st', p', k) b' \<Longrightarrow> wrote L out b b' \<Longrightarrow> thesis" for b' thesis
  proof -
    obtain st' p' out where n: "writer_next m st p = Some (st', p', out)"
      using closing_writer_stops [OF b] w(2,3) by (cases "writer_next m st p") auto
    from b this show thesis
      by (rule closing_writer) (use next_ [OF n] w(1) in auto)
  qed
  have router: thesis if "go_step orders mutate r r'" "\<not> t_exited r'"
      and next_: "\<And>st'. router_next (last_master s0) st = Some st' \<Longrightarrow> closing_router m (sy_router s0) st' r' \<Longrightarrow> thesis"
      for r' thesis
    using may r that(1,2) by (rule closing_router_steps) (rule next_, simp_all add: last_master_def)
  from step show ?thesis
  proof cases
    case (Thr_reader b')
    then have "arriving st \<noteq> []"
      using b by (auto simp: sy closing_bridge.simps)
    then have st: "st = Done_arrived"
      by (cases st) simp_all
    obtain b1 where "Bridge_reader L S b = Ret b1" "closing_bridge L m (sy_bridge s0) (Reader_stopped, p, Suc k) b1"
      using L b unfolding st by (rule closing_reader)
    then show ?thesis
      using Thr_reader r may by (intro exI [of _ "(Reader_stopped, p, Suc k)"])
        (simp add: sy c st End_stop closing_router_beside [of Done_arrived])
  next
    case (Thr_writer b')
    show ?thesis
    proof (rule writer)
      show "Bridge_writer L b = Ret b'" "\<not> writer_waits b" "br_writer b \<noteq> Writer_Exited"
        using Thr_writer by (simp_all add: sy)
    next
      fix st' p' out
      assume n: "writer_next m st p = Some (st', p', out)" and b': "closing_bridge L m (sy_bridge s0) (st', p', k) b'"
        and "wrote L out b b'"
      then have "out = None"
        using Thr_writer(6) by (cases out) (simp_all add: wrote_def sy)
      from n have "closing_router m (sy_router s0) st' r"
      proof (cases rule: writer_next_sides)
        case 2
        then show ?thesis using closing_router_beside r by blast
      qed (use r \<open>out = None\<close> in simp_all)
      then show ?thesis
        using writer_next_step [OF n] b' may
        by (intro exI [of _ "(st', p', k)"]) (simp add: Thr_writer(1) c sy)
    qed
  next
    case (Thr_writer_sends b' msg)
    show ?thesis
    proof (rule writer)
      show "Bridge_writer L b = Ret b'" "\<not> writer_waits b" "br_writer b \<noteq> Writer_Exited"
        using Thr_writer_sends by (simp_all add: sy)
    next
      fix st' p' out
      assume n: "writer_next m st p = Some (st', p', out)" and b': "closing_bridge L m (sy_bridge s0) (st', p', k) b'"
        and "wrote L out b b'"
      then have out: "out = Some msg"
        using Thr_writer_sends(6) arrive_unique [OF L] by (cases out) (auto simp: wrote_def sy)
      from n have "closing_router m (sy_router s0) st' (arrive msg r)"
      proof (cases rule: writer_next_sides)
        case 3
        then show ?thesis using closing_router_arrives(1) [of m "sy_router s0" r] r out by simp
      next
        case 4
        then show ?thesis using closing_router_arrives(2) [of m "sy_router s0" r] r out by simp
      qed (use out in simp_all)
      then show ?thesis
        using writer_next_step [OF n] b' may
        by (intro exI [of _ "(st', p', k)"]) (simp add: Thr_writer_sends(1) c sy)
    qed
  next
    case Thr_notify
    then obtain j where k: "k = Suc j"
      using b by (cases k) (simp_all add: sy closing_bridge.simps)
    then show ?thesis
      using closing_control(1) [OF b] r may Thr_notify(1) by (intro exI [of _ "(st, woken p, j)"]) (simp add: c sy End_notify)
  next
    case (Thr_router r')
    show ?thesis
    proof (rule router)
      show "go_step orders mutate r r'" "\<not> t_exited r'"
        using Thr_router by (simp_all add: sy)
    next
      fix st'
      assume n: "router_next (last_master s0) st = Some st'" and r': "closing_router m (sy_router s0) st' r'"
      have "announced_by st' = announced_by st"
        using closing_router_out [OF r] closing_router_out [OF r'] Thr_router(4) by (simp add: sy)
      with n have "passes_by st st'"
        by (cases rule: router_next_cases) simp_all
      then have "closing_bridge L m (sy_bridge s0) (st', p, k) b"
        using b by (rule closing_bridge_passes)
      then show ?thesis
        using router_next_step [OF n] r' may by (intro exI [of _ "(st', p, k)"]) (simp add: Thr_router(1) c sy)
    qed
  next
    case (Thr_router_sends r' msg es)
    have alive: "\<not> t_exited r'"
      using go_step_sends_alive [of orders mutate r r' msg] Thr_router_sends(2,3) one by (simp add: sy)
    show ?thesis
    proof (rule router)
      show "go_step orders mutate r r'" "\<not> t_exited r'"
        using Thr_router_sends(2) alive by (simp_all add: sy)
    next
      fix st'
      assume n: "router_next (last_master s0) st = Some st'" and r': "closing_router m (sy_router s0) st' r'"
      have out: "announced_by st' = announced_by st @ [msg]"
        using closing_router_out [OF r] closing_router_out [OF r'] Thr_router_sends(3) by (simp add: sy)
      with n have st: "st = Done_writing" "st' = Done_arrived"
        by (cases rule: router_next_cases; simp)+
      then have "closing_bridge L m (sy_bridge s0) (st', p, k) (receive_events es b)"
        using closing_bridge_arrives [of es L] Thr_router_sends(4) out b by simp
      then show ?thesis
        using router_next_step [OF n] r' may by (intro exI [of _ "(st', p, k)"]) (simp add: Thr_router_sends(1) c sy)
    qed
  next
    case (Thr_router_exits msg order e)
    have "t_readers r ! 0 = Offering msg" "\<not> t_exited r"
      using Thr_router_exits(2,4) by (simp_all add: sy)
    note st = closing_router_offers [OF r this]
    have "\<not> last_master s0"
      using Thr_router_exits(6) route_term_message [OF may st(3), of order mutate]
      by (auto simp: sy st last_master_def split: if_splits)
    moreover have "closing_router m (sy_router s0) Router_killed (r\<lparr>t_exited := True\<rparr>)"
      using r by (auto simp: st(1) closing_router_def)
    ultimately show ?thesis
      using closing_bridge_passes [OF _ b, of Router_killed] may
      by (intro exI [of _ "(Router_killed, p, k)"]) (simp add: Thr_router_exits(1) c sy st(1) End_kill)
  qed
qed

interpretation cl: bisimulation "thread_step L S orders mutate" "end_step (last_master s0)" "closing L orders m s0"
  for L S orders mutate s0 m
  by unfold_locales (rule closing_forth closing_back; assumption)+

lemma closing_spurious:
  assumes "closing L orders m s0 s c"
  shows "closing L orders m s0 (s\<lparr>sy_bridge := (sy_bridge s)\<lparr>br_queue := q_control Spurious (br_queue (sy_bridge s))\<rparr>\<rparr>) (end_spurious c)"
proof -
  obtain st p k where c: "c = (st, p, k)"
    by (cases c)
  then show ?thesis
    using assms closing_control(2) [of L m "sy_bridge s0" st p k "sy_bridge s"] by (simp add: closing_def)
qed

text \<open>With the calls of the user over, what is left are the threads and spurious wake-ups.\<close>

abbreviation idle_run where
  "idle_run L S orders mutate \<equiv> rtranclp (\<lambda>s s'. system_step L S orders mutate s None s')"

lemma closing_idle:
  assumes "idle_run L S orders mutate s s'" "closing L orders m s0 s c" "end_ok c" "end_way (last_master s0) c"
  obtains c' where "closing L orders m s0 s' c'" "end_ok c'" "end_way (last_master s0) c'"
proof -
  have "\<exists>c'. closing L orders m s0 s' c' \<and> end_ok c' \<and> end_way (last_master s0) c'"
    using assms(1)
  proof (induction rule: rtranclp_induct)
    case base
    then show ?case using assms(2-4) by blast
  next
    case (step s1 s2)
    then obtain c1 where c1: "closing L orders m s0 s1 c1" "end_ok c1" "end_way (last_master s0) c1"
      by blast
    from step.hyps(2) show ?case
    proof cases
      case Sys_thread
      then show ?thesis
        using closing_forth [OF c1(1)] end_step_ok end_step_way c1(2,3) by blast
    next
      case Sys_spurious
      show ?thesis
        unfolding Sys_spurious
        using closing_spurious [OF c1(1)] end_spurious_ok [OF c1(2)] end_spurious_way [OF c1(3)] by blast
    qed
  qed
  with that show thesis by blast
qed

section \<open>When the calls are over\<close>

text \<open>A system without a pending future is at rest.\<close>

lemma quiet_at_rest:
  assumes sim: "system_sim L S orders mutate D s a" and quiet: "Pending \<notin> set (br_futures (sy_bridge s))"
  shows "at_rest L orders mutate D s"
proof -
  obtain is1 is2 is3 ms bwd fwd where s: "machine_inv a" "wired L orders mutate D (t_router (sy_router s)) (sy_bridge s)"
    "at_work (sy_bridge s)" "ids_fresh (waiting (sy_bridge s)) (br_masterMap (sy_bridge s)) (length (br_futures (sy_bridge s)))"
    "same_user (sy_bridge s) a" "ma_items a = is1 @ is2 @ is3"
    "exactly (c_in (br_client (sy_bridge s))) (map (lib_encode L) ms)" "fabric (sy_router s) bwd fwd"
    "list_all2 (returning orders mutate (t_router (sy_router s)) (br_masterMap (sy_bridge s))) is1 (ms @ bwd)"
    "list_all2 (outgoing (br_masterMap (sy_bridge s))) is2 (fwd @ departing (br_writer (sy_bridge s)))"
    "list_all2 (queued (br_masterMap (sy_bridge s))) is3 (waiting (sy_bridge s))"
    using sim by (rule system_simE)
  have "ma_items a = []"
    using drained_quiet(1) [OF s(1)] quiet s(5) by (simp add: same_user_def)
  then have none: "ms = []" "bwd = []" "fwd = []" "departing (br_writer (sy_bridge s)) = []" "waiting (sy_bridge s) = []"
    using s(6,9-11) by simp_all
  have "br_writer (sy_bridge s) = Writer_Pop"
    using none(4,5) s(3) by (cases "br_writer (sy_bridge s)")
      (auto simp: at_work_def writer_works_def departing_def waiting_def split: option.splits)
  then show ?thesis
    using s(2-4,7,8) none quiet by (simp add: at_rest_def waiting_def)
qed

lemma quiet_run_at_rest:
  assumes "slaves_fill S" "at_rest L orders mutate D s0" "system_run L S orders mutate s0 cs s"
    and "Pending \<notin> set (br_futures (sy_bridge s))"
  shows "at_rest L orders mutate D s"
  by (rule system_run_sim [OF assms(1-3)]) (rule quiet_at_rest [OF _ assms(4)])

lemma fabric_closing:
  assumes "fabric r [] []"
  shows "closing_router m r At_queue r"
proof -
  obtain rd w ins where r: "\<not> t_exited r" "t_readers r = [rd]" "t_writers r = [w]" "t_in r = [ins]" "length (t_out r) = 1"
      "rd \<noteq> Reader_Done" "w \<noteq> Writer_Done" "t_route r = Route_Waiting \<or> (\<exists>m. t_route r = Route_Sending [(0, m)] True)"
      "written w = []" "passed (t_route r) = []" "offered rd = []" "ins = []"
    using assms unfolding fabric_def by auto
  then have "rd = Reading" "w = Writer_Idle" "t_route r = Route_Waiting"
    by (cases rd; cases w; auto simp: written_def passed_def offered_def)+
  moreover have "t_out r = [t_out r ! 0]"
    using r(5) by (cases "t_out r") simp_all
  ultimately show ?thesis
    using r(1-4,12) by (simp add: closing_router_def)
qed

text \<open>The call that ends the session.\<close>

definition terminated :: "u64 \<Rightarrow> 'w system \<Rightarrow> 'w system" where
  "terminated m s = s\<lparr>sy_bridge := Master_terminate m (sy_bridge s)\<rparr>"

lemma terminated_closing:
  assumes rest: "at_rest L orders mutate D s" and m: "map_of (br_masterMap (sy_bridge s)) m \<noteq> None"
    and short: "length (lib_encode L done_message) \<le> vector_max_size"
  shows "closing L orders m s (terminated m s)
    (At_queue, q_popper (br_queue (sy_bridge s)), Suc (q_notify (br_queue (sy_bridge s))))"
proof -
  have w: "at_work (sy_bridge s)" "wired L orders mutate D (t_router (sy_router s)) (sy_bridge s)" "fabric (sy_router s) [] []"
    "br_writer (sy_bridge s) = Writer_Pop" "q_items (br_queue (sy_bridge s)) = []" "c_in (br_client (sy_bridge s)) = []"
    using rest by (simp_all add: at_rest_def)
  have "may_close L orders m (sy_router s)"
    using w(2) m short by (simp add: may_close_def wired_def)
  moreover have "closing_bridge L m (sy_bridge s) (At_queue, q_popper (br_queue (sy_bridge s)),
      Suc (q_notify (br_queue (sy_bridge s)))) (Master_terminate m (sy_bridge s))"
    using w by (simp add: closing_bridge.simps Master_terminate_def push_txn_def q_push_def term_txn_def at_work_def kept_def
        user_state_def)
  moreover have "closing_router m (sy_router s) At_queue (sy_router s)"
    using w(3) by (rule fabric_closing)
  ultimately show ?thesis
    by (simp add: closing_def terminated_def)
qed

end
