(* ===== verification/Session_Outcomes.thy ===== *)
theory Session_Outcomes
  imports Session_End
begin

text \<open>
  How a session ends, in terms of the program: the states in which it is over, hangs, or has lost its router;
  that the threads come to rest in one of them, what decides which; and what a run of the closed system never
  changes.
\<close>

section \<open>The outcomes\<close>

text \<open>
  The session is over: \<^verbatim>\<open>waitForCompletion\<close> returns with success, the client has logged out, all goroutines of
  the router have ended. Or it hangs: the reader has ended, the writer sleeps though the queue is finished,
  \<^verbatim>\<open>waitForCompletion\<close> is blocked, and the router waits for the logout.
\<close>

definition session_over :: "'w system \<Rightarrow> bool" where
  "session_over s \<longleftrightarrow> c_state (br_client (sy_bridge s)) = LOGGED_OUT \<and> all_done (sy_router s)
     \<and> Bridge_waitForCompletion (sy_bridge s)
       = Some (Ret ((sy_bridge s)\<lparr>br_reader := Reader_Absent, br_writer := Writer_Absent\<rparr>, status_ok))"

definition session_hangs :: "'w system \<Rightarrow> bool" where
  "session_hangs s \<longleftrightarrow> c_state (br_client (sy_bridge s)) = STARTED \<and> br_reader (sy_bridge s) = Reader_Exited
     \<and> q_done (br_queue (sy_bridge s)) \<and> writer_waits (sy_bridge s)
     \<and> Bridge_waitForCompletion (sy_bridge s) = None \<and> \<not> t_exited (sy_router s) \<and> \<not> all_done (sy_router s)"

definition router_lost :: "'w system \<Rightarrow> bool" where
  "router_lost s \<longleftrightarrow> t_exited (sy_router s) \<and> br_reader (sy_bridge s) = Reader_Running
     \<and> \<not> q_done (br_queue (sy_bridge s)) \<and> writer_waits (sy_bridge s) \<and> Bridge_waitForCompletion (sy_bridge s) = None"

lemma closing_over:
  assumes "closing L orders m s0 s (Session_over, p, k)"
  shows "session_over s"
  using assms by (auto simp: closing_def closing_bridge.simps closing_router_def session_over_def all_done_def
      Bridge_waitForCompletion_def Let_def status_ok_def isError_def)

lemma closing_hangs:
  assumes "closing L orders m s0 s (Reader_stopped, Waiting, k)"
  shows "session_hangs s"
  using assms by (auto simp: closing_def closing_bridge.simps closing_router_def session_hangs_def all_done_def
      Bridge_waitForCompletion_def writer_waits_def)

lemma closing_lost:
  assumes "closing L orders m s0 s (Router_killed, Waiting, k)"
  shows "router_lost s"
  using assms by (auto simp: closing_def closing_bridge.simps closing_router_def router_lost_def
      Bridge_waitForCompletion_def writer_waits_def)

text \<open>Where the threads can do nothing more.\<close>

lemma closing_stuck:
  assumes s: "closing L orders m s0 s c" "end_ok c" "end_way (last_master s0) c"
    and "\<nexists>s'. thread_step L S orders mutate s s'"
  shows "if last_master s0 then session_over s \<or> session_hangs s else router_lost s"
proof -
  obtain st p k where c: "c = (st, p, k)"
    by (cases c)
  have "\<nexists>c'. end_step (last_master s0) c c'"
    using cl.stuck [OF s(1)] assms(4) by blast
  with s(2) have "k = 0 \<and> (st = Session_over \<or> (st = Reader_stopped \<or> st = Router_killed) \<and> p = Waiting)"
    unfolding c by (rule end_stuck)
  then consider "st = Session_over" | "st = Reader_stopped" "p = Waiting" | "st = Router_killed" "p = Waiting"
    by blast
  then show ?thesis
  proof cases
    case 1
    then show ?thesis
      using closing_over [OF s(1) [unfolded c 1]] s(3) by (simp add: c)
  next
    case 2
    then show ?thesis
      using closing_hangs [OF s(1) [unfolded c 2]] s(3) by (simp add: c)
  next
    case 3
    then show ?thesis
      using closing_lost [OF s(1) [unfolded c 3]] s(3) by (simp add: c)
  qed
qed

lemma closing_user:
  assumes "closing L orders m s0 s c"
  shows "user_state (sy_bridge s) = user_state (sy_bridge s0)"
    and "t_out (sy_router s) = [t_out (sy_router s0) ! 0 @ announced_by (fst c)]"
    and "br_slaveMap (sy_bridge s) = br_slaveMap (sy_bridge s0)" "br_deleted (sy_bridge s) = br_deleted (sy_bridge s0)"
    and "br_masterMap (sy_bridge s) = br_masterMap (sy_bridge s0)"
  using assms by (cases c; simp add: closing_def closing_bridge.simps closing_router_def kept_def)+

lemma closing_bounded:
  "closing L orders m s0 s c \<Longrightarrow> (thread_step L S orders mutate ^^ n) s s' \<Longrightarrow> n \<le> end_work c"
  by (rule cl.bounded [where weight = end_work]) (rule end_step_work)

lemma closing_threads:
  assumes "(thread_step L S orders mutate ^^ n) s s'" and s: "closing L orders m s0 s c" "end_ok c" "end_way (last_master s0) c"
  obtains c' where "closing L orders m s0 s' c'" "end_ok c'" "end_way (last_master s0) c'" "end_run (last_master s0) c c'"
proof -
  obtain c' where c': "end_run (last_master s0) c c'" "closing L orders m s0 s' c'"
    using cl.runs_forth [OF relpowp_imp_rtranclp [OF assms(1)] s(1)] by blast
  have "end_ok c' \<and> end_way (last_master s0) c'"
    using c'(1) s(2,3) by (induction rule: rtranclp_induct) (auto dest: end_step_ok end_step_way simp del: end_ok.simps end_way.simps)
  with c' that show thesis by blast
qed

text \<open>From the call of \<^verbatim>\<open>terminate\<close> on.\<close>

lemma terminated_idle:
  assumes S: "slaves_fill S" "at_rest L orders mutate D s0" "system_run L S orders mutate s0 cs s"
    and quiet: "Pending \<notin> set (br_futures (sy_bridge s))"
    and m: "map_of (br_masterMap (sy_bridge s)) m \<noteq> None"
    and short: "length (lib_encode L done_message) \<le> vector_max_size"
    and run: "idle_run L S orders mutate (terminated m s) s'"
  obtains c where "closing L orders m s s' c" "end_ok c" "end_way (last_master s) c"
proof -
  have "at_rest L orders mutate D s"
    using S quiet by (rule quiet_run_at_rest)
  note start = terminated_closing [OF this m short]
  obtain c where "closing L orders m s s' c" "end_ok c" "end_way (last_master s) c"
    by (rule closing_idle [OF run start]) simp_all
  then show thesis
    by (rule that)
qed

text \<open>Once the reader has stopped, what the writer does decides.\<close>

lemma closing_decided:
  assumes s: "closing L orders m s0 s c" "end_ok c" "decided over c"
    and stuck: "\<nexists>s'. thread_step L S orders mutate s s'"
  shows "if over then session_over s else session_hangs s"
proof -
  obtain st p k where c: "c = (st, p, k)"
    by (cases c)
  have "\<nexists>c'. end_step (last_master s0) c c'"
    using cl.stuck [OF s(1)] stuck by blast
  with s(2) have ends: "k = 0 \<and> (st = Session_over \<or> (st = Reader_stopped \<or> st = Router_killed) \<and> p = Waiting)"
    unfolding c by (rule end_stuck)
  show ?thesis
  proof (cases over)
    case True
    with s(3) ends have "st = Session_over"
      by (auto simp: c)
    with True show ?thesis
      using closing_over s(1) by (simp add: c)
  next
    case False
    with s(3) ends have "st = Reader_stopped" "p = Waiting"
      by (auto simp: c)
    with False show ?thesis
      using closing_hangs s(1) by (simp add: c)
  qed
qed

lemma closing_reader_left:
  assumes "closing L orders m s0 s (st, p, k)" "br_reader (sy_bridge s) = Reader_Exited" "br_writer (sy_bridge s) = Writer_Pop"
  shows "st = Reader_stopped" "p = q_popper (br_queue (sy_bridge s))" "k = q_notify (br_queue (sy_bridge s))"
proof -
  have st: "reader_left st" "fst (snd (writer_side m st)) = Writer_Pop"
    using assms by (cases "writer_side m st"; simp add: closing_def closing_bridge.simps split: if_splits)+
  then show "st = Reader_stopped"
    by (cases st) simp_all
  show "p = q_popper (br_queue (sy_bridge s))" "k = q_notify (br_queue (sy_bridge s))"
    using assms(1) by (simp_all add: closing_def closing_bridge.simps)
qed

lemma dead_end: "\<not> end_step final (Reader_stopped, Waiting, 0) c"
  by (auto elim: end_stepE)

text \<open>Both outcomes are open when \<^verbatim>\<open>terminate\<close> is called.\<close>

lemma closing_open:
  assumes s: "closing L orders m s0 s (At_queue, p, k)" "end_ok (At_queue, p, k)" "last_master s0"
  shows "\<exists>s' c. (thread_step L S orders mutate)\<^sup>*\<^sup>* s s' \<and> closing L orders m s0 s' c \<and> session_over s'"
    and "\<exists>s'. (thread_step L S orders mutate)\<^sup>*\<^sup>* s s' \<and> session_hangs s' \<and> (\<nexists>s''. thread_step L S orders mutate s' s'')"
proof -
  have run: "end_run (last_master s0) = end_run True"
    using s(3) by simp
  obtain s' where s': "(thread_step L S orders mutate)\<^sup>*\<^sup>* s s'" "closing L orders m s0 s' (Session_over, Outside, 0)"
    using cl.runs_back [OF _ s(1)] run_to_the_end [OF s(2)] unfolding run by blast
  with closing_over show "\<exists>s' c. (thread_step L S orders mutate)\<^sup>*\<^sup>* s s' \<and> closing L orders m s0 s' c \<and> session_over s'"
    by blast
  obtain s2 where s2: "(thread_step L S orders mutate)\<^sup>*\<^sup>* s s2" "closing L orders m s0 s2 (Reader_stopped, Waiting, 0)"
    using cl.runs_back [OF _ s(1)] run_to_sleep [OF s(2)] unfolding run by blast
  moreover have "\<nexists>s''. thread_step L S orders mutate s2 s''"
    using cl.stuck [OF s2(2)] dead_end by blast
  ultimately show "\<exists>s'. (thread_step L S orders mutate)\<^sup>*\<^sup>* s s' \<and> session_hangs s'
      \<and> (\<nexists>s''. thread_step L S orders mutate s' s'')"
    using closing_hangs by blast
qed

section \<open>The router process is gone\<close>

lemma end_lost: "end_way False c \<Longrightarrow> announced_by (fst c) = [] \<and> \<not> reader_left (fst c) \<and> arriving (fst c) = []"
  by (cases c; cases "fst c") auto

text \<open>A reader that meets the end of the connection stops with an error.\<close>

lemma Bridge_reader_eof:
  assumes "c_in (br_client b) = []" "c_state (br_client b) = STARTED" "c_sock (br_client b) \<noteq> -1"
  obtains b' where "Bridge_reader L S b = Ret b'" "br_reader b' = Reader_Exited" "isError (br_readerStatus b')"
proof -
  have "readFromSocket (c_sock (br_client b)) [] [] = Ret (-1, [], [])"
    using assms(3) by (simp add: readFromSocket_eq Let_def head_len_def)
  then show ?thesis
    using assms that by (simp add: Bridge_reader_def RouterClient_receiveTransaction_def client_read_def mk_status_def
        isError_def getCode_def DONE_code_def stop_reader_def)
qed

section \<open>What a run keeps\<close>

abbreviation same_tables :: "'w bridge \<Rightarrow> 'w bridge \<Rightarrow> bool" where
  "same_tables b b' \<equiv> br_slaveMap b' = br_slaveMap b \<and> br_deleted b' = br_deleted b
     \<and> (\<forall>i. map_of (br_masterMap b) i \<noteq> None \<longrightarrow> map_of (br_masterMap b') i \<noteq> None)"

lemma reader_keeps:
  "post (same_tables b) (reader_response txn b)" "post (same_tables b) (reader_request S txn b)"
proof -
  show "post (same_tables b) (reader_response txn b)"
    by (auto simp: reader_response_def Let_def stop_reader_def set_masterMap_def AList.update_conv' intro!: post_all
        split: option.split)
  show "post (same_tables b) (reader_request S txn b)"
    unfolding reader_request_def
    by (cases "map_of (br_slaveMap b) (txn_target txn)")
      (simp add: stop_reader_def, simp add: Let_def push_txn_def del: post_deref split del: if_split,
        rule post_all, simp split: prod.split)
qed

lemma Bridge_reader_keeps: "post (same_tables b) (Bridge_reader L S b)"
proof (cases "RouterClient_receiveTransaction L (br_client b)")
  case (Ret x)
  obtain c t st where x: "x = (c, t, st)"
    by (cases x)
  show ?thesis
    using reader_keeps [of "b\<lparr>br_client := c\<rparr>"] by (simp add: Bridge_reader_def Ret x Let_def stop_reader_def)
qed (simp_all add: Bridge_reader_def)

lemma Bridge_writer_keeps: "post (same_tables b) (Bridge_writer L b)"
  by (cases "br_writer b") (auto simp: Bridge_writer_def Let_def stop_writer_def assign_id_def writer_send_def set_masterMap_def
      AList.update_conv' split: prod.split pop_result.split)

lemma closing_eof:
  assumes s: "closing L orders m s0 s c" "end_way False c"
  shows "\<exists>b. Bridge_reader L S (sy_bridge s) = Ret b \<and> br_reader b = Reader_Exited \<and> isError (br_readerStatus b)"
proof -
  obtain st p k where c: "c = (st, p, k)"
    by (cases c)
  have st: "arriving st = []" "\<not> reader_left st"
    using end_lost [OF s(2)] by (simp_all add: c)
  then have "snd (snd (writer_side m st)) = STARTED"
    by (cases st) simp_all
  with s(1) st have "c_in (br_client (sy_bridge s)) = []" "c_state (br_client (sy_bridge s)) = STARTED"
      "c_sock (br_client (sy_bridge s)) \<noteq> -1"
    by (cases "writer_side m st"; simp add: c closing_def closing_bridge.simps)+
  then show ?thesis
    by (rule Bridge_reader_eof) blast
qed

text \<open>What a run changes nothing of: the router's tables, the slaves, and which masters there are.\<close>

definition same_parts :: "'w system \<Rightarrow> 'w system \<Rightarrow> bool" where
  "same_parts s s' \<longleftrightarrow> t_router (sy_router s') = t_router (sy_router s) \<and> same_tables (sy_bridge s) (sy_bridge s')"

lemma go_step_router:
  assumes "go_step orders mutate r r'" "length (t_readers r) = 1"
    and "\<And>m order. t_readers r ! 0 = Offering m \<Longrightarrow> order \<in> orders \<Longrightarrow>
      \<exists>outs. route order mutate m (t_router r) = Ret (t_router r, outs, True)"
  shows "t_router r' = t_router r"
  using assms(1)
proof cases
  case (Receive i m order r1 outs on)
  then have "t_readers r ! 0 = Offering m"
    using assms(2) by simp
  from assms(3) [OF this Receive(6)] show ?thesis
    using Receive by auto
qed simp_all

lemma thread_keeps:
  assumes sim: "system_sim L S orders mutate D s a" and step: "thread_step L S orders mutate s s'"
  shows "same_parts s s'"
proof -
  note reader = postD [OF Bridge_reader_keeps]
  note writer = postD [OF Bridge_writer_keeps]
  have "length (t_readers (sy_router s)) = 1"
    using sim by (auto simp: system_sim_def ring_def fabric_def)
  then have router: "t_router r' = t_router (sy_router s)" if "go_step orders mutate (sy_router s) r'" for r'
    using that sim_router_lives [OF sim] by (intro go_step_router) blast+
  from step show ?thesis
  proof cases
    case (Thr_reader b)
    then show ?thesis using reader [OF Thr_reader(4)] by (simp add: same_parts_def)
  next
    case (Thr_writer b)
    then show ?thesis using writer [OF Thr_writer(5)] by (simp add: same_parts_def)
  next
    case (Thr_writer_sends b m)
    then show ?thesis using writer [OF Thr_writer_sends(5)] by (simp add: same_parts_def)
  next
    case (Thr_router r')
    then show ?thesis using router [OF Thr_router(2)] by (simp add: same_parts_def)
  next
    case (Thr_router_sends r' m es)
    then show ?thesis using router [OF Thr_router_sends(2)] by (simp add: same_parts_def receive_events_def)
  qed (simp_all add: same_parts_def)
qed

lemma same_parts_trans: "same_parts s s1 \<Longrightarrow> same_parts s1 s2 \<Longrightarrow> same_parts s s2"
  by (simp add: same_parts_def)

lemma system_step_keeps:
  assumes sim: "system_sim L S orders mutate D s a" and step: "system_step L S orders mutate s l s'"
  shows "same_parts s s'"
  using step
proof cases
  case Sys_thread
  then show ?thesis using thread_keeps [OF sim] by simp
next
  case (Sys_read m buffer b f)
  then show ?thesis by (auto simp: same_parts_def Master_read_def get_future_def push_txn_def Let_def)
next
  case (Sys_write m buffer bytes b f)
  then show ?thesis
    by (auto simp: same_parts_def Master_write_def get_future_def push_txn_def Let_def bind_outcome_eq_Ret split: if_splits)
qed (auto simp: same_parts_def)

lemma system_run_keeps:
  assumes "slaves_fill S" "at_rest L orders mutate D s0" "system_run L S orders mutate s0 cs s"
  shows "same_parts s0 s"
  using assms(3)
proof (induction rule: labelled_run.induct)
  case Run_none
  then show ?case by (simp add: same_parts_def)
next
  case (Run_internal cs s1 s2)
  obtain a where "system_sim L S orders mutate D s1 a"
    using system_run_sim [OF assms(1,2) Run_internal.hyps(1)] by blast
  from system_step_keeps [OF this Run_internal.hyps(2)] Run_internal.IH show ?case
    by (rule same_parts_trans [rotated])
next
  case (Run_call cs s1 c s2)
  obtain a where "system_sim L S orders mutate D s1 a"
    using system_run_sim [OF assms(1,2) Run_call.hyps(1)] by blast
  from system_step_keeps [OF this Run_call.hyps(2)] Run_call.IH show ?case
    by (rule same_parts_trans [rotated])
qed

text \<open>How \<^verbatim>\<open>main\<close> of the test ends then.\<close>

lemma over_finishes:
  assumes "session_over s" "br_slaveMap (sy_bridge s) = [(0, Some ram)]" "ram \<notin> set (br_deleted (sy_bridge s))"
  shows "test_finish (sy_bridge s) = Some (Ret 0)"
  using assms by (simp add: session_over_def test_finish_def isError_def status_ok_def Bridge_disconnect_def Bridge_destroy_def
      List.map_filter_def)

lemma hangs_finishes: "session_hangs s \<Longrightarrow> test_finish (sy_bridge s) = None"
  by (simp add: session_hangs_def test_finish_def)

end
