(* ===== verification/Session_Properties.thy ===== *)
theory Session_Properties
  imports Session_Outcomes
begin

text \<open>
  The properties of the end of a session: it ends or hangs, which of the two is a race between the bridge's own
  threads; a master that is not the last one ends the router; and what the test program prints and returns.
\<close>

section \<open>Instances\<close>

lemma test_done_short: "length (lib_encode example_lib done_message) \<le> vector_max_size"
  by (simp add: lib_encode_example enc_sizes new_Message_def vector_max_size_def)

lemma test_last_master: "last_master test_system"
  by (simp add: last_master_def test_system_def start_threads_def test_router_def)

text \<open>The program of the test after its two calls.\<close>

lemma test_session:
  obtains s where "system_run example_lib ram_slaves {map snd} mutate_present test_system test_calls s"
    "Pending \<notin> set (br_futures (sy_bridge s))" "map_of (br_masterMap (sy_bridge s)) 1 \<noteq> None" "last_master s"
proof -
  obtain s where s: "system_run example_lib ram_slaves {map snd} mutate_present test_system test_calls s"
    "Pending \<notin> set (br_futures (sy_bridge s))"
    by (rule test_run_quiet)
  have "same_parts test_system s"
    using slaves_fill_ram test_at_rest s(1) by (rule system_run_keeps)
  then have "map_of (br_masterMap (sy_bridge s)) 1 \<noteq> None" "last_master s"
    using test_last_master by (simp_all add: same_parts_def last_master_def) (simp add: test_system_def)
  with s that show thesis by blast
qed

text \<open>The same program with a second master, at rest.\<close>

definition second_block :: IpInfo where
  "second_block = master_block\<lparr>ii_name := ''Other-Master'', ii_id := 2\<rparr>"

definition two_masters :: "Ram system" where
  "two_masters = \<lparr>sy_bridge = test_bridge\<lparr>br_masterMap := [(1, \<lparr>md_master = Some 1, md_txns = [], md_lastTxnId = 0\<rparr>),
       (2, \<lparr>md_master = Some 2, md_txns = [], md_lastTxnId = 0\<rparr>)]\<rparr>,
     sy_router = (sy_router test_system)\<lparr>t_router := (test_router (client_info test_env))\<lparr>r_ipCount := 3, r_masterCount := 2,
       r_ipMMap := [(0x1000, ram_block), (0, second_block)], r_ips := [ram_block, master_block, second_block]\<rparr>\<rparr>\<rparr>"

lemma two_masters_target:
  "findTarget (map snd) a n (t_router (sy_router two_masters)) = findTarget (map snd) a n (test_router (client_info test_env))"
  by (simp add: findTarget_def two_masters_def test_router_def covers_def second_block_def master_block_def)

lemma two_masters_at_rest: "at_rest example_lib {map snd} mutate_present (ram_directory 9) two_masters"
proof -
  have rest: "at_rest example_lib {map snd} mutate_present (ram_directory 9) test_system"
    by (rule test_at_rest)
  then have w: "wired example_lib {map snd} mutate_present (ram_directory 9) (test_router (client_info test_env)) test_bridge"
    by (simp add: at_rest_def test_system_def start_threads_def)
  have sy: "br_slaveMap (sy_bridge two_masters) = br_slaveMap test_bridge" "br_deleted (sy_bridge two_masters) = br_deleted test_bridge"
    "br_masterMap (sy_bridge two_masters) = [(1, \<lparr>md_master = Some 1, md_txns = [], md_lastTxnId = 0\<rparr>),
       (2, \<lparr>md_master = Some 2, md_txns = [], md_lastTxnId = 0\<rparr>)]"
    "length (r_clients (t_router (sy_router two_masters))) = 1"
    "r_ips (t_router (sy_router two_masters)) = [ram_block, master_block, second_block]"
    by (simp_all add: two_masters_def test_router_def)
  have "wired example_lib {map snd} mutate_present (ram_directory 9) (t_router (sy_router two_masters)) (sy_bridge two_masters)"
    using w unfolding wired_def two_masters_target sy(1,2,4,5) sy(3)
    by (simp add: two_masters_target second_block_def master_block_def split del: if_split del: test_bridge_simps) auto
  moreover have "at_work (sy_bridge two_masters)" "fabric (sy_router two_masters) [] []"
    using rest by (simp_all add: at_rest_def at_work_def writer_works_def fabric_def two_masters_def test_system_def)
  moreover have "ids_fresh [] (br_masterMap (sy_bridge two_masters)) (length (br_futures (sy_bridge two_masters)))"
    by (simp add: ids_fresh_def two_masters_def)
  ultimately show ?thesis
    using rest by (simp add: at_rest_def two_masters_def test_system_def)
qed

lemma two_masters_not_last: "\<not> last_master two_masters"
  by (simp add: last_master_def two_masters_def)

section \<open>Properties\<close>

text \<open>
  C4: a session that the last master terminates comes to its end or hangs, and nothing else happens. In a
  run of reads and writes of a system wired as for C1, when all futures are ready and \<^verbatim>\<open>terminate\<close> is called, from every state of the run after that there is a bound on the
  number of steps the threads can still make, and where no thread can make a step either the session is over
  (\<^verbatim>\<open>waitForCompletion\<close> returns with success, the client has logged out, every goroutine of the router has
  ended) or it hangs (the reader has ended, the writer sleeps though the queue is finished,
  \<^verbatim>\<open>waitForCompletion\<close> is blocked). Neither the memory, nor a future, nor the slaves have changed by then.
\<close>

theorem session_ends:
  assumes S: "slaves_fill S" "at_rest L orders mutate D s0" "system_run L S orders mutate s0 cs s"
    and quiet: "Pending \<notin> set (br_futures (sy_bridge s))"
    and m: "map_of (br_masterMap (sy_bridge s)) m \<noteq> None"
    and short: "length (lib_encode L done_message) \<le> vector_max_size"
    and last_one: "last_master s"
    and run: "idle_run L S orders mutate (terminated m s) s1"
  shows "user_state (sy_bridge s1) = user_state (sy_bridge s) \<and> \<not> t_exited (sy_router s1)
    \<and> (\<exists>N. \<forall>n s2. (thread_step L S orders mutate ^^ n) s1 s2 \<longrightarrow>
         n \<le> N \<and> ((\<nexists>s3. thread_step L S orders mutate s2 s3) \<longrightarrow> session_over s2 \<or> session_hangs s2))"
proof -
  obtain c where c: "closing L orders m s s1 c" "end_ok c" "end_way (last_master s) c"
    using S quiet m short run by (rule terminated_idle)
  have "\<not> t_exited (sy_router s1)"
    using c last_one by (cases c; cases "fst c") (auto simp: closing_def closing_router_def)
  moreover have "n \<le> end_work c \<and> ((\<nexists>s3. thread_step L S orders mutate s2 s3) \<longrightarrow> session_over s2 \<or> session_hangs s2)"
    if steps: "(thread_step L S orders mutate ^^ n) s1 s2" for n s2
  proof -
    obtain c' where "closing L orders m s s2 c'" "end_ok c'" "end_way (last_master s) c'"
      using steps c by (rule closing_threads)
    from closing_stuck [OF this] closing_bounded [OF c(1) steps] last_one show ?thesis
      by simp
  qed
  ultimately show ?thesis
    using closing_user(1) [OF c(1)] by blast
qed

theorem session_ends_witness:
  "\<exists>s. system_run example_lib ram_slaves {map snd} mutate_present test_system test_calls s
    \<and> user_state (sy_bridge (terminated 1 s)) = user_state (sy_bridge s)
    \<and> (\<exists>N. \<forall>n s2. (thread_step example_lib ram_slaves {map snd} mutate_present ^^ n) (terminated 1 s) s2 \<longrightarrow>
         n \<le> N \<and> ((\<nexists>s3. thread_step example_lib ram_slaves {map snd} mutate_present s2 s3) \<longrightarrow>
           session_over s2 \<or> session_hangs s2))"
proof -
  obtain s where s: "system_run example_lib ram_slaves {map snd} mutate_present test_system test_calls s"
    "Pending \<notin> set (br_futures (sy_bridge s))" "map_of (br_masterMap (sy_bridge s)) 1 \<noteq> None" "last_master s"
    by (rule test_session)
  from session_ends [OF slaves_fill_ram test_at_rest s(1-3) test_done_short s(4) rtranclp.rtrancl_refl] s(1)
  show ?thesis by blast
qed

text \<open>
  C5: which of the two outcomes it is, is a race of the bridge's own threads, in the same runs.
  When \<^verbatim>\<open>terminate\<close> has been
  called both can still be reached, and the state in which the session hangs is one no thread can leave. It is
  decided when the reader has finished the queue: if the writer sleeps with the notification still to come, or
  has been woken, the session ends however the threads go on; if it does not sleep yet and no notification is
  left, it goes to sleep without looking at the mark of the end, and the session hangs however they go on.
\<close>

theorem session_race:
  assumes S: "slaves_fill S" "at_rest L orders mutate D s0" "system_run L S orders mutate s0 cs s"
    and quiet: "Pending \<notin> set (br_futures (sy_bridge s))"
    and m: "map_of (br_masterMap (sy_bridge s)) m \<noteq> None"
    and short: "length (lib_encode L done_message) \<le> vector_max_size"
    and last_one: "last_master s"
  shows "(\<exists>s1. (thread_step L S orders mutate)\<^sup>*\<^sup>* (terminated m s) s1 \<and> session_over s1)
    \<and> (\<exists>s1. (thread_step L S orders mutate)\<^sup>*\<^sup>* (terminated m s) s1 \<and> session_hangs s1
         \<and> (\<nexists>s2. thread_step L S orders mutate s1 s2))
    \<and> (\<forall>s1 n s2. idle_run L S orders mutate (terminated m s) s1 \<and> (thread_step L S orders mutate ^^ n) s1 s2
         \<and> (\<nexists>s3. thread_step L S orders mutate s2 s3)
         \<and> br_reader (sy_bridge s1) = Reader_Exited \<and> br_writer (sy_bridge s1) = Writer_Pop \<longrightarrow>
         (case q_popper (br_queue (sy_bridge s1)) of
            Woken \<Rightarrow> session_over s2
          | Waiting \<Rightarrow> if 0 < q_notify (br_queue (sy_bridge s1)) then session_over s2 else session_hangs s2
          | Outside \<Rightarrow> q_notify (br_queue (sy_bridge s1)) = 0 \<longrightarrow> session_hangs s2))"
proof -
  have "at_rest L orders mutate D s"
    using S quiet by (rule quiet_run_at_rest)
  note start = terminated_closing [OF this m short]
  have decides: "if over then session_over s2 else session_hangs s2"
    if idle: "idle_run L S orders mutate (terminated m s) s1" and steps: "(thread_step L S orders mutate ^^ n) s1 s2"
      and stuck: "\<nexists>s3. thread_step L S orders mutate s2 s3"
      and reader: "br_reader (sy_bridge s1) = Reader_Exited" "br_writer (sy_bridge s1) = Writer_Pop"
      and over: "decided over (Reader_stopped, q_popper (br_queue (sy_bridge s1)), q_notify (br_queue (sy_bridge s1)))"
    for s1 n s2 over
  proof -
    obtain c0 where c0: "closing L orders m s s1 c0" "end_ok c0" "end_way (last_master s) c0"
      using S quiet m short idle by (rule terminated_idle)
    obtain st p k where "c0 = (st, p, k)"
      by (cases c0)
    note c = c0 [unfolded this]
    obtain c' where "closing L orders m s s2 c'" "end_ok c'" "end_run (last_master s) (st, p, k) c'"
      using steps c by (rule closing_threads)
    moreover have "decided over (st, p, k)"
      using over closing_reader_left [OF c(1) reader] by simp
    ultimately show ?thesis
      using decided_run stuck by (intro closing_decided) blast+
  qed
  show ?thesis
  proof (intro conjI allI impI)
    show "\<exists>s1. (thread_step L S orders mutate)\<^sup>*\<^sup>* (terminated m s) s1 \<and> session_over s1"
      "\<exists>s1. (thread_step L S orders mutate)\<^sup>*\<^sup>* (terminated m s) s1 \<and> session_hangs s1
         \<and> (\<nexists>s2. thread_step L S orders mutate s1 s2)"
      using closing_open [OF start _ last_one, of S mutate] by fastforce+
  next
    fix s1 n s2
    assume s1: "idle_run L S orders mutate (terminated m s) s1 \<and> (thread_step L S orders mutate ^^ n) s1 s2
         \<and> (\<nexists>s3. thread_step L S orders mutate s2 s3)
         \<and> br_reader (sy_bridge s1) = Reader_Exited \<and> br_writer (sy_bridge s1) = Writer_Pop"
    then show "case q_popper (br_queue (sy_bridge s1)) of
            Woken \<Rightarrow> session_over s2
          | Waiting \<Rightarrow> if 0 < q_notify (br_queue (sy_bridge s1)) then session_over s2 else session_hangs s2
          | Outside \<Rightarrow> q_notify (br_queue (sy_bridge s1)) = 0 \<longrightarrow> session_hangs s2"
      using decides [of s1 n s2 True] decides [of s1 n s2 False] by (auto split: popper.split)
  qed
qed

theorem session_race_witness:
  "\<exists>s s1 s2. system_run example_lib ram_slaves {map snd} mutate_present test_system test_calls s
    \<and> (thread_step example_lib ram_slaves {map snd} mutate_present)\<^sup>*\<^sup>* (terminated 1 s) s1 \<and> session_over s1
    \<and> (thread_step example_lib ram_slaves {map snd} mutate_present)\<^sup>*\<^sup>* (terminated 1 s) s2 \<and> session_hangs s2"
proof -
  obtain s where s: "system_run example_lib ram_slaves {map snd} mutate_present test_system test_calls s"
    "Pending \<notin> set (br_futures (sy_bridge s))" "map_of (br_masterMap (sy_bridge s)) 1 \<noteq> None" "last_master s"
    by (rule test_session)
  from session_race [OF slaves_fill_ram test_at_rest s(1-3) test_done_short s(4)] s(1)
  show ?thesis by blast
qed

text \<open>
  C6: a \<^verbatim>\<open>terminate\<close> of a master that is not the last one ends the router, in the same runs. Its routing loop answers a TERMINATE
  that leaves a master over with the end of the process; no DONE is ever sent. The threads of the bridge come to
  rest with the reader waiting for a message, and \<^verbatim>\<open>waitForCompletion\<close> blocked; when the reader meets the end of
  the connection it stops with an error.
\<close>

theorem terminate_of_another:
  assumes S: "slaves_fill S" "at_rest L orders mutate D s0" "system_run L S orders mutate s0 cs s"
    and quiet: "Pending \<notin> set (br_futures (sy_bridge s))"
    and m: "map_of (br_masterMap (sy_bridge s)) m \<noteq> None"
    and short: "length (lib_encode L done_message) \<le> vector_max_size"
    and another: "\<not> last_master s"
    and run: "idle_run L S orders mutate (terminated m s) s1"
  shows "user_state (sy_bridge s1) = user_state (sy_bridge s) \<and> t_out (sy_router s1) = t_out (sy_router s)
    \<and> (\<exists>N. \<forall>n s2. (thread_step L S orders mutate ^^ n) s1 s2 \<longrightarrow>
         n \<le> N \<and> ((\<nexists>s3. thread_step L S orders mutate s2 s3) \<longrightarrow> router_lost s2
           \<and> (\<exists>b. Bridge_reader L S (sy_bridge s2) = Ret b \<and> br_reader b = Reader_Exited \<and> isError (br_readerStatus b))))"
proof -
  obtain c where c: "closing L orders m s s1 c" "end_ok c" "end_way (last_master s) c"
    using S quiet m short run by (rule terminated_idle)
  have rest: "at_rest L orders mutate D s"
    using S quiet by (rule quiet_run_at_rest)
  then have "length (t_out (sy_router s)) = 1"
    by (auto simp: at_rest_def fabric_def)
  then have "[t_out (sy_router s) ! 0] = t_out (sy_router s)"
    by (cases "t_out (sy_router s)") simp_all
  moreover have "announced_by (fst c) = []"
    using c(3) end_lost [of c] another by simp
  ultimately have "t_out (sy_router s1) = t_out (sy_router s)"
    using closing_user(2) [OF c(1)] by simp
  moreover have "n \<le> end_work c \<and> ((\<nexists>s3. thread_step L S orders mutate s2 s3) \<longrightarrow> router_lost s2
       \<and> (\<exists>b. Bridge_reader L S (sy_bridge s2) = Ret b \<and> br_reader b = Reader_Exited \<and> isError (br_readerStatus b)))"
    if steps: "(thread_step L S orders mutate ^^ n) s1 s2" for n s2
  proof -
    obtain c' where c': "closing L orders m s s2 c'" "end_ok c'" "end_way (last_master s) c'"
      using steps c by (rule closing_threads)
    have "\<exists>b. Bridge_reader L S (sy_bridge s2) = Ret b \<and> br_reader b = Reader_Exited \<and> isError (br_readerStatus b)"
      using closing_eof [OF c'(1)] c'(3) another by simp
    then show ?thesis
      using closing_stuck [OF c'] closing_bounded [OF c(1) steps] another by simp
  qed
  ultimately show ?thesis
    using closing_user(1) [OF c(1)] by blast
qed

theorem terminate_of_another_witness:
  "\<exists>N. \<forall>n s2. (thread_step example_lib ram_slaves {map snd} mutate_present ^^ n) (terminated 2 two_masters) s2 \<longrightarrow>
         n \<le> N \<and> ((\<nexists>s3. thread_step example_lib ram_slaves {map snd} mutate_present s2 s3) \<longrightarrow> router_lost s2)"
proof -
  have "Pending \<notin> set (br_futures (sy_bridge two_masters))" "map_of (br_masterMap (sy_bridge two_masters)) 2 \<noteq> None"
    by (simp_all add: two_masters_def)
  from terminate_of_another [OF slaves_fill_ram two_masters_at_rest Run_none this test_done_short two_masters_not_last
      rtranclp.rtrancl_refl]
  show ?thesis by blast
qed

text \<open>
  C7: the test program \<^verbatim>\<open>tests/02-sw-master-lite\<close> with its router, from the first call on a new bridge to the
  exit code. Its calls up to the enumeration of the peers and IP blocks write what \<open>test_output\<close> says to the
  standard error stream: the router, the one peer, the slave and the master. Then it makes its write and its read; if the member of the
  slave that its constructor leaves uninitialised happens to put the access in bounds (\<open>in_ram\<close>; it need not,
  see \<open>Ram_ignores_its_address\<close>), then in every interleaving of all threads, when both futures are ready, the
  program prints the text it wrote and the same text as read, and MATCH. It calls
  \<^verbatim>\<open>terminate\<close>, and where no thread can do anything more, \<^verbatim>\<open>main\<close> has returned 0, past \<^verbatim>\<open>disconnect\<close> and the
  destructor of the bridge, or it is blocked in \<^verbatim>\<open>waitForCompletion\<close> for ever; both happen.
\<close>

theorem test_program_ends:
  assumes env: "codec L" "e_socket E \<noteq> -1" "e_connect E (sun_path ''/tmp/sw-axi'')" "e_wr E = []" "g_hostname G = Some hn"
    and order: "orders \<noteq> {}" "\<And>order m. order \<in> orders \<Longrightarrow> set (order m) = snd ` set m"
      "\<And>w. wt_target w = 0 \<Longrightarrow> mutate 0 w = w"
    and short: "length (lib_encode L done_message) \<le> vector_max_size"
    and router: "go_Run G [test_messages E] = Ret (Some th)"
    and arrives: "exactly (e_in E) (map (lib_encode L) (t_out th ! 0))"
    and start: "test_start L E ram (new_Bridge ''02-sw-master-lite'' [] mem obj) os = Ret (b, os', Some master, st)"
    and arrays: "wBuffer \<noteq> rBuffer" "mem wBuffer = Some hello" "mem rBuffer = Some bs" "length bs = 13"
    and slave: "in_ram 0x1000 13 obj"
    and calls: "system_run L ram_slaves orders mutate \<lparr>sy_bridge = b, sy_router = th\<rparr>
      [write_call master (write_buffer wBuffer) hello, read_call master (read_buffer rBuffer)] s"
      "Pending \<notin> set (br_futures (sy_bridge s))"
  shows "(between_lines os \<longrightarrow> os_out os' = os_out os @ test_output G E hn)
    \<and> (\<exists>writeStatus readStatus wrote got. br_futures (sy_bridge s) = [Ready writeStatus, Ready readStatus]
      \<and> br_mem (sy_bridge s) wBuffer = Some wrote \<and> br_mem (sy_bridge s) rBuffer = Some got
      \<and> test_report writeStatus readStatus wrote got
        = Ret (''Wrote: Hello world!'' @ [CHR 0x0A] @ ''Read:  Hello world!'' @ [CHR 0x0A] @ ''MATCH!'' @ [CHR 0x0A]))
    \<and> (\<forall>s1. idle_run L ram_slaves orders mutate (terminated master s) s1
         \<and> (\<nexists>s2. thread_step L ram_slaves orders mutate s1 s2) \<longrightarrow>
         test_finish (sy_bridge s1) = Some (Ret 0) \<or> test_finish (sy_bridge s1) = None)
    \<and> (\<exists>s1. (thread_step L ram_slaves orders mutate)\<^sup>*\<^sup>* (terminated master s) s1
         \<and> test_finish (sy_bridge s1) = Some (Ret 0))
    \<and> (\<exists>s1. (thread_step L ram_slaves orders mutate)\<^sup>*\<^sup>* (terminated master s) s1
         \<and> (\<nexists>s2. thread_step L ram_slaves orders mutate s1 s2) \<and> test_finish (sy_bridge s1) = None)"
proof -
  let ?new = "new_Bridge ''02-sw-master-lite'' [] mem obj"
  let ?s0 = "\<lparr>sy_bridge = b, sy_router = th\<rparr>"
  have th: "th = (start_threads [[]] (test_router (client_info E)))\<lparr>t_out := [test_answers G E hn]\<rparr>"
    using router Run_test [OF env(5), of E] by simp
  then have "exactly (e_in E) (map (lib_encode L) (test_answers G E hn))"
    using arrives by simp
  with env have b: "b = started_bridge L G E hn ram ?new" and master: "master = 1"
    and printed: "os' = test_printed G E hn os"
    using start test_start_succeeds [OF env(1-4), of G hn ?new "[]" mem obj ram os] by simp_all
  have rest: "at_rest L orders mutate (ram_directory ram) ?s0"
    unfolding th b using env(1,2) order by (rule test_started_at_rest)
  have parts: "same_parts ?s0 s"
    using slaves_fill_ram rest calls(1) by (rule system_run_keeps)
  have tables: "br_slaveMap b = [(0, Some ram)]" "ram \<notin> set (br_deleted b)" "map_of (br_masterMap b) master \<noteq> None"
    by (simp_all add: b master new_Bridge_def)
  then have kept: "br_slaveMap (sy_bridge s) = [(0, Some ram)]" "ram \<notin> set (br_deleted (sy_bridge s))"
      "map_of (br_masterMap (sy_bridge s)) master \<noteq> None" "last_master s"
    using parts by (simp_all add: same_parts_def last_master_def th start_threads_def test_router_def)
  note run = slaves_fill_ram rest calls
  have "at_rest L orders mutate (ram_directory ram) s"
    using run by (rule quiet_run_at_rest)
  note closes = terminated_closing [OF this kept(3) short]
  have finishes: "test_finish (sy_bridge s1) = Some (Ret 0)"
    if "closing L orders master s s1 c" "session_over s1" for s1 c
    using that(2) by (rule over_finishes) (use closing_user(3,4) [OF that(1)] kept(1,2) in simp_all)
  have "ram_directory ram 0x1000 13 = Inr ram"
    by (simp add: ram_directory_def)
  then obtain ram' where "fold (atomic ram_slaves (ram_directory ram))
      [write_call master (write_buffer wBuffer) hello, read_call master (read_buffer rBuffer)] (mem, [], obj)
      = (mem(rBuffer \<mapsto> hello), [] @ [Ready status_ok, Ready status_ok], ram')"
    using slave arrays(3,4) by (rule test_calls_atomic)
  then have reports: "br_futures (sy_bridge s) = [Ready status_ok, Ready status_ok]"
      "br_mem (sy_bridge s) wBuffer = Some hello" "br_mem (sy_bridge s) rBuffer = Some hello"
    using run_as_if_atomic [OF run] arrays(1,2) by (simp_all add: user_state_def b new_Bridge_def)
  have ends: "test_finish (sy_bridge s1) = Some (Ret 0) \<or> test_finish (sy_bridge s1) = None"
    if idle: "idle_run L ram_slaves orders mutate (terminated master s) s1"
      and stuck: "\<nexists>s2. thread_step L ram_slaves orders mutate s1 s2" for s1
  proof -
    obtain c where c: "closing L orders master s s1 c" "end_ok c" "end_way (last_master s) c"
      using run kept(3) short idle by (rule terminated_idle)
    from closing_stuck [OF c stuck] kept(4) show ?thesis
      using finishes [OF c(1)] hangs_finishes [of s1] by auto
  qed
  note closes' = closing_open [OF closes _ kept(4)]
  have "\<exists>s1. (thread_step L ram_slaves orders mutate)\<^sup>*\<^sup>* (terminated master s) s1
      \<and> test_finish (sy_bridge s1) = Some (Ret 0)"
    using closes'(1) finishes by fastforce
  moreover have "\<exists>s1. (thread_step L ram_slaves orders mutate)\<^sup>*\<^sup>* (terminated master s) s1
      \<and> (\<nexists>s2. thread_step L ram_slaves orders mutate s1 s2) \<and> test_finish (sy_bridge s1) = None"
    using closes'(2) hangs_finishes by fastforce
  ultimately show ?thesis
    using ends reports test_report_match test_printed_out by (simp add: printed)
qed

theorem test_program_ends_witness:
  "\<exists>th b os s s1. go_Run example_go_env [test_messages test_env] = Ret (Some th)
    \<and> test_start example_lib test_env 9 (new_Bridge ''02-sw-master-lite'' [] test_memory test_ram) example_ostream
        = Ret (b, os, Some 1, status_ok)
    \<and> os_out os = test_output example_go_env test_env ''host''
    \<and> system_run example_lib ram_slaves {map snd} mutate_present \<lparr>sy_bridge = b, sy_router = th\<rparr> test_calls s
    \<and> (thread_step example_lib ram_slaves {map snd} mutate_present)\<^sup>*\<^sup>* (terminated 1 s) s1
    \<and> test_finish (sy_bridge s1) = Some (Ret 0)"
proof -
  let ?new = "new_Bridge ''02-sw-master-lite'' [] test_memory test_ram"
  have host: "g_hostname example_go_env = Some ''host''"
    by (simp add: example_go_env_def)
  have router: "go_Run example_go_env [test_messages test_env] = Ret (Some (sy_router test_system))"
    using Run_test [OF host, of test_env] by (simp add: test_system_def)
  have arrives: "exactly (e_in test_env) (map (lib_encode example_lib) (t_out (sy_router test_system) ! 0))"
    using test_answers_arrive by (simp add: test_system_def)
  have start: "test_start example_lib test_env 9 ?new example_ostream
      = Ret (test_bridge, test_printed example_go_env test_env ''host'' example_ostream, Some 1, status_ok)"
    unfolding test_bridge_def
    by (rule test_start_succeeds [OF codec_example_lib _ _ _ _ refl]) (use test_answers_arrive in simp_all)
  have sys: "\<lparr>sy_bridge = test_bridge, sy_router = sy_router test_system\<rparr> = test_system"
    by (simp add: test_system_def)
  obtain s where s: "system_run example_lib ram_slaves {map snd} mutate_present test_system test_calls s"
    "Pending \<notin> set (br_futures (sy_bridge s))"
    by (rule test_run_quiet)
  have "test_memory 3 = Some hello" "test_memory 4 = Some (replicate 13 0)" "in_ram 0x1000 13 test_ram"
    by (simp_all add: test_memory_def in_ram_def test_ram_def Ram_new_def)
  from test_program_ends [OF codec_example_lib _ _ _ host _ _ _ test_done_short router arrives start _ this(1,2) _ this(3), of "{map snd}"
      mutate_present s] s
  have ends: "\<exists>s1. (thread_step example_lib ram_slaves {map snd} mutate_present)\<^sup>*\<^sup>* (terminated 1 s) s1
      \<and> test_finish (sy_bridge s1) = Some (Ret 0)"
    and out: "between_lines example_ostream \<longrightarrow> os_out (test_printed example_go_env test_env ''host'' example_ostream)
      = os_out example_ostream @ test_output example_go_env test_env ''host''"
    by (simp_all add: sys test_calls_def mutate_present_def)
  have "os_out (test_printed example_go_env test_env ''host'' example_ostream) = test_output example_go_env test_env ''host''"
    using out by (simp add: between_lines_def example_ostream_def)
  with router start s(1) ends show ?thesis
    by (metis sys)
qed

end
