(* ===== verification/Test_Handshake.thy ===== *)
theory Test_Handshake
  imports Session_Outcomes Closed_Properties
begin

text \<open>
  The test programs \<^verbatim>\<open>tests/00-version\<close> and \<^verbatim>\<open>tests/01-handshake\<close>, whose \<^verbatim>\<open>main\<close> ends without a call of
  \<^verbatim>\<open>waitForCompletion\<close>. What they print goes to the standard error stream and is left out.
\<close>

section \<open>The programs\<close>

text \<open>The end of \<^verbatim>\<open>main\<close>: the bridge is destroyed.\<close>

definition main_returns :: "int \<Rightarrow> 'w bridge \<Rightarrow> int outcome" where
  "main_returns code b = bind_outcome (Bridge_destroy b) (\<lambda>_. Ret code)"

text \<open>\<^verbatim>\<open>00-version\<close> as a whole: it starts no thread.\<close>

definition test_version :: "lib \<Rightarrow> env \<Rightarrow> 'w bridge \<Rightarrow> int outcome" where
  "test_version L E b =
     bind_outcome (Bridge_connect L E ''unix:///tmp/sw-axi'' b) (\<lambda>(b1, st).
       if isError st then main_returns 1 b1
       else deref (Bridge_getRouterInfo b1) (\<lambda>rInfo.
         bind_outcome (Bridge_disconnect b1) (main_returns 0)))"

text \<open>
  \<^verbatim>\<open>01-handshake\<close> up to \<^verbatim>\<open>start\<close>: the bridge and the status of the call that failed or of the last.
\<close>

definition test_handshake :: "lib \<Rightarrow> env \<Rightarrow> nat \<Rightarrow> 'w bridge \<Rightarrow> ('w bridge \<times> Status) outcome" where
  "test_handshake L E ram b =
     bind_outcome (Bridge_connect L E ''unix:///tmp/sw-axi'' b) (\<lambda>(b1, st1).
       if isError st1 then Ret (b1, st1) else
     deref (Bridge_getRouterInfo b1) (\<lambda>rInfo.
     bind_outcome (Bridge_registerSlave L (Some ram) ramConfig b1) (\<lambda>(b2, st2).
       if isError st2 then Ret (b2, st2) else
     bind_outcome (Bridge_commitIp L b2) (\<lambda>(b3, st3).
       if isError st3 then Ret (b3, st3) else
     Bridge_start L b3))))"

text \<open>
  After \<^verbatim>\<open>start\<close>: the two lists are fetched, which may fail if a thread has lost the connection, and the bridge is
  disconnected. The exit code, and the bridge that is destroyed next.
\<close>

definition test_handshake_ends :: "'w bridge \<Rightarrow> (int \<times> 'w bridge) outcome" where
  "test_handshake_ends b =
     (if isError (snd (Bridge_enumeratePeers b)) then Ret (1, b)
      else if isError (snd (Bridge_enumerateIp b)) then Ret (1, b)
      else bind_outcome (Bridge_disconnect b) (\<lambda>b1. Ret (0, b1)))"

text \<open>Its slave returns 0 and leaves the buffer as it is.\<close>

definition handshake_slaves :: "unit slaves" where
  "handshake_slaves = \<lparr>handleWrite = (\<lambda>_ _ _ _ w. (0, w)), handleRead = (\<lambda>_ _ _ buf w. (0, buf, w))\<rparr>"

text \<open>Meanwhile the threads of the bridge go on.\<close>

inductive own_step :: "lib \<Rightarrow> 'w slaves \<Rightarrow> 'w bridge \<Rightarrow> 'w bridge \<Rightarrow> bool" for L S where
  Own_reader: "br_reader b = Reader_Running \<Longrightarrow> Bridge_reader L S b = Ret b' \<Longrightarrow> own_step L S b b'"
| Own_writer: "br_writer b \<noteq> Writer_Absent \<Longrightarrow> br_writer b \<noteq> Writer_Exited \<Longrightarrow> Bridge_writer L b = Ret b' \<Longrightarrow>
    own_step L S b b'"
| Own_control: "e = Notify \<or> e = Spurious \<Longrightarrow> own_step L S b (b\<lparr>br_queue := q_control e (br_queue b)\<rparr>)"

abbreviation own_run :: "lib \<Rightarrow> 'w slaves \<Rightarrow> 'w bridge \<Rightarrow> 'w bridge \<Rightarrow> bool" where
  "own_run L S \<equiv> rtranclp (own_step L S)"

section \<open>A thread that is not joined\<close>

text \<open>What the end of the program depends on: the threads to be joined, the slaves to be deleted.\<close>

definition unjoined :: "'w bridge \<Rightarrow> bool" where
  "unjoined b \<longleftrightarrow> br_reader b \<noteq> Reader_Absent"

definition deletable :: "'w bridge \<Rightarrow> bool" where
  "deletable b \<longleftrightarrow> distinct (List.map_filter snd (br_slaveMap b))
     \<and> list_all (\<lambda>s. s \<notin> set (br_deleted b)) (List.map_filter snd (br_slaveMap b))"

lemma reader_unjoined:
  "post (\<lambda>b'. unjoined b \<longrightarrow> unjoined b') (reader_response txn b)"
  "post (\<lambda>b'. unjoined b \<longrightarrow> unjoined b') (reader_request S txn b)"
proof -
  show "post (\<lambda>b'. unjoined b \<longrightarrow> unjoined b') (reader_response txn b)"
    by (auto simp: unjoined_def reader_response_def Let_def stop_reader_def set_masterMap_def intro!: post_all split: option.split)
  show "post (\<lambda>b'. unjoined b \<longrightarrow> unjoined b') (reader_request S txn b)"
    unfolding reader_request_def
    by (cases "map_of (br_slaveMap b) (txn_target txn)")
      (simp add: stop_reader_def unjoined_def, simp add: Let_def push_txn_def unjoined_def del: post_deref split del: if_split,
        rule post_all, simp split: prod.split)
qed

lemma Bridge_reader_unjoined: "post (\<lambda>b'. unjoined b \<longrightarrow> unjoined b') (Bridge_reader L S b)"
proof (cases "RouterClient_receiveTransaction L (br_client b)")
  case (Ret x)
  obtain c t st where x: "x = (c, t, st)"
    by (cases x)
  show ?thesis
    using reader_unjoined [of "b\<lparr>br_client := c\<rparr>"] by (simp add: Bridge_reader_def Ret x Let_def stop_reader_def unjoined_def)
qed (simp_all add: Bridge_reader_def)

lemma Bridge_writer_unjoined: "post (\<lambda>b'. unjoined b \<longrightarrow> unjoined b') (Bridge_writer L b)"
  by (cases "br_writer b") (auto simp: unjoined_def Bridge_writer_def Let_def stop_writer_def assign_id_def writer_send_def
      set_masterMap_def split: prod.split pop_result.split)

lemma own_step_keeps:
  assumes "own_step L S b b'"
  shows "br_slaveMap b' = br_slaveMap b \<and> br_deleted b' = br_deleted b \<and> (unjoined b \<longrightarrow> unjoined b')"
  using assms
proof cases
  case Own_reader
  then show ?thesis
    using postD [OF Bridge_reader_keeps, of L S b b'] postD [OF Bridge_reader_unjoined, of L S b b'] by blast
next
  case Own_writer
  then show ?thesis
    using postD [OF Bridge_writer_keeps, of L b b'] postD [OF Bridge_writer_unjoined, of L b b'] by blast
qed (simp add: unjoined_def)

lemma own_run_keeps:
  assumes "own_run L S b b'" "unjoined b" "deletable b"
  shows "unjoined b' \<and> deletable b'"
  using assms
proof (induction rule: rtranclp_induct)
  case (step b1 b2)
  then show ?case
    using own_step_keeps [OF step.hyps(2)] by (simp add: deletable_def)
qed simp

lemma disconnect_keeps:
  assumes "deletable b"
  obtains b' where "Bridge_disconnect b = Ret b'" "deletable b'" "br_reader b' = br_reader b" "br_writer b' = br_writer b"
  using assms by (auto simp: Bridge_disconnect_def deletable_def Let_def List.map_filter_def)

lemma destroy_unjoined: "deletable b \<Longrightarrow> unjoined b \<Longrightarrow> Bridge_destroy b = Fault Terminate"
  by (rule disconnect_keeps [of b]) (simp_all add: Bridge_destroy_def unjoined_def)

lemma destroy_joined:
  assumes "deletable b" "br_reader b = Reader_Absent" "br_writer b = Writer_Absent"
  obtains b' where "Bridge_destroy b = Ret b'"
proof (rule disconnect_keeps [OF assms(1)])
  fix b'
  assume "Bridge_disconnect b = Ret b'" "br_reader b' = br_reader b" "br_writer b' = br_writer b"
  then show thesis
    using assms(2,3) that by (simp add: Bridge_destroy_def)
qed

lemma ends_deletable:
  assumes "deletable b" "unjoined b"
  obtains code b' where "test_handshake_ends b = Ret (code, b')" "deletable b'" "unjoined b'"
proof -
  obtain b' where b': "Bridge_disconnect b = Ret b'" "deletable b'" "br_reader b' = br_reader b"
    using assms(1) by (rule disconnect_keeps)
  then have "unjoined b'"
    using assms(2) by (simp add: unjoined_def)
  with b' assms that [of 1 b] that [of 0 b'] show thesis
    by (cases "isError (snd (Bridge_enumeratePeers b))"; cases "isError (snd (Bridge_enumerateIp b))")
      (simp_all add: test_handshake_ends_def)
qed

section \<open>Up to start\<close>

definition idle_bridge :: "'w bridge \<Rightarrow> bool" where
  "idle_bridge b \<longleftrightarrow> deletable b \<and> br_reader b = Reader_Absent \<and> br_writer b = Writer_Absent"

lemma idle_bridge_client [simp]:
  "idle_bridge (b\<lparr>br_client := c\<rparr>) = idle_bridge b" "idle_bridge (b\<lparr>br_peers := ps\<rparr>) = idle_bridge b"
  "idle_bridge (b\<lparr>br_ipBlocks := ips\<rparr>) = idle_bridge b" "idle_bridge (b\<lparr>br_routerInfo := i\<rparr>) = idle_bridge b"
  by (simp_all add: idle_bridge_def deletable_def)

lemma disconnect_idle: "idle_bridge b \<Longrightarrow> post idle_bridge (Bridge_disconnect b)"
  by (rule disconnect_keeps [of b]) (simp_all add: idle_bridge_def)

lemma start_leaves:
  assumes "idle_bridge b" "Bridge_start L b = Ret (b', st)"
  shows "if isError st then idle_bridge b' else deletable b' \<and> unjoined b'"
proof -
  obtain c1 ps st1 where r1: "retrieve_all (RouterClient_retrievePeerInfo L) (br_client b) (br_peers b) = Ret (c1, ps, st1)"
    using assms(2) by (cases "retrieve_all (RouterClient_retrievePeerInfo L) (br_client b) (br_peers b)") (auto simp: Bridge_start_def)
  show ?thesis
  proof (cases "isError st1")
    case True
    then show ?thesis
      using assms r1 postD [OF disconnect_idle, of "b\<lparr>br_client := c1, br_peers := ps\<rparr>"]
      by (auto simp: Bridge_start_def Let_def bind_outcome_eq_Ret)
  next
    case False
    obtain c2 ips st2 where r2: "retrieve_all (RouterClient_retrieveIpConfig L) c1 (br_ipBlocks b) = Ret (c2, ips, st2)"
      using assms(2) r1 False by (cases "retrieve_all (RouterClient_retrieveIpConfig L) c1 (br_ipBlocks b)")
        (auto simp: Bridge_start_def)
    show ?thesis
    proof (cases "isError st2")
      case True
      then show ?thesis
        using assms r1 r2 False postD [OF disconnect_idle, of "b\<lparr>br_client := c1, br_peers := ps, br_client := c2, br_ipBlocks := ips\<rparr>"]
        by (auto simp: Bridge_start_def Let_def bind_outcome_eq_Ret)
    next
      case 2: False
      then show ?thesis
        using assms r1 r2 False
        by (auto simp: Bridge_start_def Let_def idle_bridge_def deletable_def unjoined_def)
    qed
  qed
qed

lemma handshake_leaves:
  assumes "test_handshake L E ram (new_Bridge name fds mem w) = Ret (b, st)"
  shows "if isError st then idle_bridge b else deletable b \<and> unjoined b"
proof -
  let ?new = "new_Bridge name fds mem w"
  have new: "idle_bridge ?new" "br_slaveMap ?new = []" "br_deleted ?new = []"
    by (simp_all add: idle_bridge_def deletable_def new_Bridge_def List.map_filter_def)
  have connects: "idle_bridge b1" "br_slaveMap b1 = []" "br_deleted b1 = []"
    if "Bridge_connect L E uri ?new = Ret (b1, st1)" for uri b1 st1
    using that new by (auto simp: Bridge_connect_def bind_outcome_eq_Ret Let_def split: if_splits)
  have registers: "idle_bridge b2"
    if "Bridge_registerSlave L (Some ram) ramConfig b1 = Ret (b2, st2)" "idle_bridge b1" "br_slaveMap b1 = []" "br_deleted b1 = []"
    for b1 b2 st2
    using that by (auto simp: Bridge_registerSlave_def bind_outcome_eq_Ret Let_def idle_bridge_def deletable_def List.map_filter_def
        split: if_splits)
  have commits: "idle_bridge b3" if "Bridge_commitIp L b2 = Ret (b3, st3)" "idle_bridge b2" for b2 b3 st3
    using that by (auto simp: Bridge_commitIp_def bind_outcome_eq_Ret)
  obtain b1 st1 where r1: "Bridge_connect L E ''unix:///tmp/sw-axi'' ?new = Ret (b1, st1)"
    using assms by (auto simp: test_handshake_def bind_outcome_eq_Ret)
  show ?thesis
  proof (cases "isError st1")
    case True
    then show ?thesis
      using assms r1 connects(1) [OF r1] by (simp add: test_handshake_def)
  next
    case st1: False
    then obtain b2 st2 where r2: "Bridge_registerSlave L (Some ram) ramConfig b1 = Ret (b2, st2)"
      using assms r1 by (auto simp: test_handshake_def bind_outcome_eq_Ret deref_eq_Ret)
    note idle2 = registers [OF r2 connects [OF r1]]
    show ?thesis
    proof (cases "isError st2")
      case True
      then show ?thesis
        using assms r1 r2 st1 idle2 by (simp add: test_handshake_def deref_eq_Ret)
    next
      case st2: False
      then obtain b3 st3 where r3: "Bridge_commitIp L b2 = Ret (b3, st3)"
        using assms r1 r2 st1 by (auto simp: test_handshake_def bind_outcome_eq_Ret deref_eq_Ret)
      note idle3 = commits [OF r3 idle2]
      show ?thesis
      proof (cases "isError st3")
        case True
        then show ?thesis
          using assms r1 r2 r3 st1 st2 idle3 by (simp add: test_handshake_def deref_eq_Ret)
      next
        case False
        then have "Bridge_start L b3 = Ret (b, st)"
          using assms r1 r2 r3 st1 st2 by (simp add: test_handshake_def deref_eq_Ret)
        with idle3 show ?thesis
          by (rule start_leaves)
      qed
    qed
  qed
qed

section \<open>The version program\<close>

lemma connect_info: "post (\<lambda>(c', info, st). isError st \<or> info \<noteq> None) (RouterClient_connect L E uri name c)"
proof -
  obtain ok c4 where w: "client_write L (c\<lparr>c_sock := e_socket E, c_open := e_socket E # c_open c, c_uri := uri,
      c_in := e_in E, c_out := \<lparr>wr_script = e_wr E, wr_sent = []\<rparr>\<rparr>) (client_SystemInfo E name) = (ok, c4)"
    by fastforce
  show ?thesis
    by (cases ok) (auto simp: RouterClient_connect_def Let_def isError_def mk_status_def w,
      rule post_all, clarsimp split: option.split, rule post_all, simp)
qed

text \<open>It returns 0 if \<^verbatim>\<open>connect\<close> succeeds and 1 if it fails; nothing is left to be joined.\<close>

lemma version_program_exits:
  assumes "Bridge_connect L E ''unix:///tmp/sw-axi'' (new_Bridge name fds mem w) = Ret (b1, st)"
  shows "test_version L E (new_Bridge name fds mem w) = Ret (if isError st then 1 else 0)"
proof -
  let ?new = "new_Bridge name fds mem w"
  obtain c info st1 where c: "RouterClient_connect L E ''unix:///tmp/sw-axi'' (br_name ?new) (br_client ?new) = Ret (c, info, st1)"
    using assms by (auto simp: Bridge_connect_def bind_outcome_eq_Ret)
  have info: "isError st1 \<or> info \<noteq> None"
    using postD [OF connect_info c] by simp
  show ?thesis
    using assms c info
    by (auto simp: test_version_def Bridge_connect_def Let_def main_returns_def Bridge_destroy_def Bridge_disconnect_def
        Bridge_getRouterInfo_def new_Bridge_def List.map_filter_def break_promises_def split: if_splits)
qed

section \<open>Against a router\<close>

text \<open>The answers of a router to the program, with any peers and any blocks.\<close>

lemma handshake_succeeds:
  assumes L: "codec L" and E: "e_socket E \<noteq> -1" "e_connect E (sun_path ''/tmp/sw-axi'')" "e_wr E = []"
    and arrives: "exactly (e_in E) (map (lib_encode L) (router_info_message G hn # ackIpInfo i # commit infos ips))"
    and ips: "list_all2 announces_ip (map ip_message ips) configs"
  obtains b where "test_handshake L E ram (new_Bridge name fds mem w) = Ret (b, status_ok)"
    "br_peers b = infos" "br_ipBlocks b = configs"
proof -
  let ?new = "new_Bridge name fds mem w"
  let ?si = "\<lparr>si_name = ''router'', si_systemName = go_systemName G, si_pid = g_pid G, si_hostname = hn\<rparr>"
  let ?sent = "[client_SystemInfo E name]"
  obtain k1 where k1: "exactly k1 (map (lib_encode L) (ackIpInfo i # commit infos ips))"
    "Bridge_connect L E ''unix:///tmp/sw-axi'' ?new
      = Ret (?new\<lparr>br_client := linked L E fds CONNECTED ?sent k1, br_routerInfo := Some ?si\<rparr>, status_ok)"
    by (rule Bridge_connect_linked [OF L E arrives])
  obtain k2 where k2: "exactly k2 (map (lib_encode L) (commit infos ips))"
    "RouterClient_registerIp L ramConfig (linked L E fds CONNECTED ?sent k1)
      = Ret (linked L E fds CONNECTED (?sent @ [registerIp_message ramConfig 1]) k2, i, status_ok)"
    by (rule Bridge_register_linked [OF L E(1) k1(1) wire_of_test_types(1)])
  define b2 where "b2 = ?new\<lparr>br_client := linked L E fds CONNECTED (?sent @ [registerIp_message ramConfig 1]) k2,
    br_routerInfo := Some ?si, br_slaveMap := [(i, Some ram)]\<rparr>"
  have b2: "br_client b2 = linked L E fds CONNECTED (?sent @ [registerIp_message ramConfig 1]) k2"
    "br_reader b2 = Reader_Absent" "br_writer b2 = Writer_Absent"
    by (simp_all add: b2_def new_Bridge_def)
  obtain b3 b4 where b3: "Bridge_commitIp L b2 = Ret (b3, status_ok)" "Bridge_start L b3 = Ret (b4, status_ok)"
    "br_peers b4 = infos" "br_ipBlocks b4 = configs"
    by (rule Bridge_commit_linked [OF L E(1) k2(1) ips b2]) (simp add: b2_def new_Bridge_def)
  have "Bridge_registerSlave L (Some ram) ramConfig (?new\<lparr>br_client := linked L E fds CONNECTED ?sent k1, br_routerInfo := Some ?si\<rparr>)
      = Ret (b2, status_ok)"
    using k2(2) by (simp add: Bridge_registerSlave_def Let_def b2_def new_Bridge_def)
  with b3 that show thesis
    by (simp add: test_handshake_def k1(2) Bridge_getRouterInfo_def)
qed

section \<open>An instance\<close>

definition handshake_answers :: "wire_Message list" where
  "handshake_answers = router_info_message example_go_env ''host'' # ackIpInfo 0 # commit [client_info (example_env [])] [ram_block]"

definition handshake_env :: env where
  "handshake_env = (example_env [])\<lparr>e_in := example_messages handshake_answers\<rparr>"

lemma handshake_env_simps [simp]:
  "e_socket handshake_env = 3" "e_connect handshake_env path" "e_wr handshake_env = []"
  by (simp_all add: handshake_env_def example_env_def)

lemma handshake_answers_arrive: "exactly (e_in handshake_env) (map (lib_encode example_lib) handshake_answers)"
proof -
  have name: "go_systemName example_go_env = ''Linux Golang''"
    by (simp add: go_systemName_def toUpper_def example_go_env_def) code_simp
  have "\<forall>m \<in> set handshake_answers. length (enc_Message m) \<le> vector_max_size"
    by (simp add: handshake_answers_def router_info_message_def commit_def ackIpInfo_def ip_message_def system_info_message_def
        client_info_def system_name_def example_env_def example_go_env_def name [unfolded example_go_env_def]
        enc_sizes vector_max_size_def new_Message_def ram_block_def)
  then show ?thesis
    using exactly_example_messages by (simp add: handshake_env_def)
qed

section \<open>Property\<close>

text \<open>
  C8: the test program \<^verbatim>\<open>tests/01-handshake\<close> aborts. If a call up to \<^verbatim>\<open>start\<close> fails, \<^verbatim>\<open>main\<close> returns 1 and the bridge is
  destroyed in order. If they all succeed, then whatever the threads of the bridge do meanwhile, the rest of
  \<^verbatim>\<open>main\<close> runs to its return, and the destructor of the bridge ends the program: it destroys a thread object that
  nobody has joined, since the program calls \<^verbatim>\<open>disconnect\<close> but not \<^verbatim>\<open>waitForCompletion\<close>.
\<close>

theorem handshake_program_aborts:
  assumes "test_handshake L E ram (new_Bridge ''01-handshake-cpp'' fds mem w) = Ret (b, st)"
  shows "if isError st then main_returns 1 b = Ret 1
    else \<forall>b1. own_run L S b b1 \<longrightarrow> (\<exists>code b2. test_handshake_ends b1 = Ret (code, b2)
      \<and> (\<forall>b3. own_run L S b2 b3 \<longrightarrow> main_returns code b3 = Fault Terminate))"
proof (cases "isError st")
  case True
  then have idle: "idle_bridge b"
    using handshake_leaves [OF assms] by simp
  obtain b' where "Bridge_destroy b = Ret b'"
    by (rule destroy_joined [of b]) (use idle in \<open>simp_all add: idle_bridge_def\<close>)
  then show ?thesis
    using True by (simp add: main_returns_def)
next
  case False
  then have b: "deletable b" "unjoined b"
    using handshake_leaves [OF assms] by simp_all
  have "\<exists>code b2. test_handshake_ends b1 = Ret (code, b2)
      \<and> (\<forall>b3. own_run L S b2 b3 \<longrightarrow> main_returns code b3 = Fault Terminate)" if "own_run L S b b1" for b1
  proof -
    have "deletable b1" "unjoined b1"
      using own_run_keeps [OF that] b by simp_all
    then obtain code b2 where b2: "test_handshake_ends b1 = Ret (code, b2)" "deletable b2" "unjoined b2"
      by (rule ends_deletable)
    moreover have "main_returns code b3 = Fault Terminate" if "own_run L S b2 b3" for b3
      using own_run_keeps [OF that] b2(2,3) destroy_unjoined [of b3] by (simp add: main_returns_def)
    ultimately show ?thesis by blast
  qed
  then show ?thesis
    unfolding if_not_P [OF False] by blast
qed

theorem handshake_program_aborts_witness:
  "\<exists>b code b2. test_handshake example_lib handshake_env 9 (new_Bridge ''01-handshake-cpp'' [] test_memory ()) = Ret (b, status_ok)
    \<and> test_handshake_ends b = Ret (code, b2) \<and> main_returns code b2 = Fault Terminate"
proof -
  have ips: "list_all2 announces_ip (map ip_message [ram_block]) [announced ram_block]"
    using announces_ip_of_message [of ram_block] by (simp add: ram_block_def)
  obtain b where b: "test_handshake example_lib handshake_env 9 (new_Bridge ''01-handshake-cpp'' [] test_memory ())
      = Ret (b, status_ok)"
    by (rule handshake_succeeds [OF codec_example_lib _ _ _ handshake_answers_arrive [unfolded handshake_answers_def] ips])
      simp_all
  have "\<not> isError status_ok"
    by (simp add: isError_def status_ok_def)
  with handshake_program_aborts [OF b] obtain code b2 where "test_handshake_ends b = Ret (code, b2)"
    "\<forall>b3. own_run example_lib handshake_slaves b2 b3 \<longrightarrow> main_returns code b3 = Fault Terminate"
    unfolding if_not_P by (metis rtranclp.rtrancl_refl)
  with b show ?thesis
    by (blast intro: rtranclp.rtrancl_refl)
qed

end
