(* ===== verification/Spec2Isabelle.thy ===== *)
theory Spec2Isabelle
  imports Printing Client_Properties Sync_Queue Bridge_Properties Sim_Calls Sv_Bridge Router_Properties End_To_End
    Message_Types Address_Map Router_Run Go_Socket Closed_Properties Session_Properties
    Test_Handshake
begin

text \<open>
  SW-AXI connects software models of AXI masters and slaves, and simulations in SystemVerilog, through a
  router process. This development models the C++ side of the repository, the bridge of the simulations and
  the router.

  \<^bold>\<open>The program.\<close> A process holds a \<^verbatim>\<open>Bridge\<close> (\<^verbatim>\<open>src/lib/SwAxi.cc\<close>). It connects to the router over a UNIX
  socket, registers slaves and masters, commits, fetches the lists of peers and IP blocks, and starts two
  threads. Masters put requests into a queue (\<^verbatim>\<open>src/lib/Queue.hh\<close>); the writer thread takes them out, gives
  each an identifier, files it in a map, and sends it. The reader thread receives responses, which
  complete filed requests, and requests for slaves, which it serves and answers through the queue. Both
  threads use the router client (\<^verbatim>\<open>src/common/RouterClient.cc\<close>), a state machine over framed messages
  (\<^verbatim>\<open>src/common/Utils.cc\<close>, \<^verbatim>\<open>src/common/IpcStructs.fbs\<close>). A simulation uses the same client through a C
  interface (\<^verbatim>\<open>src/sim/bridge.cc\<close>). The router (\<^verbatim>\<open>src/router\<close>) serves its clients one after the other: it shakes
  hands, registers the IP the client announces, and on the commit of the last one sends the lists to all;
  then it routes requests by address and responses by initiator.

  \<^bold>\<open>The theories.\<close>
  \<^item> \<open>Prelude\<close>: machine integers; \<open>outcome\<close>, the result of a call that may return, never return, or leave
    the defined part of C++; \<open>post\<close> and its rules; little-endian bytes; sums over the values of a map.
  \<^item> \<open>Data\<close>: the enums, structs and the status class of \<^verbatim>\<open>src/common/Data.hh\<close>. An enum also has the values of
    its underlying type that carry no name.
  \<^item> \<open>Numerals\<close>, \<open>Printing\<close>: \<^verbatim>\<open>SystemInfo::print\<close> and \<^verbatim>\<open>IpConfig::print\<close> over the formatting state of a stream.
    Shown: the lines do not influence each other, and fields have fixed widths and read back.
  \<^item> \<open>Wire\<close>: the messages of the schema as records. Encoding and decoding are generated code over
    FlatBuffers, which is not in the repository: they are the record \<open>lib\<close>, and theorems about messages that
    arrive assume \<open>codec\<close>, that a finished buffer reads back as what was built.
  \<^item> \<open>Socket_IO\<close>: \<^verbatim>\<open>readFromSocket\<close> and \<^verbatim>\<open>writeToSocket\<close>. What arrives is a list of chunks and errors, each
    \<^verbatim>\<open>read\<close> takes at most one chunk, and the end of the list is the end of the file. What a \<^verbatim>\<open>write\<close> takes is
    given by a script; after the script everything is taken. Locales state the contract of a source and a
    sink of frames; shown: the round trip of frames, the exact result of every read, when it hangs.
  \<^item> \<open>Listing\<close>: the loop of \<^verbatim>\<open>Bridge::start\<close> that fetches a list, over an interface with two locales: an
    operation that lists, and one whose entries use something up, so that the loop ends.
  \<^item> \<open>Router_Client\<close>, \<open>Client_Properties\<close>: the class \<^verbatim>\<open>RouterClient\<close>, one definition per method, every branch
    of it; the calls as one step function; the states as a linear order. An object that a method allocates and
    loses is counted in \<open>c_lost\<close>. What the calls do on a sound connection
    is proved in a locale over a source of frames, of which the listing locales, with \<^verbatim>\<open>retrievePeerInfo\<close> and
    \<^verbatim>\<open>retrieveIpConfig\<close>, are sublocales; it is interpreted twice, for frames that come next and for frames
    with nothing after them. Shown: the order of the handshake, the
    discipline of descriptors, errors, the round trip of transactions.
  \<^item> \<open>Sync_Queue\<close>: the queue as steps, one for each critical section, with the condition variable. The
    locale of a FIFO is interpreted on it. Shown: conservation and order under every interleaving, and which
    wake-ups are lost.
  \<^item> \<open>Bridge\<close>: \<^verbatim>\<open>Master\<close> and \<^verbatim>\<open>Bridge\<close>, one definition per method, one round of the reader, and the stretches of
    the writer between its critical sections. Futures are numbered, memory of the user is a map from
    allocations to bytes, slaves are a parameter.
  \<^item> \<open>Bridge_Threads\<close>: the interleavings of the two threads, the notifications and the calls of the user as a
    step relation, with its invariants: the client is driven by client calls; who holds each promise;
    which identifiers are in use.
  \<^item> \<open>Bridge_Properties\<close>: what the bridge does: starting, completing requests, serving slaves, shutting down.
  \<^item> \<open>Sim_Bridge\<close>, \<open>Sim_Properties\<close>, \<open>Sim_Calls\<close>: the C interface over a heap of handles, with the conversions of
    \<^verbatim>\<open>src/sim/utils.sv\<close>; what clients that are deleted had lost is added up in \<open>d_lost\<close>. Shown: each client on the heap
    is what the calls made on its handle make of a new one, and what the conversions return and free.
  \<^item> \<open>Sv_Bridge\<close>: the class \<^verbatim>\<open>Bridge\<close> of \<^verbatim>\<open>src/sim/bridge.sv\<close> over that interface. A locale states what a call that
    fetches an entry promises and is interpreted on both; shown: \<^verbatim>\<open>start\<close> fetches what \<^verbatim>\<open>Bridge::start\<close> of the
    library fetches and returns its status, but neither disconnects nor clears its list on an error; and what a
    simulation leaves on the heap.
  \<^item> \<open>Go_Router\<close>: the router's data, the handshake, the registration, the commit and one round of the routing
    loop, each as a function of the message that has arrived. The order in which Go visits a map is a
    parameter of \<open>findTarget\<close>, chosen anew from a set of orders by every round of the loop; the generated \<^verbatim>\<open>MutateTarget\<close> a parameter of \<open>route\<close>.
  \<^item> \<open>Router_Properties\<close>: what the router decides, and the handshake, the registration, the commit and failing
    requests from both ends: the C++ client or bridge reads what the router's functions answer.
  \<^item> \<open>Router_Threads\<close>: the goroutines of the router, readers, writers and the routing loop, which meet on channels
    without a buffer, as a step relation. Shown: they do what the loop does on a merge of what the clients
    send, and exactly when the router can finish.
  \<^item> \<open>Router_Run\<close>: \<^verbatim>\<open>Run\<close> as a whole: the registration of all clients, and what they are sent in it and after it.
  \<^item> \<open>Go_Socket\<close>: \<^verbatim>\<open>readMsg\<close> and \<^verbatim>\<open>writeMsg\<close> of the router. The locales of \<open>Socket_IO\<close> are interpreted on them, in
    both directions: frames cross between C++ and Go; and the two reading functions are compared.
  \<^item> \<open>End_To_End\<close>: a read and a write from the call of the master through two bridges and the router to the
    future, and what becomes of a read of a slave that is not number 0.
  \<^item> \<open>Message_Types\<close>: the typing of messages: what clients and router send is well formed, and what is well
    formed is read without a null reference and, where it is the message a call is for, with every field; the
    router passes on well-formed messages.
  \<^item> \<open>Address_Map\<close>: the overlap check against the overlap of address ranges, and when the target of a request
    is unique.
  \<^item> \<open>Request_Machine\<close>: what a user of the bridge may think happens: the atomic service, which has served each call
    when it returns, and between it and the code a machine with a single list of requests and answers. The locale
    \<open>simulation\<close> carries a relation of states along labelled runs; the machine simulates the service.
  \<^item> \<open>Closed_System\<close>, \<open>Closed_Simulation\<close>: one bridge and its router in one step relation: both threads of the bridge,
    the queue, the sockets, the three goroutines, spurious wake-ups, and the calls of the user. Shown: it simulates
    the machine, and every step of a thread leaves less work.
  \<^item> \<open>Test_Program\<close>, \<open>Test_Start\<close>: the slave, the buffers, the calls, what is printed up to the start
    of its thread, the report and the exit code of \<^verbatim>\<open>tests/02-sw-master-lite/testbench.cc\<close>. A slave that is accessed out of
    its bounds, which is undefined in C++, fails with -1 in \<open>ram_slaves\<close>; the properties of the program assume the
    access in bounds. Shown: against a router of one client the calls up to the enumerations succeed
    and leave both processes at rest, the state from which the closed system starts.
  \<^item> \<open>Closed_Properties\<close>: from rest, the closed system is the atomic service whenever no future is pending, no step of
    it fails, and when the calls stop it comes to rest with every future ready; so the test program reads what
    it wrote.
  \<^item> \<open>Session_Machine\<close>, \<open>Session_End\<close>: what follows the call of \<^verbatim>\<open>terminate\<close>: TERMINATE to the router, DONE back, the
    end of the reader, the finished queue, the logout. The machine has the place of this one message, the state of the
    writer inside \<^verbatim>\<open>pop\<close> and the notifications to come; it ends, and when it is decided how. The locale
    \<open>bisimulation\<close> carries runs, bounds and stuck states between two step relations; it is interpreted on the
    threads of the closed system and the machine.
  \<^item> \<open>Session_Outcomes\<close>, \<open>Session_Properties\<close>: the session is over, or hangs since the writer went to sleep after
    the queue was finished, and both happen; a master that is not the last one ends the router; and what the
    test program prints and returns, from its first call on.
  \<^item> \<open>Test_Handshake\<close>: the programs \<^verbatim>\<open>tests/00-version\<close> and \<^verbatim>\<open>tests/01-handshake\<close>, and what happens to a bridge that is
    destroyed after \<^verbatim>\<open>start\<close> without \<^verbatim>\<open>waitForCompletion\<close>.
  \<^item> \<open>Codec_Example\<close>: an encoder and a decoder that satisfy \<open>codec\<close>. It stands for no code; the instances of
    the theorems are computed with it.

  \<^bold>\<open>Loops.\<close> The loop of \<^verbatim>\<open>writeToSocket\<close> ends because the script of partial writes is finite: a system that
  accepts nothing for ever is outside the model. The loop of \<^verbatim>\<open>readFromSocket\<close> is a
  partial function, since it does not end when the peer closes inside a message; so is the loop of
  \<open>Listing\<close>, which is shown to end on what arrives in the model, a finite list. A peer that never stops
  sending is outside the model: against it the two loops of \<^verbatim>\<open>start\<close> would not end. No fuel is used. Identifiers of requests are 64-bit words; theorems that
  need them fresh speak about the first 2^64 steps.

  \<^bold>\<open>Assumptions of the model.\<close> A call of the client is one step of a run, so the unsynchronized access of the two
  threads to the client object is taken as atomic; a thread blocked in \<^verbatim>\<open>read\<close> is a step that has not
  happened yet. Signals (\<^verbatim>\<open>SIGPIPE\<close>), exceptions from allocation and from the slaves, and the text of
  \<^verbatim>\<open>errno\<close> (a field of \<open>lib\<close>) are left out.

  The closed system has the one bridge as client 0, both sockets stay open and take every byte, the memory lent to a
  read stays allocated with its size until the future is ready, and fewer than 2^64 requests are made. Its runs have the
  calls \<^verbatim>\<open>read\<close> and \<^verbatim>\<open>write\<close>; \<^verbatim>\<open>terminate\<close> is called when all futures are ready, as the test program does, and
  \<^verbatim>\<open>disconnect\<close> after \<^verbatim>\<open>waitForCompletion\<close> has returned. What calls in another order do to a bridge is the
  subject of \<open>Bridge_Threads\<close> and \<open>Bridge_Properties\<close>. Its bridge and router are \<open>wired\<close>: a request for which a block is
  found arrives with the number of a slave of the bridge, which serves it. The generated \<^verbatim>\<open>MutateTarget\<close> leaves the
  target, which is absent, alone, so that number is 0 for all blocks: a bridge whose slave is number 0 is wired, and
  that slave serves all its requests; one without a slave number 0 is not, and its reader ends at the first
  request, as \<open>End_To_End\<close> shows.

  \<^bold>\<open>Not modelled.\<close> The router's command line, its logging and its listening socket (its goroutines exchange
  decoded messages; the framing is compared separately), the class \<^verbatim>\<open>Slave\<close> and the AXI4-Lite signals of the simulation
  (\<^verbatim>\<open>src/sim/interfaces.sv\<close>, \<^verbatim>\<open>src/sim/axi4lite.sv\<close>), which carry no code of the protocol, the
  testbenches in SystemVerilog, what the test programs write on the standard error stream (but for \<^verbatim>\<open>02-sw-master-lite\<close> up to the start of its
  thread), and the build files.
\<close>

end
